(* ===== verification/Wire.thy ===== *)
theory Wire
  imports Hp_Prelude
begin

text \<open>
  The WebSocket wire protocol (\<open>protocol.rs\<close>): opcodes, the frame parser, the routing keys and
  the builder of outgoing frames. The variable-length encoding is that of the \<open>yrs\<close> crate; it is
  the parameter \<open>codec\<close> of every definition, with the laws the code relies on in the locale
  \<open>wire_codec\<close>: what was written is read back, with the rest of the input left over. An encoder is
  the list of bytes written so far, a decoder the list of bytes not yet read.
\<close>

section \<open>The encoding the frames are built from\<close>

text \<open>\<open>UnexpectedValue\<close> is the one \<open>ReadError\<close> the source names; \<open>DecodeError\<close> stands for the
  decoder's own errors, which no caller inspects.\<close>

datatype read_error = UnexpectedValue | DecodeError

record codec =
  enc_string :: "string \<Rightarrow> bytes"
  enc_var :: "u64 \<Rightarrow> bytes"
  enc_buf :: "bytes \<Rightarrow> bytes"
  dec_string :: "bytes \<Rightarrow> read_error + string \<times> bytes"
  dec_var :: "bytes \<Rightarrow> read_error + u64 \<times> bytes"
  dec_buf :: "bytes \<Rightarrow> read_error + bytes \<times> bytes"
  after_bad_string :: "bytes \<Rightarrow> bytes"

text \<open>\<open>after_bad_string\<close> is where the decoder stands after a \<open>read_string\<close> that failed; one caller reads
  on from there.\<close>

section \<open>Opcodes\<close>

datatype message_type =
    Sync | Awareness | Auth | QueryAwareness | SyncReply | Stateless
  | BroadcastStateless | CloseMsg | SyncStatus | Ping | Pong

fun type_code :: "message_type \<Rightarrow> u64" where
  "type_code Sync = 0"
| "type_code Awareness = 1"
| "type_code Auth = 2"
| "type_code QueryAwareness = 3"
| "type_code SyncReply = 4"
| "type_code Stateless = 5"
| "type_code BroadcastStateless = 6"
| "type_code CloseMsg = 7"
| "type_code SyncStatus = 8"
| "type_code Ping = 9"
| "type_code Pong = 10"

definition from_u64 :: "u64 \<Rightarrow> message_type option" where
  "from_u64 v =
     (if v = 0 then Some Sync
      else if v = 1 then Some Awareness
      else if v = 2 then Some Auth
      else if v = 3 then Some QueryAwareness
      else if v = 4 then Some SyncReply
      else if v = 5 then Some Stateless
      else if v = 6 then Some BroadcastStateless
      else if v = 7 then Some CloseMsg
      else if v = 8 then Some SyncStatus
      else if v = 9 then Some Ping
      else if v = 10 then Some Pong
      else None)"

datatype auth_message_type = Token | PermissionDenied | Authenticated

fun auth_code :: "auth_message_type \<Rightarrow> u64" where
  "auth_code Token = 0"
| "auth_code PermissionDenied = 1"
| "auth_code Authenticated = 2"

section \<open>Incoming frames\<close>

record incoming_frame =
  routing_key :: string
  message_type :: message_type
  decoder :: bytes

definition parse :: "codec \<Rightarrow> bytes \<Rightarrow> read_error + incoming_frame" where
  "parse C data =
     (case dec_string C data of
        Inl e \<Rightarrow> Inl e
      | Inr (key, rest) \<Rightarrow>
          (case dec_var C rest of
             Inl e \<Rightarrow> Inl e
           | Inr (raw_type, rest') \<Rightarrow>
               (case from_u64 raw_type of
                  None \<Rightarrow> Inl UnexpectedValue
                | Some ty \<Rightarrow> Inr \<lparr>routing_key = key, message_type = ty, decoder = rest'\<rparr>)))"

section \<open>Routing keys\<close>

definition nul :: char where
  "nul = CHR 0x00"

definition parse_routing_key :: "string \<Rightarrow> string \<times> string option" where
  "parse_routing_key key =
     (case find_char nul key of
        Some idx \<Rightarrow> (take idx key, Some (drop (idx + 1) key))
      | None \<Rightarrow> (key, None))"

definition message_address :: "string \<Rightarrow> string option \<Rightarrow> string" where
  "message_address document_name session_id =
     (case session_id of
        Some sid \<Rightarrow> document_name @ [nul] @ sid
      | None \<Rightarrow> document_name)"

section \<open>Outgoing frames\<close>

record outgoing_message =
  encoder :: bytes

definition out_new :: "codec \<Rightarrow> string \<Rightarrow> outgoing_message" where
  "out_new C address = \<lparr>encoder = [] @ enc_string C address\<rparr>"

definition write_opcode :: "codec \<Rightarrow> message_type \<Rightarrow> outgoing_message \<Rightarrow> outgoing_message" where
  "write_opcode C ty m = m\<lparr>encoder := encoder m @ enc_var C (type_code ty)\<rparr>"

definition out_sync :: "codec \<Rightarrow> outgoing_message \<Rightarrow> outgoing_message" where
  "out_sync C m = write_opcode C Sync m"

definition out_sync_reply :: "codec \<Rightarrow> outgoing_message \<Rightarrow> outgoing_message" where
  "out_sync_reply C m = write_opcode C SyncReply m"

definition write_sync_payload :: "bytes \<Rightarrow> outgoing_message \<Rightarrow> outgoing_message" where
  "write_sync_payload payload m = m\<lparr>encoder := encoder m @ payload\<rparr>"

definition out_awareness_update :: "codec \<Rightarrow> bytes \<Rightarrow> outgoing_message \<Rightarrow> outgoing_message" where
  "out_awareness_update C update m =
     (let m = write_opcode C Awareness m in m\<lparr>encoder := encoder m @ enc_buf C update\<rparr>)"

definition out_query_awareness :: "codec \<Rightarrow> outgoing_message \<Rightarrow> outgoing_message" where
  "out_query_awareness C m = write_opcode C QueryAwareness m"

definition out_authenticated :: "codec \<Rightarrow> bool \<Rightarrow> outgoing_message \<Rightarrow> outgoing_message" where
  "out_authenticated C read_only m =
     (let m = write_opcode C Auth m;
          m = m\<lparr>encoder := encoder m @ enc_var C (auth_code Authenticated)\<rparr>
      in m\<lparr>encoder := encoder m @
             enc_string C (if read_only then ''readonly'' else ''read-write'')\<rparr>)"

definition out_permission_denied :: "codec \<Rightarrow> string \<Rightarrow> outgoing_message \<Rightarrow> outgoing_message" where
  "out_permission_denied C reason m =
     (let m = write_opcode C Auth m;
          m = m\<lparr>encoder := encoder m @ enc_var C (auth_code PermissionDenied)\<rparr>
      in m\<lparr>encoder := encoder m @ enc_string C reason\<rparr>)"

definition out_token_sync_request :: "codec \<Rightarrow> outgoing_message \<Rightarrow> outgoing_message" where
  "out_token_sync_request C m =
     (let m = write_opcode C Auth m
      in m\<lparr>encoder := encoder m @ enc_var C (auth_code Token)\<rparr>)"

definition out_stateless :: "codec \<Rightarrow> string \<Rightarrow> outgoing_message \<Rightarrow> outgoing_message" where
  "out_stateless C payload m =
     (let m = write_opcode C Stateless m in m\<lparr>encoder := encoder m @ enc_string C payload\<rparr>)"

definition out_broadcast_stateless :: "codec \<Rightarrow> string \<Rightarrow> outgoing_message \<Rightarrow> outgoing_message" where
  "out_broadcast_stateless C payload m =
     (let m = write_opcode C BroadcastStateless m
      in m\<lparr>encoder := encoder m @ enc_string C payload\<rparr>)"

definition out_sync_status :: "codec \<Rightarrow> bool \<Rightarrow> outgoing_message \<Rightarrow> outgoing_message" where
  "out_sync_status C update_saved m =
     (let m = write_opcode C SyncStatus m
      in m\<lparr>encoder := encoder m @ enc_var C (if update_saved then 1 else 0)\<rparr>)"

definition out_close_message :: "codec \<Rightarrow> string \<Rightarrow> outgoing_message \<Rightarrow> outgoing_message" where
  "out_close_message C reason m =
     (let m = write_opcode C CloseMsg m in m\<lparr>encoder := encoder m @ enc_string C reason\<rparr>)"

definition into_bytes :: "outgoing_message \<Rightarrow> bytes" where
  "into_bytes m = encoder m"

text \<open>What it means that a frame reads as a given address, opcode and payload.\<close>

definition frame_reads_as :: "codec \<Rightarrow> outgoing_message \<Rightarrow> string \<Rightarrow> message_type \<Rightarrow> bytes \<Rightarrow> bool" where
  "frame_reads_as C m a ty p \<longleftrightarrow>
     parse C (into_bytes m) = Inr \<lparr>routing_key = a, message_type = ty, decoder = p\<rparr> \<and>
     2 \<le> length (into_bytes m)"

lemmas out_defs =
  out_new_def write_opcode_def out_sync_def out_sync_reply_def write_sync_payload_def
  out_awareness_update_def out_query_awareness_def out_authenticated_def
  out_permission_denied_def out_token_sync_request_def out_stateless_def
  out_broadcast_stateless_def out_sync_status_def out_close_message_def into_bytes_def Let_def

lemma from_u64_type_code [simp]: "from_u64 (type_code ty) = Some ty"
  by (cases ty) (simp_all add: from_u64_def)

section \<open>The laws of the encoding\<close>

text \<open>
  Reading after writing. The length prefix of a string or a buffer is read as a 32-bit integer,
  so the laws are stated for data shorter than 4 GiB.
\<close>

abbreviation max_len :: nat where
  "max_len \<equiv> 2 ^ 32"

locale wire_codec =
  fixes C :: codec
  assumes dec_string_enc: "length s < max_len \<Longrightarrow> dec_string C (enc_string C s @ r) = Inr (s, r)"
    and dec_var_enc: "dec_var C (enc_var C n @ r) = Inr (n, r)"
    and dec_buf_enc: "length b < max_len \<Longrightarrow> dec_buf C (enc_buf C b @ r) = Inr (b, r)"
begin

lemma dec_end [simp]:
  shows "length s < max_len \<Longrightarrow> dec_string C (enc_string C s) = Inr (s, [])"
    and "dec_var C (enc_var C n) = Inr (n, [])"
    and "length b < max_len \<Longrightarrow> dec_buf C (enc_buf C b) = Inr (b, [])"
  using dec_string_enc [of s "[]"] dec_var_enc [of n "[]"] dec_buf_enc [of b "[]"] by auto

lemma enc_var_nonempty: "enc_var C n \<noteq> []"
proof
  assume "enc_var C n = []"
  then have "dec_var C r = Inr (n, r)" for r
    using dec_var_enc [of n r] by simp
  then have "Inr (n + 1, []) = (Inr (n, enc_var C (n + 1)) :: read_error + u64 \<times> bytes)"
    using dec_var_enc [of "n + 1" "[]"] by simp
  then show False by simp
qed

lemma enc_string_nonempty: "length s < max_len \<Longrightarrow> enc_string C s \<noteq> []"
proof
  assume s: "length s < max_len" and "enc_string C s = []"
  then have any: "dec_string C r = Inr (s, r)" for r
    using dec_string_enc [of s r] by simp
  define t where "t = (if s = [] then ''x'' else [])"
  have "length t < max_len" "t \<noteq> s" by (auto simp: t_def)
  then show False
    using dec_string_enc [of t "[]"] any [of "enc_string C t"] by simp
qed

lemma parse_frame:
  assumes "length a < max_len" and "from_u64 v = Some ty"
  shows "parse C (enc_string C a @ enc_var C v @ p) =
    Inr \<lparr>routing_key = a, message_type = ty, decoder = p\<rparr>"
  using assms by (simp add: parse_def dec_string_enc dec_var_enc)

lemma frame_length:
  assumes "length a < max_len"
  shows "2 \<le> length (enc_string C a @ enc_var C v @ p)"
  using enc_string_nonempty [OF assms] enc_var_nonempty [of v]
  by (cases "enc_string C a"; cases "enc_var C v") auto

lemma reads_asI:
  assumes "length a < max_len" and "encoder m = enc_string C a @ enc_var C (type_code ty) @ p"
  shows "frame_reads_as C m a ty p"
  using parse_frame [OF assms(1) from_u64_type_code] frame_length [OF assms(1)]
  by (simp add: frame_reads_as_def into_bytes_def assms(2))

end

section \<open>Opcodes, keys and frames\<close>

lemma from_u64_SomeD: "from_u64 v = Some ty \<Longrightarrow> v = type_code ty"
  by (auto simp: from_u64_def split: if_splits)

lemma type_code_le: "type_code ty \<le> 10"
  by (cases ty) (simp_all add: word_le_nat_alt)

lemma from_u64_None_iff: "from_u64 v = None \<longleftrightarrow> 10 < v"
proof
  assume none: "from_u64 v = None"
  show "10 < v"
  proof (rule ccontr)
    assume "\<not> 10 < v"
    then have "unat v \<le> 10" by (simp add: word_less_nat_alt)
    then have "v \<in> word_of_nat ` {..10}"
      by (intro image_eqI [where x = "unat v"]) simp_all
    also have "{..10} = {0, 1, 2, 3, 4, 5, 6, 7, 8, 9, 10 :: nat}" by (auto, presburger)
    finally show False using none by (auto simp: from_u64_def split: if_splits)
  qed
next
  assume "10 < v"
  then show "from_u64 v = None"
    using from_u64_SomeD type_code_le by (cases "from_u64 v") (auto simp: not_less [symmetric])
qed

instantiation message_type :: linorder
begin

definition less_eq_message_type :: "message_type \<Rightarrow> message_type \<Rightarrow> bool" where
  "less_eq_message_type a b \<longleftrightarrow> type_code a \<le> type_code b"

definition less_message_type :: "message_type \<Rightarrow> message_type \<Rightarrow> bool" where
  "less_message_type a b \<longleftrightarrow> type_code a < type_code b"

instance
proof
  fix a b :: message_type
  show "a \<le> b \<Longrightarrow> b \<le> a \<Longrightarrow> a = b"
    by (metis from_u64_type_code less_eq_message_type_def option.inject order_antisym)
qed (auto simp: less_eq_message_type_def less_message_type_def)

end

lemma fst_parse_routing_key: "fst (parse_routing_key key) = takeWhile (\<lambda>c. c \<noteq> nul) key"
proof (induction key)
  case Nil
  then show ?case by (simp add: parse_routing_key_def)
next
  case (Cons c key)
  then show ?case
    by (auto simp: parse_routing_key_def split: option.splits)
qed

lemma join_routing_key: "message_address (fst (parse_routing_key key)) (snd (parse_routing_key key)) = key"
  using id_take_nth_drop
  by (fastforce simp: parse_routing_key_def message_address_def
      split: option.split dest: find_char_SomeD)

lemma split_message_address: "nul \<notin> set d \<Longrightarrow> parse_routing_key (message_address d sid) = (d, sid)"
  by (cases sid) (simp_all add: parse_routing_key_def message_address_def)

section \<open>Properties of the protocol\<close>

text \<open>The opcode table is a bijection between the eleven message types and the integers 0 to
  10: every type is read back from its code and from no other, and every code above 10 is refused.\<close>

theorem from_u64_table:
  "(from_u64 v = Some ty \<longleftrightarrow> v = type_code ty) \<and> (from_u64 v = None \<longleftrightarrow> 10 < v)"
  using from_u64_SomeD by (auto simp: from_u64_None_iff)

text \<open>A routing key is split at its first NUL and nowhere else. Splitting a key and joining the
  parts gives back the key, and joining a document name that holds no NUL with a session id and
  splitting the result gives back the name and the session id.\<close>

theorem routing_key_roundtrip:
  "message_address (fst (parse_routing_key key)) (snd (parse_routing_key key)) = key \<and>
   (nul \<notin> set d \<longrightarrow> parse_routing_key (message_address d sid) = (d, sid))"
  by (simp add: join_routing_key split_message_address)

theorem routing_key_roundtrip_witness:
  "parse_routing_key (message_address ''doc'' (Some ''sid'')) = (''doc'', Some ''sid'')"
proof -
  have "nul \<notin> set ''doc''" by (simp add: nul_def)
  then show ?thesis using routing_key_roundtrip [of "[]" "''doc''" "Some ''sid''"] by blast
qed

text \<open>C20: Every frame the server builds, of any kind, parses back to the address it was built for
  and to its opcode, with the decoder placed at exactly its payload; and it is at least two bytes
  long, so the connection layer never takes it for a one-byte ping.\<close>

theorem outgoing_frames_parse:
  assumes "wire_codec C" and "length a < max_len"
  shows "frame_reads_as C (write_sync_payload p (out_sync C (out_new C a))) a Sync p \<and>
    frame_reads_as C (write_sync_payload p (out_sync_reply C (out_new C a))) a SyncReply p \<and>
    frame_reads_as C (out_awareness_update C u (out_new C a)) a Awareness (enc_buf C u) \<and>
    frame_reads_as C (out_query_awareness C (out_new C a)) a QueryAwareness [] \<and>
    frame_reads_as C (out_authenticated C ro (out_new C a)) a Auth
      (enc_var C (auth_code Authenticated) @
       enc_string C (if ro then ''readonly'' else ''read-write'')) \<and>
    frame_reads_as C (out_permission_denied C why (out_new C a)) a Auth
      (enc_var C (auth_code PermissionDenied) @ enc_string C why) \<and>
    frame_reads_as C (out_token_sync_request C (out_new C a)) a Auth (enc_var C (auth_code Token)) \<and>
    frame_reads_as C (out_stateless C t (out_new C a)) a Stateless (enc_string C t) \<and>
    frame_reads_as C (out_broadcast_stateless C t (out_new C a)) a BroadcastStateless
      (enc_string C t) \<and>
    frame_reads_as C (out_sync_status C saved (out_new C a)) a SyncStatus
      (enc_var C (if saved then 1 else 0)) \<and>
    frame_reads_as C (out_close_message C why (out_new C a)) a CloseMsg (enc_string C why)"
  by (intro conjI wire_codec.reads_asI [OF assms]) (simp_all add: out_defs)

end
