(* ===== verification/Yrs.thy ===== *)
theory Yrs
  imports Wire
begin

text \<open>
  What the server uses of the \<open>yrs\<close> crate, as parameters: documents, state vectors, updates, the
  sync sub-protocol's messages and the awareness states. The record \<open>yrs\<close> holds one field per
  library function the source calls; the locale \<open>yjs\<close> states what the code relies on: updates only
  add to a document, in the same way to every replica, and one that fails leaves it alone, a diff against the state vector of a base brings every replica that contains
  the base up to date, and messages survive their encoding.
\<close>

datatype 'v sync_message = SyncStep1 'v | SyncStep2 bytes | Update bytes

text \<open>
  Types: \<open>'d\<close> documents, \<open>'v\<close> state vectors, \<open>'u\<close> decoded updates, \<open>'a\<close> awareness states, \<open>'p\<close>
  awareness updates. \<open>apply_update\<close> returns whether it succeeded and the document it leaves;
  \<open>encode_update_v1 u d\<close> is the encoding of the transaction that applied \<open>u\<close> to \<open>d\<close>.
\<close>

record ('d, 'v, 'u, 'a, 'p) yrs =
  wire :: codec
  new_doc :: "bool \<Rightarrow> 'd"
  state_vector :: "'d \<Rightarrow> 'v"
  default_sv :: 'v
  encode_diff_v1 :: "'d \<Rightarrow> 'v \<Rightarrow> bytes"
  encode_state_as_update_v1 :: "'d \<Rightarrow> 'v \<Rightarrow> bytes"
  decode_v1 :: "bytes \<Rightarrow> 'u option"
  apply_update :: "'u \<Rightarrow> 'd \<Rightarrow> bool \<times> 'd"
  encode_update_v1 :: "'u \<Rightarrow> 'd \<Rightarrow> bytes"
  sync_encode :: "'v sync_message \<Rightarrow> bytes"
  sync_decode :: "bytes \<Rightarrow> 'v sync_message option"
  aw_new :: 'a
  aw_states :: "'a \<Rightarrow> u64 list"
  aw_update :: "'a \<Rightarrow> 'p option"
  aw_update_with_clients :: "u64 list \<Rightarrow> 'a \<Rightarrow> 'p option"
  aw_apply :: "'p \<Rightarrow> bytes \<Rightarrow> 'a \<Rightarrow> bool \<times> 'a"
  aw_remove_state :: "u64 \<Rightarrow> 'a \<Rightarrow> 'a"
  aw_encode :: "'p \<Rightarrow> bytes"
  aw_decode :: "bytes \<Rightarrow> 'p option"
  aw_clients :: "'p \<Rightarrow> u64 list"

fun sync_fits :: "'v sync_message \<Rightarrow> bool" where
  "sync_fits (SyncStep1 v) \<longleftrightarrow> True"
| "sync_fits (SyncStep2 b) \<longleftrightarrow> length b < max_len"
| "sync_fits (Update b) \<longleftrightarrow> length b < max_len"

section \<open>The laws the server relies on\<close>

text \<open>\<open>leq d d'\<close>: the document \<open>d'\<close> contains every operation of \<open>d\<close>.\<close>

locale yjs =
  fixes Y :: "('d, 'v, 'u, 'a, 'p) yrs"
    and leq :: "'d \<Rightarrow> 'd \<Rightarrow> bool"
  assumes wire_laws: "wire_codec (wire Y)"
    and sync_roundtrip: "sync_fits m \<Longrightarrow> sync_decode Y (sync_encode Y m) = Some m"
    and leq_refl: "leq d d"
    and leq_trans: "leq a b \<Longrightarrow> leq b c \<Longrightarrow> leq a c"
    and apply_adds: "leq d (snd (apply_update Y u d))"
    and apply_mono: "leq d d' \<Longrightarrow> leq (snd (apply_update Y u d)) (snd (apply_update Y u d'))"
    and apply_error: "\<not> fst (apply_update Y u d) \<Longrightarrow> snd (apply_update Y u d) = d"
    and empty_transaction: "encode_update_v1 Y u d = [] \<Longrightarrow> snd (apply_update Y u d) = d"
    and diff_applies: "leq b p \<Longrightarrow>
      \<exists>u. decode_v1 Y (encode_diff_v1 Y d (state_vector Y b)) = Some u \<and>
          fst (apply_update Y u p) \<and> leq d (snd (apply_update Y u p))"
    and empty_diff: "encode_diff_v1 Y d (state_vector Y b) = [] \<Longrightarrow> leq d b"
    and state_loads: "\<exists>u. decode_v1 Y (encode_state_as_update_v1 Y d (default_sv Y)) = Some u \<and>
      fst (apply_update Y u (new_doc Y skip_gc)) \<and>
      leq d (snd (apply_update Y u (new_doc Y skip_gc))) \<and>
      leq (snd (apply_update Y u (new_doc Y skip_gc))) d"
    and new_doc_least: "leq (new_doc Y skip_gc) d"

sublocale yjs \<subseteq> wire_codec "wire Y"
  by (rule wire_laws)

end
