(* ===== verification/Basics.thy ===== *)
theory Basics
  imports Hp_Prelude
begin

text \<open>
  The small data modules every other component uses: close events and hook errors (\<open>error.rs\<close>),
  the server configuration (\<open>config.rs\<close>), the hook context and the request metadata
  (\<open>context.rs\<close>), and the origin of a mutation with its byte encoding (\<open>origin.rs\<close>).
\<close>

section \<open>Close events and hook errors (error.rs)\<close>

record close_event =
  code :: u16
  reason :: string

definition close_event_new :: "u16 \<Rightarrow> string \<Rightarrow> close_event" where
  "close_event_new c r = \<lparr>code = c, reason = r\<rparr>"

definition MESSAGE_TOO_BIG :: close_event where
  "MESSAGE_TOO_BIG = close_event_new 1009 ''Message Too Big''"

definition RESET_CONNECTION :: close_event where
  "RESET_CONNECTION = close_event_new 4205 ''Reset Connection''"

definition UNAUTHORIZED :: close_event where
  "UNAUTHORIZED = close_event_new 4401 ''Unauthorized''"

definition FORBIDDEN :: close_event where
  "FORBIDDEN = close_event_new 4403 ''Forbidden''"

definition CONNECTION_TIMEOUT :: close_event where
  "CONNECTION_TIMEOUT = close_event_new 4408 ''Connection Timeout''"

record hook_error =
  message :: string
  close :: "close_event option"

definition hook_error_new :: "string \<Rightarrow> hook_error" where
  "hook_error_new m = \<lparr>message = m, close = None\<rparr>"

definition closing :: "close_event \<Rightarrow> hook_error" where
  "closing e = \<lparr>message = reason e, close = Some e\<rparr>"

definition forbidden :: hook_error where
  "forbidden = closing FORBIDDEN"

definition unauthorized :: hook_error where
  "unauthorized = closing UNAUTHORIZED"

text \<open>\<open>extension::deny\<close>, the helper for extensions.\<close>

definition ext_deny :: "string \<Rightarrow> hook_error" where
  "ext_deny why = \<lparr>message = why, close = Some FORBIDDEN\<rparr>"

type_synonym hook_result = "hook_error + unit"

lemmas close_events =
  MESSAGE_TOO_BIG_def RESET_CONNECTION_def UNAUTHORIZED_def FORBIDDEN_def
  CONNECTION_TIMEOUT_def close_event_new_def

section \<open>Configuration (config.rs)\<close>

text \<open>Durations count milliseconds; a \<open>usize\<close> is a \<^typ>\<open>nat\<close>.\<close>

record configuration =
  cfg_name :: "string option"
  address :: string
  port :: u16
  timeout :: duration
  debounce :: duration
  max_debounce :: duration
  unload_immediately :: bool
  quiet :: bool
  max_unauthenticated_queue_size :: nat
  max_unauthenticated_queue_messages :: nat
  max_pending_documents :: nat
  gc :: bool
  outbound_capacity :: nat
  max_connections :: nat

definition from_secs :: "nat \<Rightarrow> duration" where
  "from_secs n = 1000 * n"

definition default_configuration :: configuration where
  "default_configuration =
     \<lparr>cfg_name = None, address = ''0.0.0.0'', port = 80,
      timeout = from_secs 60, debounce = from_secs 2, max_debounce = from_secs 10,
      unload_immediately = True, quiet = False,
      max_unauthenticated_queue_size = 5 * 1024 * 1024,
      max_unauthenticated_queue_messages = 1000,
      max_pending_documents = 100, gc = True,
      outbound_capacity = 2048, max_connections = 0\<rparr>"

section \<open>Context and request metadata (context.rs)\<close>

text \<open>A context maps names to JSON values; the type \<open>'j\<close> of values and \<open>Value::as_str\<close> are those
  of \<open>serde_json\<close>, hence parameters.\<close>

type_synonym 'j hook_context = "string \<rightharpoonup> 'j"

definition context_new :: "'j hook_context" where
  "context_new = Map.empty"

definition context_set :: "string \<Rightarrow> 'j \<Rightarrow> 'j hook_context \<Rightarrow> 'j hook_context" where
  "context_set k v m = m(k \<mapsto> v)"

definition context_get :: "string \<Rightarrow> 'j hook_context \<Rightarrow> 'j option" where
  "context_get k m = m k"

definition context_get_str :: "('j \<Rightarrow> string option) \<Rightarrow> string \<Rightarrow> 'j hook_context \<Rightarrow> string option" where
  "context_get_str as_str k m = Option.bind (m k) as_str"

record request_meta =
  headers :: "string \<rightharpoonup> string"
  parameters :: "string \<rightharpoonup> string"
  remote_ip :: "string option"

definition default_request_meta :: request_meta where
  "default_request_meta = \<lparr>headers = Map.empty, parameters = Map.empty, remote_ip = None\<rparr>"

text \<open>\<open>str::trim\<close> on header values, which are ASCII: \<open>HeaderValue::to_str\<close> refuses all others.\<close>

definition is_space :: "char \<Rightarrow> bool" where
  "is_space c \<longleftrightarrow> of_char c \<in> {9::nat, 10, 11, 12, 13, 32}"

definition trim :: "string \<Rightarrow> string" where
  "trim s = rev (dropWhile is_space (rev (dropWhile is_space s)))"

text \<open>\<open>s.split(',').next()\<close>: what stands before the first comma.\<close>

definition first_part :: "string \<Rightarrow> string" where
  "first_part s = takeWhile (\<lambda>c. c \<noteq> CHR '','') s"

definition client_ip :: "request_meta \<Rightarrow> string option" where
  "client_ip r =
     (case (case headers r ''x-real-ip'' of
              Some v \<Rightarrow> Some v
            | None \<Rightarrow> headers r ''x-forwarded-for'') of
        Some v \<Rightarrow> Some (trim (first_part v))
      | None \<Rightarrow> remote_ip r)"

section \<open>Origins (origin.rs)\<close>

datatype origin = Connection u64 | Redis | Local

fun origin_encode :: "origin \<Rightarrow> bytes" where
  "origin_encode (Connection cid) = 1 # le_bytes 8 (unat cid)"
| "origin_encode Redis = [2]"
| "origin_encode Local = [3]"

definition origin_decode :: "bytes \<Rightarrow> origin option" where
  "origin_decode bs =
     (case bs of
        [] \<Rightarrow> None
      | b # rest \<Rightarrow>
          if b = 1 \<and> length bs = 9 then Some (Connection (word_of_nat (le_nat (take 8 rest))))
          else if b = 2 then Some Redis
          else if b = 3 then Some Local
          else None)"

definition is_redis :: "origin \<Rightarrow> bool" where
  "is_redis og \<longleftrightarrow> (case og of Redis \<Rightarrow> True | _ \<Rightarrow> False)"

section \<open>Properties\<close>

lemma is_redis_iff [simp]: "is_redis og \<longleftrightarrow> og = Redis"
  by (cases og) (simp_all add: is_redis_def)

lemma word_of_le_bytes: "word_of_nat (le_nat (le_bytes 8 (unat w))) = (w :: u64)"
  using unsigned_less [of w, where ?'a = nat] by (simp add: le_nat_le_bytes)

lemma origin_decode_encode: "origin_decode (origin_encode og) = Some og"
  by (cases og) (simp_all add: origin_decode_def word_of_le_bytes)

lemma le_bytes_of_word:
  assumes "length bs = 8"
  shows "le_bytes 8 (unat (word_of_nat (le_nat bs) :: u64)) = bs"
proof -
  have "unat (word_of_nat (le_nat bs) :: u64) = le_nat bs"
    using le_nat_bound [of bs] assms by (simp add: unat_of_nat)
  then show ?thesis using le_bytes_le_nat [of bs] assms by simp
qed

text \<open>An origin survives the trip through its byte form: decoding what was encoded gives the
  origin back, for every 64-bit connection id. Conversely a byte string that decodes to a
  connection is the encoding of that connection, so no two byte strings name the same one.\<close>

theorem origin_roundtrip:
  "origin_decode (origin_encode og) = Some og \<and>
   (origin_decode bs = Some (Connection cid) \<longrightarrow> origin_encode (Connection cid) = bs)"
proof -
  have "origin_encode (Connection cid) = bs" if "origin_decode bs = Some (Connection cid)"
    using that le_bytes_of_word [of "tl bs"]
    by (auto simp: origin_decode_def split: list.splits if_splits)
  then show ?thesis by (simp add: origin_decode_encode)
qed

theorem origin_roundtrip_witness:
  "origin_encode (Connection 258) = [1, 2, 1, 0, 0, 0, 0, 0, 0]"
proof -
  have "origin_decode [1, 2, 1, 0, 0, 0, 0, 0, 0] = Some (Connection 258)"
    by (simp add: origin_decode_def)
  then show ?thesis using origin_roundtrip by blast
qed

lemma trim_no_outer_space:
  assumes "trim s \<noteq> []"
  shows "\<not> is_space (hd (trim s)) \<and> \<not> is_space (last (trim s))"
proof -
  define t where "t = dropWhile is_space s"
  have t: "trim s = rev (dropWhile is_space (rev t))" by (simp add: trim_def t_def)
  then have ne: "dropWhile is_space (rev t) \<noteq> []" using assms by simp
  have "last (trim s) = hd (dropWhile is_space (rev t))"
    using ne by (simp add: t last_rev)
  moreover have "\<not> is_space (hd (dropWhile is_space (rev t)))"
    by (rule hd_dropWhile [OF ne])
  moreover have "hd (trim s) = hd t"
  proof -
    obtain p where "rev t = p @ dropWhile is_space (rev t)"
      by (metis takeWhile_dropWhile_id)
    then have "t = trim s @ rev p" by (metis rev_append rev_rev_ident t)
    then show ?thesis using assms by (metis hd_append2)
  qed
  moreover have "\<not> is_space (hd t)"
    using ne by (metis dropWhile.simps(1) hd_dropWhile rev.simps(1) t_def)
  ultimately show ?thesis by simp
qed

lemma set_trim: "set (trim s) \<subseteq> set s"
proof
  fix x
  assume "x \<in> set (trim s)"
  then have "x \<in> set (dropWhile is_space (rev (dropWhile is_space s)))" by (simp add: trim_def)
  then have "x \<in> set (dropWhile is_space s)" using set_dropWhileD by fastforce
  then show "x \<in> set s" by (rule set_dropWhileD)
qed

text \<open>The client address prefers \<open>x-real-ip\<close> over \<open>x-forwarded-for\<close> over the peer address;
  an address taken from a header is its first comma-separated entry: it holds no comma and neither
  begins nor ends with white space.\<close>

theorem client_ip_resolution:
  assumes "client_ip r = Some ip"
  shows "(\<exists>v. (headers r ''x-real-ip'' = Some v \<or>
       headers r ''x-real-ip'' = None \<and> headers r ''x-forwarded-for'' = Some v) \<and>
       ip = trim (first_part v) \<and> CHR '','' \<notin> set ip \<and>
       (ip \<noteq> [] \<longrightarrow> \<not> is_space (hd ip) \<and> \<not> is_space (last ip))) \<or>
     headers r ''x-real-ip'' = None \<and> headers r ''x-forwarded-for'' = None \<and> remote_ip r = Some ip"
proof -
  have "CHR '','' \<notin> set (trim (first_part v))" for v
    using set_trim [of "first_part v"] by (auto simp: first_part_def dest: set_takeWhileD)
  then show ?thesis
    using assms trim_no_outer_space by (fastforce simp: client_ip_def split: option.splits)
qed

theorem client_ip_resolution_witness:
  "client_ip (default_request_meta\<lparr>headers := [''x-forwarded-for'' \<mapsto> '' 10.0.0.7 , 10.0.0.1'']\<rparr>)
     = Some ''10.0.0.7'' \<and> CHR '','' \<notin> set ''10.0.0.7''"
proof -
  have "client_ip (default_request_meta\<lparr>headers := [''x-forwarded-for'' \<mapsto> '' 10.0.0.7 , 10.0.0.1'']\<rparr>)
     = Some ''10.0.0.7''"
    by (simp add: client_ip_def default_request_meta_def trim_def first_part_def is_space_def)
  then show ?thesis using client_ip_resolution by (fastforce simp: default_request_meta_def)
qed

end
