(* ===== verification/Extension.thy ===== *)
theory Extension
  imports Basics "HOL-Library.Multiset"
begin

text \<open>
  The extension interface (\<open>extension.rs\<close>) and how the server runs its hooks. An extension is a
  record of hook functions over a state \<open>'w\<close> that holds everything extensions read and write (their
  own fields, storage, the network). The code runs a hook of all extensions in one of two ways:
  every extension regardless of errors (\<open>run_all\<close>), or in order up to the first error
  (\<open>run_until_err\<close>). \<open>ServerBuilder::build\<close> fixes the order by descending priority.
\<close>

section \<open>Connection state visible to hooks\<close>

record connection_config =
  cc_read_only :: bool
  cc_authenticated :: bool

definition default_connection_config :: connection_config where
  "default_connection_config = \<lparr>cc_read_only = False, cc_authenticated = False\<rparr>"

definition set_read_only :: "bool \<Rightarrow> connection_config \<Rightarrow> connection_config" where
  "set_read_only v c = c\<lparr>cc_read_only := v\<rparr>"

definition set_authenticated :: "bool \<Rightarrow> connection_config \<Rightarrow> connection_config" where
  "set_authenticated v c = c\<lparr>cc_authenticated := v\<rparr>"

text \<open>The two parts of a connection payload that hooks may change: the shared context and the
  connection configuration.\<close>

record 'j conn_cell =
  cell_context :: "'j hook_context"
  cell_config :: connection_config

section \<open>Hook payloads\<close>

record connection_payload =
  cp_document_name :: string
  cp_socket_id :: string
  cp_request :: request_meta
  cp_provider_version :: "string option"

record authenticate_payload =
  ap_token :: string
  ap_document_name :: string
  ap_socket_id :: string
  ap_request :: request_meta

record document_payload =
  dp_document_name :: string
  dp_clients_count :: nat

record change_payload =
  chp_document_name :: string
  chp_update :: bytes
  chp_origin :: origin
  chp_clients_count :: nat

record awareness_payload =
  awp_document_name :: string
  awp_update :: bytes
  awp_added :: "u64 list"
  awp_updated :: "u64 list"
  awp_removed :: "u64 list"
  awp_origin :: origin

record stateless_payload =
  sp_document_name :: string
  sp_socket_id :: string
  sp_payload :: string

section \<open>The hook surface\<close>

text \<open>Priorities are \<open>i32\<close> and only compared, hence integers.\<close>

record ('d, 'j, 'w) extension =
  priority :: int
  ext_name :: string
  on_configure :: "'w \<Rightarrow> hook_result \<times> 'w"
  on_server_ready :: "'w \<Rightarrow> 'w"
  on_listen :: "u16 \<Rightarrow> 'w \<Rightarrow> hook_result \<times> 'w"
  on_connect :: "connection_payload \<Rightarrow> 'j conn_cell \<times> 'w \<Rightarrow> hook_result \<times> 'j conn_cell \<times> 'w"
  on_authenticate :: "authenticate_payload \<Rightarrow> 'j conn_cell \<times> 'w \<Rightarrow> hook_result \<times> 'j conn_cell \<times> 'w"
  on_load_document :: "document_payload \<Rightarrow> 'd \<times> 'w \<Rightarrow> hook_result \<times> 'd \<times> 'w"
  after_load_document :: "document_payload \<Rightarrow> 'd \<times> 'w \<Rightarrow> hook_result \<times> 'd \<times> 'w"
  before_handle_message_hook :: "change_payload \<Rightarrow> 'w \<Rightarrow> hook_result \<times> 'w"
  on_change :: "change_payload \<Rightarrow> 'w \<Rightarrow> hook_result \<times> 'w"
  on_store_document :: "bytes \<Rightarrow> document_payload \<Rightarrow> 'w \<Rightarrow> hook_result \<times> 'w"
  after_store_document :: "document_payload \<Rightarrow> 'w \<Rightarrow> hook_result \<times> 'w"
  on_awareness_update :: "awareness_payload \<Rightarrow> 'w \<Rightarrow> hook_result \<times> 'w"
  before_broadcast_stateless :: "string \<Rightarrow> string \<Rightarrow> 'w \<Rightarrow> hook_result \<times> 'w"
  on_stateless :: "stateless_payload \<Rightarrow> 'w \<Rightarrow> hook_result \<times> 'w"
  on_disconnect :: "connection_payload \<Rightarrow> 'j conn_cell \<times> 'w \<Rightarrow> hook_result \<times> 'j conn_cell \<times> 'w"
  before_unload_document :: "document_payload \<Rightarrow> 'w \<Rightarrow> hook_result \<times> 'w"
  after_unload_document :: "string \<Rightarrow> 'w \<Rightarrow> hook_result \<times> 'w"
  on_destroy :: "'w \<Rightarrow> hook_result \<times> 'w"

text \<open>The trait's default bodies: every hook accepts and does nothing.\<close>

definition hook_ok :: "'s \<Rightarrow> hook_result \<times> 's" where
  "hook_ok s = (Inr (), s)"

definition default_extension :: "('d, 'j, 'w) extension" where
  "default_extension =
     \<lparr>priority = 100, ext_name = ''extension'', on_configure = hook_ok,
      on_server_ready = id, on_listen = (\<lambda>_. hook_ok), on_connect = (\<lambda>_. hook_ok),
      on_authenticate = (\<lambda>_. hook_ok), on_load_document = (\<lambda>_. hook_ok),
      after_load_document = (\<lambda>_. hook_ok), before_handle_message_hook = (\<lambda>_. hook_ok),
      on_change = (\<lambda>_. hook_ok), on_store_document = (\<lambda>_ _. hook_ok),
      after_store_document = (\<lambda>_. hook_ok), on_awareness_update = (\<lambda>_. hook_ok),
      before_broadcast_stateless = (\<lambda>_ _. hook_ok), on_stateless = (\<lambda>_. hook_ok),
      on_disconnect = (\<lambda>_. hook_ok), before_unload_document = (\<lambda>_. hook_ok),
      after_unload_document = (\<lambda>_. hook_ok), on_destroy = hook_ok\<rparr>"

section \<open>Running hooks\<close>

text \<open>\<open>for ext in &extensions { if let Err(e) = ext.hook(..).await { warn!(..) } }\<close>\<close>

fun run_all :: "('s \<Rightarrow> hook_result \<times> 's) list \<Rightarrow> 's \<Rightarrow> 's" where
  "run_all [] s = s"
| "run_all (h # hs) s = run_all hs (snd (h s))"

text \<open>The same loop left at the first \<open>Err\<close>, whose value it returns.\<close>

fun run_until_err :: "('s \<Rightarrow> hook_result \<times> 's) list \<Rightarrow> 's \<Rightarrow> hook_result \<times> 's" where
  "run_until_err [] s = (Inr (), s)"
| "run_until_err (h # hs) s =
     (case h s of
        (Inl e, s') \<Rightarrow> (Inl e, s')
      | (Inr _, s') \<Rightarrow> run_until_err hs s')"

section \<open>The server builder\<close>

record ('d, 'j, 'w) server_builder =
  sb_config :: configuration
  sb_extensions :: "('d, 'j, 'w) extension list"

text \<open>The part of \<open>ServerShared\<close> that never changes after \<open>build\<close>.\<close>

record ('d, 'j, 'w) server =
  config :: configuration
  extensions :: "('d, 'j, 'w) extension list"

definition builder_new :: "('d, 'j, 'w) server_builder" where
  "builder_new = \<lparr>sb_config = default_configuration, sb_extensions = []\<rparr>"

definition builder_configuration ::
    "configuration \<Rightarrow> ('d, 'j, 'w) server_builder \<Rightarrow> ('d, 'j, 'w) server_builder" where
  "builder_configuration c b = b\<lparr>sb_config := c\<rparr>"

definition builder_port :: "u16 \<Rightarrow> ('d, 'j, 'w) server_builder \<Rightarrow> ('d, 'j, 'w) server_builder" where
  "builder_port p b = b\<lparr>sb_config := (sb_config b)\<lparr>port := p\<rparr>\<rparr>"

definition builder_address :: "string \<Rightarrow> ('d, 'j, 'w) server_builder \<Rightarrow> ('d, 'j, 'w) server_builder" where
  "builder_address a b = b\<lparr>sb_config := (sb_config b)\<lparr>address := a\<rparr>\<rparr>"

definition builder_extension ::
    "('d, 'j, 'w) extension \<Rightarrow> ('d, 'j, 'w) server_builder \<Rightarrow> ('d, 'j, 'w) server_builder" where
  "builder_extension e b = b\<lparr>sb_extensions := sb_extensions b @ [e]\<rparr>"

text \<open>\<open>sort_by\<close> with the arguments swapped: a stable sort by descending priority.\<close>

definition build :: "('d, 'j, 'w) server_builder \<Rightarrow> ('d, 'j, 'w) server" where
  "build b = \<lparr>config = sb_config b,
              extensions = sort_key (\<lambda>e. - priority e) (sb_extensions b)\<rparr>"

definition prepare :: "('d, 'j, 'w) server \<Rightarrow> 'w \<Rightarrow> 'w" where
  "prepare S w =
     (let w = run_all (map on_configure (extensions S)) w
      in fold on_server_ready (extensions S) w)"

section \<open>Lemmas on running hooks\<close>

lemma run_all_append [simp]: "run_all (xs @ ys) s = run_all ys (run_all xs s)"
  by (induction xs arbitrary: s) auto

lemma run_until_err_append:
  "run_until_err (xs @ ys) s =
     (case run_until_err xs s of (Inl e, s') \<Rightarrow> (Inl e, s') | (Inr _, s') \<Rightarrow> run_until_err ys s')"
  by (induction xs arbitrary: s) (auto split: prod.splits sum.splits)

text \<open>A relation between states that every hook keeps is kept by either loop.\<close>

lemma run_all_rel:
  assumes "\<And>h s. h \<in> set hs \<Longrightarrow> R s (snd (h s))" and "\<And>s. R s s" and "\<And>a b c. R a b \<Longrightarrow> R b c \<Longrightarrow> R a c"
  shows "R s (run_all hs s)"
  using assms(1)
proof (induction hs arbitrary: s)
  case Nil
  then show ?case by (simp add: assms(2))
next
  case (Cons h hs)
  have "R s (snd (h s))" using Cons.prems by simp
  moreover have "R (snd (h s)) (run_all hs (snd (h s)))" using Cons by simp
  ultimately show ?case using assms(3) by simp
qed

lemma run_until_err_rel:
  assumes "\<And>h s. h \<in> set hs \<Longrightarrow> R s (snd (h s))" and "\<And>s. R s s" and "\<And>a b c. R a b \<Longrightarrow> R b c \<Longrightarrow> R a c"
  shows "R s (snd (run_until_err hs s))"
  using assms(1)
proof (induction hs arbitrary: s)
  case Nil
  then show ?case by (simp add: assms(2))
next
  case (Cons h hs)
  have h: "R s (snd (h s))" using Cons.prems by simp
  moreover have "R (snd (h s)) (snd (run_until_err hs (snd (h s))))" using Cons by simp
  ultimately have "R s (snd (run_until_err hs (snd (h s))))" using assms(3) by blast
  with h show ?case by (auto split: prod.splits sum.splits)
qed

lemma run_all_unchanged: "(\<And>h s. h \<in> set hs \<Longrightarrow> f (snd (h s)) = f s) \<Longrightarrow> f (run_all hs s) = f s"
  using run_all_rel [where R = "\<lambda>a b. f b = f a"] by metis

lemma run_until_err_unchanged:
  "(\<And>h s. h \<in> set hs \<Longrightarrow> f (snd (h s)) = f s) \<Longrightarrow> f (snd (run_until_err hs s)) = f s"
  using run_until_err_rel [where R = "\<lambda>a b. f b = f a"] by metis

section \<open>Properties of the builder\<close>

text \<open>The extensions run in descending priority order; building keeps exactly the registered
  extensions, and those of equal priority stay in the order of registration.\<close>

theorem build_extensions_order:
  "sorted_wrt (\<lambda>a b. priority b \<le> priority a) (extensions (build b)) \<and>
   mset (extensions (build b)) = mset (sb_extensions b) \<and>
   filter (\<lambda>e. priority e = p) (extensions (build b)) =
     filter (\<lambda>e. priority e = p) (sb_extensions b)"
proof -
  let ?es = "sort_key (\<lambda>e. - priority e) (sb_extensions b)"
  have "sorted (map (\<lambda>e. - priority e) ?es)" by simp
  then have "sorted_wrt (\<lambda>a b. priority b \<le> priority a) ?es"
    by (simp add: sorted_map)
  moreover have "filter (\<lambda>e. - priority e = - p) ?es = filter (\<lambda>e. - priority e = - p) (sb_extensions b)"
    by (rule sort_key_stable)
  ultimately show ?thesis by (simp add: build_def)
qed

end
