(* ===== verification/Document.thy ===== *)
theory Document
  imports Yrs Extension
begin

text \<open>
  The per-document actor (\<open>document.rs\<close>): its state, every command handler, the coalesced
  broadcast, the debounced store, the unload decision and the event loop. The actor's struct and the
  part of the world it touches form one record, so that a handler is a function from state to state:
  the outbound channels of the connected sockets (shared between the handles that name them), the
  hook state of the extensions, the registry of resident documents, the store tasks it spawned, and
  the clock.
\<close>

section \<open>Outbound channels\<close>

datatype out_msg = Frame bytes | Close close_event

text \<open>A bounded \<open>tokio::sync::mpsc\<close> channel: its capacity, what is queued, and whether the
  receiving task is gone.\<close>

record chan =
  cap :: nat
  queue :: "out_msg list"
  chan_closed :: bool

datatype send_result = SendOk | SendFull | SendClosed

definition try_send :: "out_msg \<Rightarrow> chan \<Rightarrow> send_result \<times> chan" where
  "try_send m c =
     (if chan_closed c then (SendClosed, c)
      else if cap c \<le> length (queue c) then (SendFull, c)
      else (SendOk, c\<lparr>queue := queue c @ [m]\<rparr>))"

type_synonym chans = "nat \<Rightarrow> chan"

definition chan_send :: "nat \<Rightarrow> out_msg \<Rightarrow> chans \<Rightarrow> send_result \<times> chans" where
  "chan_send ch m cs = (case try_send m (cs ch) of (r, c) \<Rightarrow> (r, cs(ch := c)))"

section \<open>Connections\<close>

record 'j conn_handle =
  conn_id :: u64
  outbound :: nat
  conn_address :: string
  conn_read_only :: bool
  conn_socket_id :: string
  conn_session_id :: "string option"
  conn_cell :: "'j conn_cell"
  conn_request :: request_meta
  conn_provider_version :: "string option"
  client_ids :: "u64 list"

definition send_frame :: "'j conn_handle \<Rightarrow> bytes \<Rightarrow> chans \<Rightarrow> bool \<times> chans" where
  "send_frame conn frame cs =
     (case chan_send (outbound conn) (Frame frame) cs of (r, cs') \<Rightarrow> (r \<noteq> SendFull, cs'))"

definition send_close :: "'j conn_handle \<Rightarrow> close_event \<Rightarrow> chans \<Rightarrow> chans" where
  "send_close conn event cs = snd (chan_send (outbound conn) (Close event) cs)"

section \<open>Commands and actor state\<close>

text \<open>An acknowledgement sender is named by a number; \<open>reply\<close> tells whether a reply sender is
  present.\<close>

datatype 'j doc_command =
    AddConnection "'j conn_handle" nat
  | ClientFrame u64 bytes
  | RemoveConnection u64
  | ExternalFrame bytes bool
  | DirectApply bytes nat

record ('d, 'v, 'a, 'j, 'w) document =
  doc_name :: string
  ydoc :: 'd
  awareness :: 'a
  connections :: "(u64 \<times> 'j conn_handle) list"
  rx :: "'j doc_command list"
  dirty :: bool
  first_dirty_at :: "instant option"
  last_change_at :: "instant option"
  last_origin :: origin
  storing :: bool
  store_results :: "bool list"
  broadcast_base :: "'v option"
  broadcast_pending :: bool
  \<comment> \<open>the world around the actor\<close>
  clock :: instant
  chans :: chans
  world :: 'w
  registry :: "string \<rightharpoonup> nat"
  store_tasks :: "(bytes \<times> document_payload) list"
  acks :: "nat list"
  replies :: "bytes list"

definition MAX_COALESCE_BATCH :: nat where
  "MAX_COALESCE_BATCH = 512"

definition encode_sync :: "('d, 'v, 'u, 'a, 'p) yrs \<Rightarrow> 'v sync_message \<Rightarrow> bytes" where
  "encode_sync Y msg = sync_encode Y msg"

section \<open>Loading\<close>

text \<open>The state a new actor starts in: the load hooks of all extensions run on the empty document,
  then the after-load hooks.\<close>

definition spawn ::
    "('d, 'v, 'u, 'a, 'p) yrs \<Rightarrow> ('d, 'j, 'w) server \<Rightarrow> string \<Rightarrow> chans \<Rightarrow> instant \<Rightarrow>
       (string \<rightharpoonup> nat) \<Rightarrow> 'w \<Rightarrow> ('d, 'v, 'a, 'j, 'w) document" where
  "spawn Y S nm cs now reg w =
     (let doc = new_doc Y (\<not> gc (config S));
          payload = \<lparr>dp_document_name = nm, dp_clients_count = 0\<rparr>;
          (doc, w) = run_all (map (\<lambda>e. on_load_document e payload) (extensions S)) (doc, w);
          (doc, w) = run_all (map (\<lambda>e. after_load_document e payload) (extensions S)) (doc, w)
      in \<lparr>doc_name = nm, ydoc = doc, awareness = aw_new Y, connections = [], rx = [],
          dirty = False, first_dirty_at = None, last_change_at = None, last_origin = Local,
          storing = False, store_results = [], broadcast_base = None, broadcast_pending = False,
          clock = now, chans = cs, world = w, registry = reg, store_tasks = [], acks = [],
          replies = []\<rparr>)"

section \<open>Broadcasting\<close>

fun evict_lagging ::
    "('d, 'v, 'u, 'a, 'p) yrs \<Rightarrow> u64 list \<Rightarrow> ('d, 'v, 'a, 'j, 'w) document \<Rightarrow>
       ('d, 'v, 'a, 'j, 'w) document" where
  "evict_lagging Y [] s = s"
| "evict_lagging Y (cid # ids) s =
     evict_lagging Y ids
       (case map_of (connections s) cid of
          None \<Rightarrow> s
        | Some conn \<Rightarrow>
            s\<lparr>connections := AList.delete cid (connections s),
              awareness := fold (aw_remove_state Y) (client_ids conn) (awareness s),
              chans := send_close conn RESET_CONNECTION (chans s)\<rparr>)"

text \<open>The loop over the connections: one frame each, and the ids of those whose queue was full.\<close>

fun broadcast_loop ::
    "(string \<Rightarrow> bytes) \<Rightarrow> string \<Rightarrow> bytes \<Rightarrow> 'j conn_handle list \<Rightarrow> chans \<Rightarrow> u64 list \<times> chans" where
  "broadcast_loop mk_frame default_addr default_frame [] cs = ([], cs)"
| "broadcast_loop mk_frame default_addr default_frame (conn # conns) cs =
     (let frame = (if conn_address conn = default_addr then default_frame
                   else mk_frame (conn_address conn));
          (ok, cs) = send_frame conn frame cs;
          (lagging, cs) = broadcast_loop mk_frame default_addr default_frame conns cs
      in (if ok then lagging else conn_id conn # lagging, cs))"

definition broadcast_with ::
    "('d, 'v, 'u, 'a, 'p) yrs \<Rightarrow> (string \<Rightarrow> bytes) \<Rightarrow> ('d, 'v, 'a, 'j, 'w) document \<Rightarrow>
       ('d, 'v, 'a, 'j, 'w) document" where
  "broadcast_with Y mk_frame s =
     (let default_addr = doc_name s;
          default_frame = mk_frame default_addr;
          (lagging, cs) = broadcast_loop mk_frame default_addr default_frame (map snd (connections s)) (chans s)
      in evict_lagging Y lagging (s\<lparr>chans := cs\<rparr>))"

definition broadcast_awareness ::
    "('d, 'v, 'u, 'a, 'p) yrs \<Rightarrow> bytes \<Rightarrow> ('d, 'v, 'a, 'j, 'w) document \<Rightarrow>
       ('d, 'v, 'a, 'j, 'w) document" where
  "broadcast_awareness Y update s =
     broadcast_with Y (\<lambda>addr. into_bytes (out_awareness_update (wire Y) update (out_new (wire Y) addr))) s"

definition broadcast_stateless ::
    "('d, 'v, 'u, 'a, 'p) yrs \<Rightarrow> string \<Rightarrow> ('d, 'v, 'a, 'j, 'w) document \<Rightarrow>
       ('d, 'v, 'a, 'j, 'w) document" where
  "broadcast_stateless Y payload s =
     broadcast_with Y (\<lambda>addr. into_bytes (out_stateless (wire Y) payload (out_new (wire Y) addr))) s"

section \<open>Connecting and disconnecting\<close>

definition awareness_has_states ::
    "('d, 'v, 'u, 'a, 'p) yrs \<Rightarrow> ('d, 'v, 'a, 'j, 'w) document \<Rightarrow> bool" where
  "awareness_has_states Y s \<longleftrightarrow> aw_states Y (awareness s) \<noteq> []"

definition add_connection ::
    "('d, 'v, 'u, 'a, 'p) yrs \<Rightarrow> 'j conn_handle \<Rightarrow> ('d, 'v, 'a, 'j, 'w) document \<Rightarrow>
       ('d, 'v, 'a, 'j, 'w) document" where
  "add_connection Y handle s =
     (let s = (if awareness_has_states Y s then
                 (case aw_update Y (awareness s) of
                    Some update \<Rightarrow>
                      let frame = into_bytes (out_awareness_update (wire Y) (aw_encode Y update)
                                    (out_new (wire Y) (conn_address handle)))
                      in s\<lparr>chans := snd (send_frame handle frame (chans s))\<rparr>
                  | None \<Rightarrow> s)
               else s)
      in s\<lparr>connections := AList.update (conn_id handle) handle (connections s)\<rparr>)"

definition disconnect_payload :: "('d, 'v, 'a, 'j, 'w) document \<Rightarrow> 'j conn_handle \<Rightarrow> connection_payload" where
  "disconnect_payload s handle =
     \<lparr>cp_document_name = doc_name s, cp_socket_id = conn_socket_id handle,
      cp_request = conn_request handle, cp_provider_version = conn_provider_version handle\<rparr>"

definition remove_connection ::
    "('d, 'v, 'u, 'a, 'p) yrs \<Rightarrow> ('d, 'j, 'w) server \<Rightarrow> u64 \<Rightarrow> ('d, 'v, 'a, 'j, 'w) document \<Rightarrow>
       ('d, 'v, 'a, 'j, 'w) document" where
  "remove_connection Y S cid s =
     (case map_of (connections s) cid of
        None \<Rightarrow> s
      | Some handle \<Rightarrow>
          let s = s\<lparr>connections := AList.delete cid (connections s)\<rparr>;
              removed = client_ids handle;
              s = s\<lparr>awareness := fold (aw_remove_state Y) removed (awareness s)\<rparr>;
              s = (if removed \<noteq> [] then
                     (case aw_update_with_clients Y removed (awareness s) of
                        Some update \<Rightarrow> broadcast_awareness Y (aw_encode Y update) s
                      | None \<Rightarrow> s)
                   else s);
              payload = disconnect_payload s handle;
              (cell, w) = run_all (map (\<lambda>e. on_disconnect e payload) (extensions S))
                            (conn_cell handle, world s)
          in s\<lparr>world := w\<rparr>)"

definition close_connection ::
    "('d, 'v, 'u, 'a, 'p) yrs \<Rightarrow> ('d, 'j, 'w) server \<Rightarrow> u64 \<Rightarrow> close_event \<Rightarrow>
       ('d, 'v, 'a, 'j, 'w) document \<Rightarrow> ('d, 'v, 'a, 'j, 'w) document" where
  "close_connection Y S cid event s =
     (let s = (case map_of (connections s) cid of
                 Some conn \<Rightarrow> s\<lparr>chans := send_close conn event (chans s)\<rparr>
               | None \<Rightarrow> s)
      in remove_connection Y S cid s)"

section \<open>Applying updates\<close>

definition mark_dirty :: "origin \<Rightarrow> ('d, 'v, 'a, 'j, 'w) document \<Rightarrow> ('d, 'v, 'a, 'j, 'w) document" where
  "mark_dirty og s =
     s\<lparr>dirty := True,
       first_dirty_at := (case first_dirty_at s of Some t \<Rightarrow> Some t | None \<Rightarrow> Some (clock s)),
       last_change_at := Some (clock s),
       last_origin := og\<rparr>"

definition apply_and_broadcast ::
    "('d, 'v, 'u, 'a, 'p) yrs \<Rightarrow> ('d, 'j, 'w) server \<Rightarrow> bytes \<Rightarrow> origin \<Rightarrow>
       ('d, 'v, 'a, 'j, 'w) document \<Rightarrow> ('d, 'v, 'a, 'j, 'w) document" where
  "apply_and_broadcast Y S update og s =
     (let base_before = (if broadcast_base s = None then Some (state_vector Y (ydoc s)) else None)
      in case decode_v1 Y update of
           None \<Rightarrow> s
         | Some u \<Rightarrow>
             (case apply_update Y u (ydoc s) of
                (False, d) \<Rightarrow> s\<lparr>ydoc := d\<rparr>
              | (True, d) \<Rightarrow>
                  let computed = encode_update_v1 Y u (ydoc s);
                      s = s\<lparr>ydoc := d\<rparr>
                  in if computed = [] then s
                     else
                       let s = (case base_before of
                                  Some base \<Rightarrow> s\<lparr>broadcast_base := Some base\<rparr>
                                | None \<Rightarrow> s);
                           s = s\<lparr>broadcast_pending := True\<rparr>;
                           s = mark_dirty og s;
                           payload = \<lparr>chp_document_name = doc_name s, chp_update = computed,
                                      chp_origin = og, chp_clients_count = length (connections s)\<rparr>
                       in s\<lparr>world := run_all (map (\<lambda>e. on_change e payload) (extensions S)) (world s)\<rparr>))"

definition flush_broadcast ::
    "('d, 'v, 'u, 'a, 'p) yrs \<Rightarrow> ('d, 'v, 'a, 'j, 'w) document \<Rightarrow> ('d, 'v, 'a, 'j, 'w) document" where
  "flush_broadcast Y s =
     (if \<not> broadcast_pending s then s
      else
        let s = s\<lparr>broadcast_pending := False\<rparr>
        in case broadcast_base s of
             None \<Rightarrow> s
           | Some base \<Rightarrow>
               let s = s\<lparr>broadcast_base := None\<rparr>;
                   merged = encode_diff_v1 Y (ydoc s) base
               in if merged = [] then s
                  else
                    let body = encode_sync Y (Update merged)
                    in broadcast_with Y
                         (\<lambda>addr. into_bytes (write_sync_payload body (out_sync (wire Y) (out_new (wire Y) addr)))) s)"

section \<open>Client frames\<close>

definition send_sync_status ::
    "('d, 'v, 'u, 'a, 'p) yrs \<Rightarrow> u64 \<Rightarrow> string \<Rightarrow> bool \<Rightarrow> ('d, 'v, 'a, 'j, 'w) document \<Rightarrow>
       ('d, 'v, 'a, 'j, 'w) document" where
  "send_sync_status Y cid addr saved s =
     (case map_of (connections s) cid of
        Some conn \<Rightarrow>
          s\<lparr>chans := snd (send_frame conn
             (into_bytes (out_sync_status (wire Y) saved (out_new (wire Y) addr))) (chans s))\<rparr>
      | None \<Rightarrow> s)"

definition before_handle_message ::
    "('d, 'j, 'w) server \<Rightarrow> u64 \<Rightarrow> bytes \<Rightarrow> origin \<Rightarrow> ('d, 'v, 'a, 'j, 'w) document \<Rightarrow>
       bool \<times> ('d, 'v, 'a, 'j, 'w) document" where
  "before_handle_message S cid update og s =
     (let payload = \<lparr>chp_document_name = doc_name s, chp_update = update,
                     chp_origin = og, chp_clients_count = length (connections s)\<rparr>
      in case run_until_err (map (\<lambda>e. before_handle_message_hook e payload) (extensions S)) (world s) of
           (Inr _, w) \<Rightarrow> (True, s\<lparr>world := w\<rparr>)
         | (Inl e, w) \<Rightarrow>
             let s = s\<lparr>world := w\<rparr>;
                 event = (case close e of Some ev \<Rightarrow> ev | None \<Rightarrow> RESET_CONNECTION)
             in (False,
                 case map_of (connections s) cid of
                   Some conn \<Rightarrow> s\<lparr>chans := send_close conn event (chans s)\<rparr>
                 | None \<Rightarrow> s))"

text \<open>Indexing the connection map with a missing key panics: the result is then \<open>None\<close>.\<close>

definition handle_sync ::
    "('d, 'v, 'u, 'a, 'p) yrs \<Rightarrow> ('d, 'j, 'w) server \<Rightarrow> u64 \<Rightarrow> string \<Rightarrow> origin \<Rightarrow> incoming_frame \<Rightarrow>
       ('d, 'v, 'a, 'j, 'w) document \<Rightarrow> ('d, 'v, 'a, 'j, 'w) document option" where
  "handle_sync Y S cid addr og frame s =
     (case sync_decode Y (decoder frame) of
        None \<Rightarrow> Some s
      | Some sync \<Rightarrow>
          (case map_of (connections s) cid of
             None \<Rightarrow> None
           | Some conn \<Rightarrow>
               (case sync of
                  SyncStep1 client_sv \<Rightarrow>
                    let step2 = encode_diff_v1 Y (ydoc s) client_sv;
                        server_sv = state_vector Y (ydoc s);
                        s = s\<lparr>chans := snd (send_frame conn
                              (into_bytes (write_sync_payload (encode_sync Y (SyncStep2 step2))
                                 (out_sync (wire Y) (out_new (wire Y) addr)))) (chans s))\<rparr>;
                        s = s\<lparr>chans := snd (send_frame conn
                              (into_bytes (write_sync_payload (encode_sync Y (SyncStep1 server_sv))
                                 (out_sync (wire Y) (out_new (wire Y) addr)))) (chans s))\<rparr>
                    in Some s
                | SyncStep2 update \<Rightarrow> Some
                    (if conn_read_only conn then send_sync_status Y cid addr False s
                     else case before_handle_message S cid update og s of
                            (False, s) \<Rightarrow> s
                          | (True, s) \<Rightarrow>
                              send_sync_status Y cid addr True (apply_and_broadcast Y S update og s))
                | Update update \<Rightarrow> Some
                    (if conn_read_only conn then send_sync_status Y cid addr False s
                     else case before_handle_message S cid update og s of
                            (False, s) \<Rightarrow> s
                          | (True, s) \<Rightarrow>
                              send_sync_status Y cid addr True (apply_and_broadcast Y S update og s)))))"

definition track_clients :: "origin \<Rightarrow> u64 list \<Rightarrow> ('d, 'v, 'a, 'j, 'w) document \<Rightarrow> ('d, 'v, 'a, 'j, 'w) document" where
  "track_clients og changed s =
     (case og of
        Connection cid \<Rightarrow>
          (case map_of (connections s) cid of
             Some conn \<Rightarrow>
               s\<lparr>connections := AList.update cid
                   (conn\<lparr>client_ids := fold List.insert changed (client_ids conn)\<rparr>) (connections s)\<rparr>
           | None \<Rightarrow> s)
      | _ \<Rightarrow> s)"

definition handle_awareness ::
    "('d, 'v, 'u, 'a, 'p) yrs \<Rightarrow> ('d, 'j, 'w) server \<Rightarrow> incoming_frame \<Rightarrow> origin \<Rightarrow>
       ('d, 'v, 'a, 'j, 'w) document \<Rightarrow> ('d, 'v, 'a, 'j, 'w) document" where
  "handle_awareness Y S frame og s =
     (case dec_buf (wire Y) (decoder frame) of
        Inl _ \<Rightarrow> s
      | Inr (buf, _) \<Rightarrow>
          (case aw_decode Y buf of
             None \<Rightarrow> s
           | Some update \<Rightarrow>
               let changed = aw_clients Y update
               in case aw_apply Y update (origin_encode og) (awareness s) of
                    (False, a) \<Rightarrow> s\<lparr>awareness := a\<rparr>
                  | (True, a) \<Rightarrow>
                      let s = track_clients og changed (s\<lparr>awareness := a\<rparr>)
                      in case aw_update_with_clients Y changed (awareness s) of
                           None \<Rightarrow> s
                         | Some out \<Rightarrow>
                             let bs = aw_encode Y out;
                                 s = broadcast_awareness Y bs s;
                                 payload = \<lparr>awp_document_name = doc_name s, awp_update = bs,
                                            awp_added = changed, awp_updated = [], awp_removed = [],
                                            awp_origin = og\<rparr>
                             in s\<lparr>world := run_all (map (\<lambda>e. on_awareness_update e payload) (extensions S)) (world s)\<rparr>))"

definition reply_query_awareness ::
    "('d, 'v, 'u, 'a, 'p) yrs \<Rightarrow> string \<Rightarrow> u64 \<Rightarrow> ('d, 'v, 'a, 'j, 'w) document \<Rightarrow>
       ('d, 'v, 'a, 'j, 'w) document" where
  "reply_query_awareness Y addr cid s =
     (case aw_update Y (awareness s) of
        None \<Rightarrow> s
      | Some update \<Rightarrow>
          (case map_of (connections s) cid of
             None \<Rightarrow> s
           | Some conn \<Rightarrow>
               s\<lparr>chans := snd (send_frame conn
                  (into_bytes (out_awareness_update (wire Y) (aw_encode Y update) (out_new (wire Y) addr)))
                  (chans s))\<rparr>))"

definition handle_stateless ::
    "('d, 'v, 'u, 'a, 'p) yrs \<Rightarrow> ('d, 'j, 'w) server \<Rightarrow> u64 \<Rightarrow> incoming_frame \<Rightarrow>
       ('d, 'v, 'a, 'j, 'w) document \<Rightarrow> ('d, 'v, 'a, 'j, 'w) document option" where
  "handle_stateless Y S cid frame s =
     (case dec_string (wire Y) (decoder frame) of
        Inl _ \<Rightarrow> Some s
      | Inr (payload, _) \<Rightarrow>
          (case map_of (connections s) cid of
             None \<Rightarrow> None
           | Some conn \<Rightarrow>
               let sp = \<lparr>sp_document_name = doc_name s, sp_socket_id = conn_socket_id conn,
                         sp_payload = payload\<rparr>
               in Some (s\<lparr>world := snd (run_until_err (map (\<lambda>e. on_stateless e sp) (extensions S)) (world s))\<rparr>)))"

text \<open>Re-authentication on a live connection: accepted, nothing done.\<close>

definition handle_token_sync ::
    "u64 \<Rightarrow> incoming_frame \<Rightarrow> ('d, 'v, 'a, 'j, 'w) document \<Rightarrow> ('d, 'v, 'a, 'j, 'w) document" where
  "handle_token_sync cid frame s = s"

definition handle_client_frame ::
    "('d, 'v, 'u, 'a, 'p) yrs \<Rightarrow> ('d, 'j, 'w) server \<Rightarrow> u64 \<Rightarrow> bytes \<Rightarrow>
       ('d, 'v, 'a, 'j, 'w) document \<Rightarrow> ('d, 'v, 'a, 'j, 'w) document option" where
  "handle_client_frame Y S cid data s =
     (case map_of (connections s) cid of
        None \<Rightarrow> Some s
      | Some conn \<Rightarrow>
          (case parse (wire Y) data of
             Inl _ \<Rightarrow> Some s
           | Inr frame \<Rightarrow>
               let addr = conn_address conn; og = Connection cid
               in case message_type frame of
                    Sync \<Rightarrow> handle_sync Y S cid addr og frame s
                  | SyncReply \<Rightarrow> handle_sync Y S cid addr og frame s
                  | Awareness \<Rightarrow> Some (handle_awareness Y S frame og s)
                  | QueryAwareness \<Rightarrow> Some (reply_query_awareness Y addr cid s)
                  | Stateless \<Rightarrow> handle_stateless Y S cid frame s
                  | CloseMsg \<Rightarrow> Some (close_connection Y S cid (close_event_new 1000 ''provider_initiated'') s)
                  | Auth \<Rightarrow> Some (handle_token_sync cid frame s)
                  | BroadcastStateless \<Rightarrow> Some (close_connection Y S cid RESET_CONNECTION s)
                  | _ \<Rightarrow> Some s))"

section \<open>Frames from peer nodes\<close>

definition handle_external_sync ::
    "('d, 'v, 'u, 'a, 'p) yrs \<Rightarrow> ('d, 'j, 'w) server \<Rightarrow> incoming_frame \<Rightarrow> origin \<Rightarrow> bool \<Rightarrow>
       ('d, 'v, 'a, 'j, 'w) document \<Rightarrow> ('d, 'v, 'a, 'j, 'w) document" where
  "handle_external_sync Y S frame og reply s =
     (case sync_decode Y (decoder frame) of
        None \<Rightarrow> s
      | Some (SyncStep1 client_sv) \<Rightarrow>
          if reply then
            let step2 = encode_diff_v1 Y (ydoc s) client_sv;
                f = into_bytes (write_sync_payload (encode_sync Y (SyncStep2 step2))
                      (out_sync_reply (wire Y) (out_new (wire Y) (doc_name s))))
            in s\<lparr>replies := replies s @ [f]\<rparr>
          else s
      | Some (SyncStep2 update) \<Rightarrow> apply_and_broadcast Y S update og s
      | Some (Update update) \<Rightarrow> apply_and_broadcast Y S update og s)"

definition handle_external_frame ::
    "('d, 'v, 'u, 'a, 'p) yrs \<Rightarrow> ('d, 'j, 'w) server \<Rightarrow> bytes \<Rightarrow> bool \<Rightarrow>
       ('d, 'v, 'a, 'j, 'w) document \<Rightarrow> ('d, 'v, 'a, 'j, 'w) document" where
  "handle_external_frame Y S data reply s =
     (case parse (wire Y) data of
        Inl _ \<Rightarrow> s
      | Inr frame \<Rightarrow>
          (case message_type frame of
             Sync \<Rightarrow> handle_external_sync Y S frame Redis reply s
           | SyncReply \<Rightarrow> handle_external_sync Y S frame Redis reply s
           | Awareness \<Rightarrow> handle_awareness Y S frame Redis s
           | QueryAwareness \<Rightarrow>
               if reply then
                 (case aw_update Y (awareness s) of
                    Some update \<Rightarrow>
                      let f = into_bytes (out_awareness_update (wire Y) (aw_encode Y update)
                                (out_new (wire Y) (doc_name s)))
                      in s\<lparr>replies := replies s @ [f]\<rparr>
                  | None \<Rightarrow> s)
               else s
           | BroadcastStateless \<Rightarrow>
               (case dec_string (wire Y) (decoder frame) of
                  Inr (payload, _) \<Rightarrow> broadcast_stateless Y payload s
                | Inl _ \<Rightarrow> s)
           | _ \<Rightarrow> s))"

section \<open>Storing and unloading\<close>

definition store_deadline :: "('d, 'j, 'w) server \<Rightarrow> ('d, 'v, 'a, 'j, 'w) document \<Rightarrow> instant option" where
  "store_deadline S s =
     (if \<not> dirty s \<or> storing s then None
      else
        case last_change_at s of
          None \<Rightarrow> None
        | Some changed \<Rightarrow>
            let soft = changed + debounce (config S)
            in case first_dirty_at s of
                 None \<Rightarrow> None
               | Some first \<Rightarrow>
                   let hard = first + max_debounce (config S)
                   in Some (min soft hard))"

definition full_state :: "('d, 'v, 'u, 'a, 'p) yrs \<Rightarrow> ('d, 'v, 'a, 'j, 'w) document \<Rightarrow> bytes" where
  "full_state Y s = encode_state_as_update_v1 Y (ydoc s) (default_sv Y)"

text \<open>The body both stores share: the store hooks up to the first error, then, if there was none,
  the after-store hooks of all extensions.\<close>

definition store_hooks ::
    "('d, 'j, 'w) server \<Rightarrow> bytes \<Rightarrow> document_payload \<Rightarrow> 'w \<Rightarrow> bool \<times> 'w" where
  "store_hooks S state payload w =
     (case run_until_err (map (\<lambda>e. on_store_document e state payload) (extensions S)) w of
        (Inl _, w) \<Rightarrow> (False, w)
      | (Inr _, w) \<Rightarrow> (True, run_all (map (\<lambda>e. after_store_document e payload) (extensions S)) w))"

definition spawn_store ::
    "('d, 'v, 'u, 'a, 'p) yrs \<Rightarrow> ('d, 'v, 'a, 'j, 'w) document \<Rightarrow> ('d, 'v, 'a, 'j, 'w) document" where
  "spawn_store Y s =
     (if \<not> dirty s \<or> storing s then s
      else s\<lparr>storing := True, dirty := False, first_dirty_at := None, last_change_at := None,
             store_tasks := store_tasks s @
               [(full_state Y s, \<lparr>dp_document_name = doc_name s,
                                  dp_clients_count = length (connections s)\<rparr>)]\<rparr>)"

text \<open>The body of the spawned task, run to its end, with its report on the result channel.\<close>

definition store_task ::
    "('d, 'j, 'w) server \<Rightarrow> ('d, 'v, 'a, 'j, 'w) document \<Rightarrow> ('d, 'v, 'a, 'j, 'w) document" where
  "store_task S s =
     (case store_tasks s of
        [] \<Rightarrow> s
      | (state, payload) # tasks \<Rightarrow>
          (case store_hooks S state payload (world s) of
             (ok, w) \<Rightarrow> s\<lparr>store_tasks := tasks, world := w, store_results := store_results s @ [ok]\<rparr>))"

definition run_store ::
    "('d, 'v, 'u, 'a, 'p) yrs \<Rightarrow> ('d, 'j, 'w) server \<Rightarrow> ('d, 'v, 'a, 'j, 'w) document \<Rightarrow>
       ('d, 'v, 'a, 'j, 'w) document" where
  "run_store Y S s =
     (if \<not> dirty s then s
      else
        let payload = \<lparr>dp_document_name = doc_name s, dp_clients_count = length (connections s)\<rparr>
        in case store_hooks S (full_state Y s) payload (world s) of
             (ok, w) \<Rightarrow>
               let s = s\<lparr>world := w\<rparr>
               in if ok then s\<lparr>dirty := False, first_dirty_at := None, last_change_at := None\<rparr> else s)"

definition maybe_unload ::
    "('d, 'v, 'u, 'a, 'p) yrs \<Rightarrow> ('d, 'j, 'w) server \<Rightarrow> ('d, 'v, 'a, 'j, 'w) document \<Rightarrow>
       bool \<times> ('d, 'v, 'a, 'j, 'w) document" where
  "maybe_unload Y S s =
     (if connections s \<noteq> [] then (False, s)
      else if storing s then (False, s)
      else if \<not> unload_immediately (config S) \<and> dirty s then (False, s)
      else
        let s = (if dirty s then run_store Y S s else s)
        in if connections s \<noteq> [] then (False, s)
           else
             let payload = \<lparr>dp_document_name = doc_name s, dp_clients_count = 0\<rparr>
             in case run_until_err (map (\<lambda>e. before_unload_document e payload) (extensions S)) (world s) of
                  (Inl _, w) \<Rightarrow> (False, s\<lparr>world := w\<rparr>)
                | (Inr _, w) \<Rightarrow>
                    (True,
                     s\<lparr>registry := (registry s)(doc_name s := None),
                       world := run_all (map (\<lambda>e. after_unload_document e (doc_name s)) (extensions S)) w\<rparr>))"

section \<open>The event loop\<close>

definition handle_command ::
    "('d, 'v, 'u, 'a, 'p) yrs \<Rightarrow> ('d, 'j, 'w) server \<Rightarrow> 'j doc_command \<Rightarrow>
       ('d, 'v, 'a, 'j, 'w) document \<Rightarrow> (bool \<times> ('d, 'v, 'a, 'j, 'w) document) option" where
  "handle_command Y S cmd s =
     (case cmd of
        AddConnection handle ack \<Rightarrow>
          let s = add_connection Y handle s in Some (False, s\<lparr>acks := acks s @ [ack]\<rparr>)
      | ClientFrame cid data \<Rightarrow> map_option (\<lambda>s. (False, s)) (handle_client_frame Y S cid data s)
      | RemoveConnection cid \<Rightarrow> Some (maybe_unload Y S (remove_connection Y S cid s))
      | ExternalFrame data reply \<Rightarrow> Some (False, handle_external_frame Y S data reply s)
      | DirectApply update ack \<Rightarrow>
          let s = apply_and_broadcast Y S update Local s in Some (False, s\<lparr>acks := acks s @ [ack]\<rparr>))"

text \<open>The batch: the received command and what is already queued, up to the maximum.\<close>

fun drain_batch :: "'c list \<Rightarrow> 'c list \<Rightarrow> 'c list \<times> 'c list" where
  "drain_batch batch [] = (batch, [])"
| "drain_batch batch (c # q) =
     (if length batch < MAX_COALESCE_BATCH then drain_batch (batch @ [c]) q else (batch, c # q))"

text \<open>Handling a batch stops at the command that unloads the document; the rest is dropped.\<close>

fun run_batch ::
    "('d, 'v, 'u, 'a, 'p) yrs \<Rightarrow> ('d, 'j, 'w) server \<Rightarrow> 'j doc_command list \<Rightarrow>
       ('d, 'v, 'a, 'j, 'w) document \<Rightarrow> (bool \<times> ('d, 'v, 'a, 'j, 'w) document) option" where
  "run_batch Y S [] s = Some (False, s)"
| "run_batch Y S (c # cs) s =
     (case handle_command Y S c s of
        None \<Rightarrow> None
      | Some (True, s) \<Rightarrow> Some (True, s)
      | Some (False, s) \<Rightarrow> run_batch Y S cs s)"

text \<open>The three branches of the loop's \<open>select!\<close>. Each returns whether the actor exits.\<close>

definition on_commands ::
    "('d, 'v, 'u, 'a, 'p) yrs \<Rightarrow> ('d, 'j, 'w) server \<Rightarrow> ('d, 'v, 'a, 'j, 'w) document \<Rightarrow>
       (bool \<times> ('d, 'v, 'a, 'j, 'w) document) option" where
  "on_commands Y S s =
     (case rx s of
        [] \<Rightarrow> Some (True, s)
      | cmd # rest \<Rightarrow>
          (case drain_batch [cmd] rest of
             (batch, left) \<Rightarrow>
               map_option (\<lambda>(exit, s). (exit, flush_broadcast Y s)) (run_batch Y S batch (s\<lparr>rx := left\<rparr>))))"

definition on_store_result ::
    "('d, 'v, 'u, 'a, 'p) yrs \<Rightarrow> ('d, 'j, 'w) server \<Rightarrow> bool \<Rightarrow> ('d, 'v, 'a, 'j, 'w) document \<Rightarrow>
       bool \<times> ('d, 'v, 'a, 'j, 'w) document" where
  "on_store_result Y S ok s =
     (let s = s\<lparr>storing := False\<rparr>;
          s = (if \<not> ok then mark_dirty (last_origin s) s else s)
      in maybe_unload Y S s)"

definition on_deadline ::
    "('d, 'v, 'u, 'a, 'p) yrs \<Rightarrow> ('d, 'j, 'w) server \<Rightarrow> ('d, 'v, 'a, 'j, 'w) document \<Rightarrow>
       bool \<times> ('d, 'v, 'a, 'j, 'w) document" where
  "on_deadline Y S s =
     (if connections s = [] then maybe_unload Y S (run_store Y S s)
      else (False, spawn_store Y s))"

text \<open>\<open>sleep_until_opt\<close>: when the timer branch is ready.\<close>

definition deadline_reached :: "('d, 'j, 'w) server \<Rightarrow> ('d, 'v, 'a, 'j, 'w) document \<Rightarrow> bool" where
  "deadline_reached S s \<longleftrightarrow> (case store_deadline S s of Some d \<Rightarrow> d \<le> clock s | None \<Rightarrow> False)"

end
