(* ===== verification/Document_Inv.thy ===== *)
theory Document_Inv
  imports Document
begin

text \<open>
  The actor as a state machine and its bookkeeping invariant. The step relation has one rule per
  branch of the event loop, one for the spawned store task, and one per kind of step of the world
  around the actor (commands arriving, the clock, the sockets' writers, other users of the channels,
  of the hook state and of the registry, and the publisher that takes its replies). Every step keeps
  the invariant \<open>actor_inv\<close>: the dirty flag agrees with the debounce timestamps, a broadcast is
  pending exactly when a base is recorded, at most one store is in flight, and connections are filed
  under their own id.
\<close>

section \<open>Growing channels\<close>

text \<open>What sending does to the channels: every queue keeps what it had, and may get more.\<close>

definition chans_grow :: "chans \<Rightarrow> chans \<Rightarrow> bool" where
  "chans_grow cs cs' \<longleftrightarrow>
     (\<forall>ch. \<exists>ms. queue (cs' ch) = queue (cs ch) @ ms \<and> cap (cs' ch) = cap (cs ch) \<and>
        chan_closed (cs' ch) = chan_closed (cs ch) \<and>
        (length (queue (cs ch)) \<le> cap (cs ch) \<longrightarrow> length (queue (cs' ch)) \<le> cap (cs ch)))"

section \<open>The step relation\<close>

text \<open>\<open>E\<close> relates the hook states between which tasks other than this actor may move.\<close>

inductive actor_step ::
    "('d, 'v, 'u, 'a, 'p) yrs \<Rightarrow> ('d, 'j, 'w) server \<Rightarrow> ('w \<Rightarrow> 'w \<Rightarrow> bool) \<Rightarrow>
       ('d, 'v, 'a, 'j, 'w) document \<Rightarrow> ('d, 'v, 'a, 'j, 'w) document \<Rightarrow> bool"
  for Y :: "('d, 'v, 'u, 'a, 'p) yrs" and S :: "('d, 'j, 'w) server" and E :: "'w \<Rightarrow> 'w \<Rightarrow> bool" where
  commands: "rx s \<noteq> [] \<Longrightarrow> on_commands Y S s = Some (False, s') \<Longrightarrow> actor_step Y S E s s'"
| stored: "store_results s = ok # rest \<Longrightarrow>
    on_store_result Y S ok (s\<lparr>store_results := rest\<rparr>) = (False, s') \<Longrightarrow> actor_step Y S E s s'"
| timer: "deadline_reached S s \<Longrightarrow> on_deadline Y S s = (False, s') \<Longrightarrow> actor_step Y S E s s'"
| task: "store_tasks s \<noteq> [] \<Longrightarrow> actor_step Y S E s (store_task S s)"
| arrive: "actor_step Y S E s (s\<lparr>rx := rx s @ [cmd]\<rparr>)"
| tick: "actor_step Y S E s (s\<lparr>clock := clock s + n\<rparr>)"
| deliver: "queue (chans s ch) = m # q \<Longrightarrow>
    actor_step Y S E s (s\<lparr>chans := (chans s)(ch := (chans s ch)\<lparr>queue := q\<rparr>)\<rparr>)"
| hang_up: "actor_step Y S E s (s\<lparr>chans := (chans s)(ch := (chans s ch)\<lparr>chan_closed := True\<rparr>)\<rparr>)"
| other_send: "chans_grow (chans s) cs \<Longrightarrow> actor_step Y S E s (s\<lparr>chans := cs\<rparr>)"
| other_hooks: "E (world s) w \<Longrightarrow> actor_step Y S E s (s\<lparr>world := w\<rparr>)"
| other_entries: "actor_step Y S E s (s\<lparr>registry := reg\<rparr>)"
| replies_taken: "actor_step Y S E s (s\<lparr>replies := rs\<rparr>)"

text \<open>The same three branches when they end the actor.\<close>

inductive actor_exit ::
    "('d, 'v, 'u, 'a, 'p) yrs \<Rightarrow> ('d, 'j, 'w) server \<Rightarrow>
       ('d, 'v, 'a, 'j, 'w) document \<Rightarrow> ('d, 'v, 'a, 'j, 'w) document \<Rightarrow> bool"
  for Y :: "('d, 'v, 'u, 'a, 'p) yrs" and S :: "('d, 'j, 'w) server" where
  exit_commands: "rx s \<noteq> [] \<Longrightarrow> on_commands Y S s = Some (True, s') \<Longrightarrow> actor_exit Y S s s'"
| exit_stored: "store_results s = ok # rest \<Longrightarrow>
    on_store_result Y S ok (s\<lparr>store_results := rest\<rparr>) = (True, s') \<Longrightarrow> actor_exit Y S s s'"
| exit_timer: "deadline_reached S s \<Longrightarrow> on_deadline Y S s = (True, s') \<Longrightarrow> actor_exit Y S s s'"

inductive actor_reach ::
    "('d, 'v, 'u, 'a, 'p) yrs \<Rightarrow> ('d, 'j, 'w) server \<Rightarrow> ('w \<Rightarrow> 'w \<Rightarrow> bool) \<Rightarrow>
       ('d, 'v, 'a, 'j, 'w) document \<Rightarrow> ('d, 'v, 'a, 'j, 'w) document \<Rightarrow> bool"
  for Y :: "('d, 'v, 'u, 'a, 'p) yrs" and S :: "('d, 'j, 'w) server" and E :: "'w \<Rightarrow> 'w \<Rightarrow> bool"
    and s0 :: "('d, 'v, 'a, 'j, 'w) document" where
  reach_refl: "actor_reach Y S E s0 s0"
| reach_step: "actor_reach Y S E s0 s \<Longrightarrow> actor_step Y S E s s' \<Longrightarrow> actor_reach Y S E s0 s'"

inductive_cases actor_exitE: "actor_exit Y S s s'"

section \<open>The invariant\<close>

definition timestamps_ok :: "('d, 'v, 'a, 'j, 'w) document \<Rightarrow> bool" where
  "timestamps_ok s \<longleftrightarrow>
     (dirty s \<longleftrightarrow> first_dirty_at s \<noteq> None) \<and> (dirty s \<longleftrightarrow> last_change_at s \<noteq> None) \<and>
     (dirty s \<longrightarrow> the (first_dirty_at s) \<le> the (last_change_at s) \<and> the (last_change_at s) \<le> clock s)"

definition broadcast_ok :: "('d, 'v, 'a, 'j, 'w) document \<Rightarrow> bool" where
  "broadcast_ok s \<longleftrightarrow> (broadcast_pending s \<longleftrightarrow> broadcast_base s \<noteq> None)"

definition store_ok :: "('d, 'v, 'a, 'j, 'w) document \<Rightarrow> bool" where
  "store_ok s \<longleftrightarrow> length (store_tasks s) + length (store_results s) = (if storing s then 1 else 0)"

definition conns_ok :: "('d, 'v, 'a, 'j, 'w) document \<Rightarrow> bool" where
  "conns_ok s \<longleftrightarrow> distinct (map fst (connections s)) \<and>
     (\<forall>kc \<in> set (connections s). conn_id (snd kc) = fst kc)"

definition actor_inv :: "('d, 'v, 'a, 'j, 'w) document \<Rightarrow> bool" where
  "actor_inv s \<longleftrightarrow> timestamps_ok s \<and> broadcast_ok s \<and> store_ok s \<and> conns_ok s"

definition queues_bounded :: "chans \<Rightarrow> bool" where
  "queues_bounded cs \<longleftrightarrow> (\<forall>ch. length (queue (cs ch)) \<le> cap (cs ch))"

section \<open>Channels\<close>

lemma chans_grow_refl [simp]: "chans_grow cs cs"
  by (simp add: chans_grow_def)

lemma chans_grow_trans [trans]: "chans_grow a b \<Longrightarrow> chans_grow b c \<Longrightarrow> chans_grow a c"
  unfolding chans_grow_def by (metis append.assoc)

lemma chans_grow_bounded: "chans_grow cs cs' \<Longrightarrow> queues_bounded cs \<Longrightarrow> queues_bounded cs'"
  unfolding chans_grow_def queues_bounded_def by metis

lemma chan_send_grow: "chans_grow cs (snd (chan_send ch m cs))"
  by (auto simp: chans_grow_def chan_send_def try_send_def split: prod.splits if_splits)

lemma send_frame_grow: "chans_grow cs (snd (send_frame conn f cs))"
  using chan_send_grow [of cs "outbound conn" "Frame f"] by (auto simp: send_frame_def split: prod.splits)

lemma send_close_grow: "chans_grow cs (send_close conn e cs)"
  by (simp add: send_close_def chan_send_grow)

lemma broadcast_loop_grow: "chans_grow cs (snd (broadcast_loop mk a f conns cs))"
proof (induction conns arbitrary: cs)
  case (Cons conn conns)
  let ?f = "if conn_address conn = a then f else mk (conn_address conn)"
  show ?case
    using chans_grow_trans [OF send_frame_grow [of cs conn ?f] Cons.IH]
    by (simp add: Let_def case_prod_beta)
qed simp

section \<open>What the operations touch\<close>

text \<open>Each lemma gives the fields an operation may change; all others stay.\<close>

lemma map_of_deleteD: "(k, v) \<in> set (AList.delete x al) \<Longrightarrow> (k, v) \<in> set al \<and> k \<noteq> x"
  by (auto simp: AList.delete_eq)

lemma evict_lagging_shape:
  "\<exists>a cn cs. evict_lagging Y ids s = s\<lparr>awareness := a, connections := cn, chans := cs\<rparr> \<and>
     set cn \<subseteq> set (connections s) \<and> (distinct (map fst (connections s)) \<longrightarrow> distinct (map fst cn)) \<and>
     chans_grow (chans s) cs"
proof (induction ids arbitrary: s)
  case Nil
  have "s = s\<lparr>awareness := awareness s, connections := connections s, chans := chans s\<rparr>" by simp
  then show ?case by (metis chans_grow_refl evict_lagging.simps(1) order_refl)
next
  case (Cons i ids)
  show ?case
  proof (cases "map_of (connections s) i")
    case None
    then show ?thesis using Cons.IH [of s] by simp
  next
    case (Some conn)
    let ?t = "s\<lparr>connections := AList.delete i (connections s),
        awareness := fold (aw_remove_state Y) (client_ids conn) (awareness s),
        chans := send_close conn RESET_CONNECTION (chans s)\<rparr>"
    obtain a cn cs where t: "evict_lagging Y ids ?t = ?t\<lparr>awareness := a, connections := cn, chans := cs\<rparr>"
      and sub: "set cn \<subseteq> set (AList.delete i (connections s))"
      and dist: "distinct (map fst (AList.delete i (connections s))) \<longrightarrow> distinct (map fst cn)"
      and grow: "chans_grow (send_close conn RESET_CONNECTION (chans s)) cs"
      using Cons.IH [of ?t] by auto
    have "evict_lagging Y (i # ids) s = s\<lparr>awareness := a, connections := cn, chans := cs\<rparr>"
      using Some t by simp
    moreover have "set cn \<subseteq> set (connections s)"
      using sub by (fastforce dest: map_of_deleteD)
    moreover have "distinct (map fst (connections s)) \<longrightarrow> distinct (map fst cn)"
      using dist by (simp add: distinct_delete)
    ultimately show ?thesis using chans_grow_trans [OF send_close_grow grow] by blast
  qed
qed

lemma broadcast_with_shape:
  "\<exists>a cn cs. broadcast_with Y mk s = s\<lparr>awareness := a, connections := cn, chans := cs\<rparr> \<and>
     set cn \<subseteq> set (connections s) \<and> (distinct (map fst (connections s)) \<longrightarrow> distinct (map fst cn)) \<and>
     chans_grow (chans s) cs"
proof -
  obtain lag cs0 where l: "broadcast_loop mk (doc_name s) (mk (doc_name s)) (map snd (connections s)) (chans s) = (lag, cs0)"
    by (cases "broadcast_loop mk (doc_name s) (mk (doc_name s)) (map snd (connections s)) (chans s)")
  have g: "chans_grow (chans s) cs0" using broadcast_loop_grow [of "chans s"] l by (metis snd_conv)
  obtain a cn cs where "evict_lagging Y lag (s\<lparr>chans := cs0\<rparr>) =
      s\<lparr>chans := cs0\<rparr>\<lparr>awareness := a, connections := cn, chans := cs\<rparr>"
    and "set cn \<subseteq> set (connections s)" and "distinct (map fst (connections s)) \<longrightarrow> distinct (map fst cn)"
    and "chans_grow cs0 cs"
    using evict_lagging_shape [of Y lag "s\<lparr>chans := cs0\<rparr>"] by auto
  then show ?thesis using chans_grow_trans [OF g] by (fastforce simp: broadcast_with_def l Let_def)
qed

section \<open>Operations that leave the document alone\<close>

text \<open>A relation on hook states that every hook but the store hooks keeps.\<close>

definition quiet_hooks :: "('d, 'j, 'w) server \<Rightarrow> ('w \<Rightarrow> 'w \<Rightarrow> bool) \<Rightarrow> bool" where
  "quiet_hooks S R \<longleftrightarrow>
     reflp R \<and> transp R \<and>
     (\<forall>e \<in> set (extensions S).
        (\<forall>p w. R w (snd (before_handle_message_hook e p w))) \<and>
        (\<forall>p w. R w (snd (on_change e p w))) \<and>
        (\<forall>p w. R w (snd (after_store_document e p w))) \<and>
        (\<forall>p w. R w (snd (on_awareness_update e p w))) \<and>
        (\<forall>p w. R w (snd (on_stateless e p w))) \<and>
        (\<forall>p c w. R w (snd (snd (on_disconnect e p (c, w))))) \<and>
        (\<forall>p w. R w (snd (before_unload_document e p w))) \<and>
        (\<forall>n w. R w (snd (after_unload_document e n w))))"

text \<open>Two hook states are connected by hook runs if every such relation holds between them.\<close>

definition hooks_lead :: "('d, 'j, 'w) server \<Rightarrow> 'w \<Rightarrow> 'w \<Rightarrow> bool" where
  "hooks_lead S w w' \<longleftrightarrow> (\<forall>R. quiet_hooks S R \<longrightarrow> R w w')"

text \<open>The steps that keep the document and its bookkeeping: they may only send, change the set of
  connections and the awareness states, answer, and run hooks.\<close>

definition keeps ::
    "('d, 'j, 'w) server \<Rightarrow> ('d, 'v, 'a, 'j, 'w) document \<Rightarrow> ('d, 'v, 'a, 'j, 'w) document \<Rightarrow> bool" where
  "keeps S s s' \<longleftrightarrow>
     doc_name s' = doc_name s \<and> ydoc s' = ydoc s \<and> rx s' = rx s \<and> dirty s' = dirty s \<and>
     first_dirty_at s' = first_dirty_at s \<and> last_change_at s' = last_change_at s \<and>
     storing s' = storing s \<and> store_results s' = store_results s \<and> store_tasks s' = store_tasks s \<and>
     broadcast_base s' = broadcast_base s \<and> broadcast_pending s' = broadcast_pending s \<and>
     clock s' = clock s \<and> chans_grow (chans s) (chans s') \<and> (conns_ok s \<longrightarrow> conns_ok s') \<and>
     hooks_lead S (world s) (world s')"

lemma hooks_leadI: "(\<And>R. quiet_hooks S R \<Longrightarrow> R w w') \<Longrightarrow> hooks_lead S w w'"
  unfolding hooks_lead_def by blast

lemma hooks_leadD: "hooks_lead S w w' \<Longrightarrow> quiet_hooks S R \<Longrightarrow> R w w'"
  unfolding hooks_lead_def by blast

lemma quiet_hooksD:
  assumes "quiet_hooks S R"
  shows "reflp R" "transp R"
    "e \<in> set (extensions S) \<Longrightarrow> R w (snd (before_handle_message_hook e cp w))"
    "e \<in> set (extensions S) \<Longrightarrow> R w (snd (on_change e cp w))"
    "e \<in> set (extensions S) \<Longrightarrow> R w (snd (after_store_document e dp w))"
    "e \<in> set (extensions S) \<Longrightarrow> R w (snd (on_awareness_update e awp w))"
    "e \<in> set (extensions S) \<Longrightarrow> R w (snd (on_stateless e sp w))"
    "e \<in> set (extensions S) \<Longrightarrow> R w (snd (snd (on_disconnect e p (cell, w))))"
    "e \<in> set (extensions S) \<Longrightarrow> R w (snd (before_unload_document e dp w))"
    "e \<in> set (extensions S) \<Longrightarrow> R w (snd (after_unload_document e n w))"
  using assms by (simp_all add: quiet_hooks_def)

lemma hooks_lead_refl [simp]: "hooks_lead S w w"
  by (rule hooks_leadI) (rule reflpD [OF quiet_hooksD(1)])

lemma hooks_lead_trans: "hooks_lead S a b \<Longrightarrow> hooks_lead S b c \<Longrightarrow> hooks_lead S a c"
  by (rule hooks_leadI) (rule transpD [OF quiet_hooksD(2)], auto dest: hooks_leadD)

lemma hooks_lead_run_all:
  "(\<And>h w. h \<in> set hs \<Longrightarrow> hooks_lead S w (snd (h w))) \<Longrightarrow> hooks_lead S w (run_all hs w)"
  by (rule run_all_rel) (auto intro: hooks_lead_trans)

lemma hooks_lead_run_until_err:
  "(\<And>h w. h \<in> set hs \<Longrightarrow> hooks_lead S w (snd (h w))) \<Longrightarrow> hooks_lead S w (snd (run_until_err hs w))"
  by (rule run_until_err_rel) (auto intro: hooks_lead_trans)

lemma hooks_lead_hook:
  assumes "e \<in> set (extensions S)"
  shows "hooks_lead S w (snd (before_handle_message_hook e cp w))"
    "hooks_lead S w (snd (on_change e cp w))"
    "hooks_lead S w (snd (after_store_document e dp w))"
    "hooks_lead S w (snd (on_awareness_update e awp w))"
    "hooks_lead S w (snd (on_stateless e sp w))"
    "hooks_lead S w (snd (snd (on_disconnect e p (cell, w))))"
    "hooks_lead S w (snd (before_unload_document e dp w))"
    "hooks_lead S w (snd (after_unload_document e n w))"
  using assms by (auto intro: hooks_leadI quiet_hooksD)

lemma keeps_refl [simp]: "keeps S s s"
  by (simp add: keeps_def)

lemma keeps_trans [trans]: "keeps S a b \<Longrightarrow> keeps S b c \<Longrightarrow> keeps S a c"
  unfolding keeps_def by (auto intro: chans_grow_trans hooks_lead_trans)

lemma keepsD:
  assumes "keeps S s s'"
  shows "doc_name s' = doc_name s" "ydoc s' = ydoc s" "rx s' = rx s" "dirty s' = dirty s"
    "first_dirty_at s' = first_dirty_at s" "last_change_at s' = last_change_at s"
    "storing s' = storing s" "store_results s' = store_results s" "store_tasks s' = store_tasks s"
    "broadcast_base s' = broadcast_base s" "broadcast_pending s' = broadcast_pending s"
    "clock s' = clock s" "chans_grow (chans s) (chans s')"
  using assms by (simp_all add: keeps_def)

lemma keeps_conns_ok: "keeps S s s' \<Longrightarrow> conns_ok s \<Longrightarrow> conns_ok s'"
  by (simp add: keeps_def)

lemma keeps_world: "keeps S s s' \<Longrightarrow> hooks_lead S (world s) (world s')"
  by (simp add: keeps_def)

lemma keeps_chans: "chans_grow (chans s) cs \<Longrightarrow> keeps S s (s\<lparr>chans := cs\<rparr>)"
  by (simp add: keeps_def conns_ok_def)

lemma keeps_world_upd: "hooks_lead S (world s) w \<Longrightarrow> keeps S s (s\<lparr>world := w\<rparr>)"
  by (simp add: keeps_def conns_ok_def)

lemma keeps_acks [simp]: "keeps S s (s\<lparr>acks := a\<rparr>)" and keeps_replies [simp]: "keeps S s (s\<lparr>replies := r\<rparr>)"
  and keeps_awareness [simp]: "keeps S s (s\<lparr>awareness := aw\<rparr>)"
  by (simp_all add: keeps_def conns_ok_def)

lemma keeps_broadcast_with: "keeps S s (broadcast_with Y mk s)"
proof -
  obtain a cn cs where b: "broadcast_with Y mk s = s\<lparr>awareness := a, connections := cn, chans := cs\<rparr>"
    and "set cn \<subseteq> set (connections s)" "distinct (map fst (connections s)) \<longrightarrow> distinct (map fst cn)"
    "chans_grow (chans s) cs"
    using broadcast_with_shape [of Y mk s] by blast
  then show ?thesis unfolding b by (auto simp: keeps_def conns_ok_def)
qed

lemma set_AList_update: "set (AList.update k c al) \<subseteq> insert (k, c) (set al)"
  by (induction al) auto

lemma conns_ok_update:
  assumes "conns_ok s" and "conn_id c = k"
  shows "conns_ok (s\<lparr>connections := AList.update k c (connections s)\<rparr>)"
  using assms set_AList_update [of k c "connections s"] by (auto simp: conns_ok_def distinct_update)

lemma conns_ok_delete: "conns_ok s \<Longrightarrow> conns_ok (s\<lparr>connections := AList.delete k (connections s)\<rparr>)"
  by (auto simp: conns_ok_def distinct_delete dest: map_of_deleteD)

lemma keeps_connections:
  "(conns_ok s \<Longrightarrow> conns_ok (s\<lparr>connections := cn\<rparr>)) \<Longrightarrow> keeps S s (s\<lparr>connections := cn\<rparr>)"
  by (simp add: keeps_def)

lemma keeps_update_conn:
  "conn_id c = k \<Longrightarrow> keeps S s (s\<lparr>connections := AList.update k c (connections s)\<rparr>)"
  by (rule keeps_connections) (rule conns_ok_update)

section \<open>The handlers keep the document or apply one update to it\<close>

lemma keeps_add_connection: "keeps S s (add_connection Y h s)"
proof -
  define t where "t = (if awareness_has_states Y s then
      (case aw_update Y (awareness s) of
         Some u \<Rightarrow> s\<lparr>chans := snd (send_frame h (into_bytes (out_awareness_update (wire Y) (aw_encode Y u)
             (out_new (wire Y) (conn_address h)))) (chans s))\<rparr>
       | None \<Rightarrow> s) else s)"
  have "keeps S s t" by (simp add: t_def keeps_chans send_frame_grow split: option.split)
  also have "keeps S t (t\<lparr>connections := AList.update (conn_id h) h (connections t)\<rparr>)"
    by (rule keeps_update_conn) simp
  finally show ?thesis by (simp only: add_connection_def t_def Let_def)
qed

lemma hooks_lead_disconnect:
  "hooks_lead S w (snd (run_all (map (\<lambda>e. on_disconnect e p) (extensions S)) (cell, w)))"
proof -
  have "hooks_lead S (snd (cell, w)) (snd (run_all (map (\<lambda>e. on_disconnect e p) (extensions S)) (cell, w)))"
    by (rule run_all_rel [where R = "\<lambda>a b. hooks_lead S (snd a) (snd b)"])
      (auto intro: hooks_lead_hook hooks_lead_trans)
  then show ?thesis by simp
qed

lemma keeps_remove_connection: "keeps S s (remove_connection Y S cid s)"
proof (cases "map_of (connections s) cid")
  case None
  then show ?thesis by (simp add: remove_connection_def)
next
  case (Some h)
  let ?s1 = "s\<lparr>connections := AList.delete cid (connections s)\<rparr>"
  let ?s2 = "?s1\<lparr>awareness := fold (aw_remove_state Y) (client_ids h) (awareness ?s1)\<rparr>"
  define s3 where "s3 = (if client_ids h \<noteq> [] then
      (case aw_update_with_clients Y (client_ids h) (awareness ?s2) of
         Some u \<Rightarrow> broadcast_awareness Y (aw_encode Y u) ?s2 | None \<Rightarrow> ?s2) else ?s2)"
  have "keeps S s ?s1" by (rule keeps_connections) (rule conns_ok_delete)
  also have "keeps S ?s1 ?s2" by (rule keeps_awareness)
  also have "keeps S ?s2 s3"
    unfolding s3_def broadcast_awareness_def
    by (simp add: keeps_broadcast_with split: option.split)
  also have "keeps S s3 (s3\<lparr>world := snd (run_all (map (\<lambda>e. on_disconnect e (disconnect_payload s3 h)) (extensions S))
      (conn_cell h, world s3))\<rparr>)"
    by (rule keeps_world_upd) (rule hooks_lead_disconnect)
  finally show ?thesis
    using Some by (simp add: remove_connection_def s3_def Let_def case_prod_beta)
qed

lemma keeps_close_connection: "keeps S s (close_connection Y S cid e s)"
  unfolding close_connection_def Let_def
  by (rule keeps_trans [OF _ keeps_remove_connection])
    (simp add: keeps_chans send_close_grow split: option.split)

lemma keeps_send_sync_status: "keeps S s (send_sync_status Y cid addr ok s)"
  by (simp add: send_sync_status_def keeps_chans send_frame_grow split: option.split)

lemma keeps_before_handle_message: "keeps S s (snd (before_handle_message S cid u og s))"
proof -
  let ?p = "\<lparr>chp_document_name = doc_name s, chp_update = u, chp_origin = og,
    chp_clients_count = length (connections s)\<rparr>"
  obtain r w where run: "run_until_err (map (\<lambda>e. before_handle_message_hook e ?p) (extensions S)) (world s) = (r, w)"
    by (cases "run_until_err (map (\<lambda>e. before_handle_message_hook e ?p) (extensions S)) (world s)")
  have "hooks_lead S (world s) (snd (run_until_err (map (\<lambda>e. before_handle_message_hook e ?p) (extensions S)) (world s)))"
    by (rule hooks_lead_run_until_err) (auto intro: hooks_lead_hook)
  then have "keeps S s (s\<lparr>world := w\<rparr>)" by (simp add: run keeps_world_upd)
  moreover have "keeps S (s\<lparr>world := w\<rparr>) (s\<lparr>world := w, chans := send_close conn ev (chans s)\<rparr>)" for conn ev
    using keeps_chans [OF send_close_grow, where s = "s\<lparr>world := w\<rparr>"] by simp
  ultimately show ?thesis
    using keeps_trans by (fastforce simp: before_handle_message_def run Let_def split: sum.splits option.splits)
qed

lemma keeps_track_clients: "conns_ok s \<Longrightarrow> keeps S s (track_clients og ids s)"
  unfolding track_clients_def
  by (auto intro!: keeps_update_conn dest!: map_of_SomeD simp: conns_ok_def split: origin.split option.split)

lemma keeps_handle_awareness:
  assumes "conns_ok s"
  shows "keeps S s (handle_awareness Y S frame og s)"
proof -
  have aw: "keeps S t (t\<lparr>world := run_all (map (\<lambda>e. on_awareness_update e p) (extensions S)) (world t)\<rparr>)" for t p
    by (rule keeps_world_upd) (rule hooks_lead_run_all, auto intro: hooks_lead_hook)
  have track: "keeps S s (track_clients og ids (s\<lparr>awareness := a\<rparr>))" for ids a
    by (rule keeps_trans [OF keeps_awareness keeps_track_clients]) (use assms in \<open>simp add: conns_ok_def\<close>)
  show ?thesis
    unfolding handle_awareness_def Let_def broadcast_awareness_def
    by (auto split: sum.split option.split bool.split prod.split
        intro: track keeps_trans [OF track] keeps_trans [OF keeps_broadcast_with] aw)
qed

lemma keeps_reply_query_awareness: "keeps S s (reply_query_awareness Y addr cid s)"
  by (simp add: reply_query_awareness_def keeps_chans send_frame_grow split: option.split)

lemma keeps_broadcast_stateless: "keeps S s (broadcast_stateless Y p s)"
  by (simp add: broadcast_stateless_def keeps_broadcast_with)

lemma keeps_handle_stateless: "handle_stateless Y S cid frame s = Some s' \<Longrightarrow> keeps S s s'"
proof -
  have "keeps S s (s\<lparr>world := snd (run_until_err (map (\<lambda>e. on_stateless e p) (extensions S)) (world s))\<rparr>)" for p
    by (rule keeps_world_upd) (rule hooks_lead_run_until_err, auto intro: hooks_lead_hook)
  then show "handle_stateless Y S cid frame s = Some s' \<Longrightarrow> keeps S s s'"
    by (auto simp: handle_stateless_def Let_def split: sum.splits option.splits)
qed

text \<open>What a command other than a disconnect does: it keeps the document, or applies one update
  between two steps that keep it.\<close>

definition moves ::
    "('d, 'v, 'u, 'a, 'p) yrs \<Rightarrow> ('d, 'j, 'w) server \<Rightarrow> ('d, 'v, 'a, 'j, 'w) document \<Rightarrow>
       ('d, 'v, 'a, 'j, 'w) document \<Rightarrow> bool" where
  "moves Y S s s' \<longleftrightarrow> keeps S s s' \<or>
     (\<exists>t u og. keeps S s t \<and> keeps S (apply_and_broadcast Y S u og t) s')"

lemma moves_keeps: "keeps S s s' \<Longrightarrow> moves Y S s s'"
  by (simp add: moves_def)

lemma moves_refl [simp]: "moves Y S s s"
  by (simp add: moves_keeps)

lemma moves_apply: "moves Y S s (apply_and_broadcast Y S u og s)"
  unfolding moves_def using keeps_refl by blast

lemma moves_apply_between:
  "keeps S s t \<Longrightarrow> keeps S (apply_and_broadcast Y S u og t) s' \<Longrightarrow> moves Y S s s'"
  unfolding moves_def by blast

lemma moves_handle_sync:
  assumes "handle_sync Y S cid addr og frame s = Some s'"
  shows "moves Y S s s'"
proof -
  have upd: "moves Y S s (case before_handle_message S cid u og s of (False, s) \<Rightarrow> s
      | (True, s) \<Rightarrow> send_sync_status Y cid addr True (apply_and_broadcast Y S u og s))" for u
    using keeps_before_handle_message [of S s cid u og]
    by (auto split: prod.split bool.split intro: moves_keeps moves_apply_between keeps_send_sync_status)
  have step1: "moves Y S s (s\<lparr>chans := snd (send_frame c f2 (snd (send_frame c f1 (chans s))))\<rparr>)" for c f1 f2
    by (rule moves_keeps, rule keeps_chans) (rule chans_grow_trans [OF send_frame_grow send_frame_grow])
  have status: "moves Y S s (send_sync_status Y cid addr False s)"
    by (rule moves_keeps) (rule keeps_send_sync_status)
  show ?thesis
    using assms by (auto simp: handle_sync_def Let_def
        split: option.splits sync_message.splits if_splits intro: upd step1 status)
qed

lemma moves_handle_client_frame:
  assumes "conns_ok s" and "handle_client_frame Y S cid data s = Some s'"
  shows "moves Y S s s'"
  using assms
  by (auto simp: handle_client_frame_def handle_token_sync_def Let_def
      split: option.splits sum.splits message_type.splits
      intro: moves_keeps keeps_handle_awareness keeps_reply_query_awareness keeps_close_connection
        keeps_handle_stateless moves_handle_sync)

lemma moves_handle_external_frame:
  assumes "conns_ok s"
  shows "moves Y S s (handle_external_frame Y S data reply s)"
  using assms
  by (auto simp: handle_external_frame_def handle_external_sync_def Let_def
      split: option.split sum.split message_type.split sync_message.split
      intro: moves_keeps keeps_handle_awareness keeps_broadcast_stateless moves_apply)

section \<open>Applying an update\<close>

text \<open>Either nothing but the document can change (the update did not decode, did not apply or was
  empty), or the change is booked: base, pending flag, dirty flag, timestamps, hooks.\<close>

lemma apply_and_broadcast_cases:
  obtains (undecoded) "decode_v1 Y u = None" "apply_and_broadcast Y S u og s = s"
  | (unbooked) up d where "decode_v1 Y u = Some up" "d = snd (apply_update Y up (ydoc s))"
      "\<not> fst (apply_update Y up (ydoc s)) \<or> encode_update_v1 Y up (ydoc s) = []"
      "apply_and_broadcast Y S u og s = s\<lparr>ydoc := d\<rparr>"
  | (booked) up d w where "decode_v1 Y u = Some up" "apply_update Y up (ydoc s) = (True, d)"
      "encode_update_v1 Y up (ydoc s) \<noteq> []" "hooks_lead S (world s) w"
      "apply_and_broadcast Y S u og s =
         (mark_dirty og (s\<lparr>ydoc := d, broadcast_pending := True, broadcast_base :=
            (case broadcast_base s of None \<Rightarrow> Some (state_vector Y (ydoc s)) | Some b \<Rightarrow> Some b)\<rparr>))\<lparr>world := w\<rparr>"
proof (cases "decode_v1 Y u")
  case None
  then show ?thesis by (intro undecoded) (simp_all add: apply_and_broadcast_def)
next
  case (Some up)
  obtain ok d where ap: "apply_update Y up (ydoc s) = (ok, d)" by (cases "apply_update Y up (ydoc s)")
  show ?thesis
  proof (cases "ok \<and> encode_update_v1 Y up (ydoc s) \<noteq> []")
    case False
    then show ?thesis
      using Some ap by (intro unbooked [of up d]) (auto simp: apply_and_broadcast_def Let_def split: bool.split)
  next
    case True
    let ?p = "\<lparr>chp_document_name = doc_name s, chp_update = encode_update_v1 Y up (ydoc s), chp_origin = og,
      chp_clients_count = length (connections s)\<rparr>"
    let ?w = "run_all (map (\<lambda>e. on_change e ?p) (extensions S)) (world s)"
    have "hooks_lead S (world s) ?w"
      by (rule hooks_lead_run_all) (auto intro: hooks_lead_hook)
    then show ?thesis
      using Some ap True
      by (intro booked [of up d ?w])
        (auto simp: apply_and_broadcast_def mark_dirty_def Let_def split: option.split)
  qed
qed

section \<open>Storing and unloading\<close>

lemma maybe_unload_cases:
  obtains (stays) "connections s \<noteq> [] \<or> storing s \<or> \<not> unload_immediately (config S) \<and> dirty s"
      "maybe_unload Y S s = (False, s)"
  | (vetoed) w where "connections s = []" "\<not> storing s" "unload_immediately (config S) \<or> \<not> dirty s"
      "hooks_lead S (world (run_store Y S s)) w"
      "maybe_unload Y S s = (False, (run_store Y S s)\<lparr>world := w\<rparr>)"
  | (unloads) w where "connections s = []" "\<not> storing s" "unload_immediately (config S) \<or> \<not> dirty s"
      "hooks_lead S (world (run_store Y S s)) w"
      "maybe_unload Y S s = (True, (run_store Y S s)\<lparr>registry := (registry s)(doc_name s := None), world := w\<rparr>)"
proof (cases "connections s \<noteq> [] \<or> storing s \<or> \<not> unload_immediately (config S) \<and> dirty s")
  case True
  then show ?thesis by (intro stays) (auto simp: maybe_unload_def)
next
  case False
  define t where "t = run_store Y S s"
  have t: "connections t = connections s" "doc_name t = doc_name s" "registry t = registry s"
    by (auto simp: t_def run_store_def Let_def split: prod.split)
  have clean: "(if dirty s then run_store Y S s else s) = t" by (simp add: t_def run_store_def)
  let ?p = "\<lparr>dp_document_name = doc_name s, dp_clients_count = 0\<rparr>"
  obtain r w where run: "run_until_err (map (\<lambda>e. before_unload_document e ?p) (extensions S)) (world t) = (r, w)"
    by (cases "run_until_err (map (\<lambda>e. before_unload_document e ?p) (extensions S)) (world t)")
  have "hooks_lead S (world t) (snd (run_until_err (map (\<lambda>e. before_unload_document e ?p) (extensions S)) (world t)))"
    by (rule hooks_lead_run_until_err) (auto intro: hooks_lead_hook)
  then have w: "hooks_lead S (world t) w" by (simp add: run)
  let ?w' = "run_all (map (\<lambda>e. after_unload_document e (doc_name s)) (extensions S)) w"
  have w': "hooks_lead S (world t) ?w'"
    by (rule hooks_lead_trans [OF w]) (rule hooks_lead_run_all, auto intro: hooks_lead_hook)
  have res: "maybe_unload Y S s = (case r of Inl _ \<Rightarrow> (False, t\<lparr>world := w\<rparr>)
      | Inr _ \<Rightarrow> (True, t\<lparr>registry := (registry s)(doc_name s := None), world := ?w'\<rparr>))"
    using False by (auto simp: maybe_unload_def clean Let_def t run split: sum.split)
  show ?thesis
  proof (cases r)
    case (Inl e)
    then show ?thesis using False res w by (intro vetoed [of w]) (auto simp: t_def)
  next
    case (Inr e)
    then show ?thesis using False res w' by (intro unloads [of ?w']) (auto simp: t_def)
  qed
qed

text \<open>The state in which a flush starts to send.\<close>

definition flush_cleared :: "('d, 'v, 'a, 'j, 'w) document \<Rightarrow> ('d, 'v, 'a, 'j, 'w) document" where
  "flush_cleared s =
     (if broadcast_pending s then s\<lparr>broadcast_pending := False, broadcast_base := None\<rparr> else s)"

lemma keeps_flush: "keeps S (flush_cleared s) (flush_broadcast Y s)"
proof (cases "broadcast_base s")
  case None
  then show ?thesis by (simp add: flush_broadcast_def flush_cleared_def keeps_def conns_ok_def)
next
  case (Some b)
  then show ?thesis by (simp add: flush_broadcast_def flush_cleared_def Let_def keeps_broadcast_with)
qed

section \<open>Every operation keeps the invariant\<close>

lemmas actor_inv_defs = actor_inv_def timestamps_ok_def broadcast_ok_def store_ok_def

lemma actor_inv_upd [simp]:
  "actor_inv (s\<lparr>ydoc := d\<rparr>) = actor_inv s" "actor_inv (s\<lparr>world := w\<rparr>) = actor_inv s"
  "actor_inv (s\<lparr>registry := r\<rparr>) = actor_inv s" "actor_inv (s\<lparr>rx := q\<rparr>) = actor_inv s"
  "actor_inv (s\<lparr>chans := cs\<rparr>) = actor_inv s" "actor_inv (s\<lparr>replies := rs\<rparr>) = actor_inv s"
  by (simp_all add: actor_inv_defs conns_ok_def)

lemmas broadcast_with_keeps [simp] = keepsD [OF keeps_broadcast_with]

lemma inv_keeps [inv_intros]: "keeps S s s' \<Longrightarrow> actor_inv s \<Longrightarrow> actor_inv s'"
  by (auto simp: actor_inv_defs keepsD dest: keeps_conns_ok)

lemma inv_apply [inv_intros]: "actor_inv s \<Longrightarrow> actor_inv (apply_and_broadcast Y S u og s)"
proof -
  assume inv: "actor_inv s"
  show ?thesis
  proof (cases rule: apply_and_broadcast_cases [of Y u S og s])
    case undecoded
    then show ?thesis using inv by simp
  next
    case (unbooked up d)
    then show ?thesis using inv by simp
  next
    case (booked up d w)
    then show ?thesis
      using inv by (auto simp: actor_inv_defs conns_ok_def mark_dirty_def split: option.splits)
  qed
qed

lemma inv_moves [inv_intros]: "moves Y S s s' \<Longrightarrow> actor_inv s \<Longrightarrow> actor_inv s'"
  unfolding moves_def using inv_keeps inv_apply by blast

lemma inv_flush: "actor_inv s \<Longrightarrow> actor_inv (flush_broadcast Y s)"
proof (rule inv_keeps [OF keeps_flush])
  assume "actor_inv s"
  then show "actor_inv (flush_cleared s)"
    by (auto simp: actor_inv_defs flush_cleared_def conns_ok_def)
qed

lemma inv_run_store: "actor_inv s \<Longrightarrow> actor_inv (run_store Y S s)"
  by (auto simp: run_store_def actor_inv_defs conns_ok_def Let_def split: prod.split)

lemma inv_maybe_unload: "actor_inv s \<Longrightarrow> actor_inv (snd (maybe_unload Y S s))"
proof -
  assume inv: "actor_inv s"
  show ?thesis
    by (cases rule: maybe_unload_cases [of s S Y])
      (use inv inv_run_store [OF inv, of Y S] in simp_all)
qed

lemma inv_handle_command:
  assumes "actor_inv s" and "handle_command Y S cmd s = Some (x, s')"
  shows "actor_inv s'"
proof -
  have ok: "conns_ok s" using assms(1) by (simp add: actor_inv_def)
  show ?thesis
  proof (cases cmd)
    case (AddConnection h ack)
    then show ?thesis
      using assms inv_keeps [OF keeps_trans [OF keeps_add_connection keeps_acks]]
      by (auto simp: handle_command_def Let_def)
  next
    case (ClientFrame cid data)
    then show ?thesis
      using assms by (auto simp: handle_command_def intro: inv_moves moves_handle_client_frame [OF ok])
  next
    case (RemoveConnection cid)
    then show ?thesis
      using assms inv_maybe_unload [OF inv_keeps [OF keeps_remove_connection assms(1)], of Y S Y S cid]
      by (simp add: handle_command_def)
  next
    case (ExternalFrame data reply)
    then show ?thesis
      using assms by (auto simp: handle_command_def intro: inv_moves moves_handle_external_frame [OF ok])
  next
    case (DirectApply u ack)
    then show ?thesis
      using assms inv_keeps [OF keeps_acks inv_apply] by (auto simp: handle_command_def Let_def)
  qed
qed

lemma inv_run_batch: "run_batch Y S cs s = Some (x, s') \<Longrightarrow> actor_inv s \<Longrightarrow> actor_inv s'"
  by (induction cs arbitrary: s) (auto split: option.splits prod.splits bool.splits dest: inv_handle_command)

lemma inv_on_commands: "on_commands Y S s = Some (x, s') \<Longrightarrow> actor_inv s \<Longrightarrow> actor_inv s'"
  by (auto simp: on_commands_def inv_flush split: list.splits prod.splits dest!: inv_run_batch)

lemma inv_on_store_result:
  assumes "store_results s = ok # rest" and "actor_inv s"
  shows "actor_inv (snd (on_store_result Y S ok (s\<lparr>store_results := rest\<rparr>)))"
proof -
  have st: "storing s" using assms by (auto simp: actor_inv_defs split: if_splits)
  have "actor_inv (s\<lparr>store_results := rest, storing := False\<rparr>)"
    using assms st by (auto simp: actor_inv_defs conns_ok_def)
  moreover have "actor_inv t \<Longrightarrow> actor_inv (mark_dirty og t)" for t og
    by (auto simp: actor_inv_defs conns_ok_def mark_dirty_def split: option.split)
  ultimately show ?thesis
    unfolding on_store_result_def Let_def by (intro inv_maybe_unload) auto
qed

lemma inv_on_deadline: "actor_inv s \<Longrightarrow> actor_inv (snd (on_deadline Y S s))"
proof -
  assume inv: "actor_inv s"
  then have "actor_inv (spawn_store Y s)"
    by (auto simp: spawn_store_def actor_inv_defs conns_ok_def)
  then show ?thesis using inv by (simp add: on_deadline_def inv_maybe_unload inv_run_store)
qed

lemma inv_store_task: "actor_inv s \<Longrightarrow> actor_inv (store_task S s)"
  by (auto simp: store_task_def actor_inv_defs conns_ok_def split: list.splits prod.splits if_splits)

lemma inv_actor_step: "actor_step Y S E s s' \<Longrightarrow> actor_inv s \<Longrightarrow> actor_inv s'"
proof (induction rule: actor_step.induct)
  case (commands s s')
  then show ?case by (blast intro: inv_on_commands)
next
  case (stored s ok rest s')
  then show ?case using inv_on_store_result [of s ok rest Y S] by simp
next
  case (timer s s')
  then show ?case using inv_on_deadline [of s Y S] by simp
next
  case (task s)
  then show ?case by (simp add: inv_store_task)
next
  case (tick s n)
  then show ?case by (auto simp: actor_inv_defs conns_ok_def)
qed simp_all

lemma spawn_frames:
  "doc_name (spawn Y S nm cs now reg w) = nm" "connections (spawn Y S nm cs now reg w) = []"
  "clock (spawn Y S nm cs now reg w) = now" "dirty (spawn Y S nm cs now reg w) = False"
  "storing (spawn Y S nm cs now reg w) = False" "store_tasks (spawn Y S nm cs now reg w) = []"
  "store_results (spawn Y S nm cs now reg w) = []"
  by (simp_all add: spawn_def Let_def case_prod_beta)

lemma inv_spawn: "actor_inv (spawn Y S nm cs now reg w)"
  by (simp add: spawn_def Let_def case_prod_beta actor_inv_defs conns_ok_def)

lemma inv_reach:
  assumes "actor_reach Y S E s0 s" and "actor_inv s0"
  shows "actor_inv s"
  using assms by (induction rule: actor_reach.induct) (auto intro: inv_actor_step)

text \<open>An exit leaves the invariant intact as well.\<close>

lemma inv_actor_exit: "actor_exit Y S s s' \<Longrightarrow> actor_inv s \<Longrightarrow> actor_inv s'"
proof (induction rule: actor_exit.induct)
  case (exit_commands s s')
  then show ?case by (blast intro: inv_on_commands)
next
  case (exit_stored s ok rest s')
  then show ?case using inv_on_store_result [of s ok rest Y S] by simp
next
  case (exit_timer s s')
  then show ?case using inv_on_deadline [of s Y S] by simp
qed

section \<open>Bounded queues\<close>

lemma moves_chans_grow: "moves Y S s s' \<Longrightarrow> chans_grow (chans s) (chans s')"
proof -
  have "chans (apply_and_broadcast Y S u og t) = chans t" for u og t
    by (cases rule: apply_and_broadcast_cases [of Y u S og t]) (simp_all add: mark_dirty_def)
  then show "moves Y S s s' \<Longrightarrow> chans_grow (chans s) (chans s')"
    unfolding moves_def by (metis chans_grow_trans keepsD(13))
qed

lemma run_store_frame [simp]:
  "chans (run_store Y S s) = chans s" "connections (run_store Y S s) = connections s"
  "ydoc (run_store Y S s) = ydoc s" "doc_name (run_store Y S s) = doc_name s"
  "broadcast_base (run_store Y S s) = broadcast_base s"
  "broadcast_pending (run_store Y S s) = broadcast_pending s"
  "storing (run_store Y S s) = storing s" "store_tasks (run_store Y S s) = store_tasks s"
  "store_results (run_store Y S s) = store_results s" "acks (run_store Y S s) = acks s"
  "registry (run_store Y S s) = registry s" "clock (run_store Y S s) = clock s" "rx (run_store Y S s) = rx s"
  by (simp_all add: run_store_def Let_def split: prod.split)

lemma maybe_unload_frame [simp]:
  "chans (snd (maybe_unload Y S s)) = chans s" "connections (snd (maybe_unload Y S s)) = connections s"
  "ydoc (snd (maybe_unload Y S s)) = ydoc s" "doc_name (snd (maybe_unload Y S s)) = doc_name s"
  "broadcast_base (snd (maybe_unload Y S s)) = broadcast_base s"
  "broadcast_pending (snd (maybe_unload Y S s)) = broadcast_pending s"
  "storing (snd (maybe_unload Y S s)) = storing s" "store_tasks (snd (maybe_unload Y S s)) = store_tasks s"
  "store_results (snd (maybe_unload Y S s)) = store_results s" "acks (snd (maybe_unload Y S s)) = acks s"
  "clock (snd (maybe_unload Y S s)) = clock s" "rx (snd (maybe_unload Y S s)) = rx s"
  by (cases rule: maybe_unload_cases [of s S Y]; simp)+

lemma handle_command_chans:
  assumes "conns_ok s" and "handle_command Y S cmd s = Some (x, s')"
  shows "chans_grow (chans s) (chans s')"
proof (cases cmd)
  case (AddConnection h ack)
  then show ?thesis
    using assms keepsD(13) [OF keeps_add_connection] by (auto simp: handle_command_def Let_def)
next
  case (ClientFrame cid data)
  then show ?thesis
    using assms by (auto simp: handle_command_def intro: moves_chans_grow moves_handle_client_frame)
next
  case (RemoveConnection cid)
  then have "s' = snd (maybe_unload Y S (remove_connection Y S cid s))"
    using assms by (simp add: handle_command_def)
  then show ?thesis using keepsD(13) [OF keeps_remove_connection] by simp
next
  case (ExternalFrame data reply)
  then show ?thesis
    using assms by (auto simp: handle_command_def intro: moves_chans_grow moves_handle_external_frame)
next
  case (DirectApply u ack)
  then show ?thesis
    using assms moves_chans_grow [OF moves_apply] by (auto simp: handle_command_def Let_def)
qed

lemma run_batch_chans:
  "run_batch Y S cs s = Some (x, s') \<Longrightarrow> actor_inv s \<Longrightarrow> chans_grow (chans s) (chans s')"
proof (induction cs arbitrary: s)
  case (Cons c cs)
  have ok: "conns_ok s" using Cons.prems(2) by (simp add: actor_inv_def)
  from Cons.prems(1) obtain b t where t: "handle_command Y S c s = Some (b, t)" and
    r: "if b then s' = t else run_batch Y S cs t = Some (x, s')"
    by (auto split: option.splits prod.splits bool.splits)
  have "chans_grow (chans s) (chans t)" by (rule handle_command_chans [OF ok t])
  moreover have "\<not> b \<Longrightarrow> chans_grow (chans t) (chans s')"
    using Cons.IH [of t] r inv_handle_command [OF Cons.prems(2) t] by simp
  ultimately show ?case using r by (auto split: if_splits intro: chans_grow_trans)
qed simp

lemma flush_chans: "chans_grow (chans s) (chans (flush_broadcast Y s))"
  using keepsD(13) [OF keeps_flush, of s Y] by (simp add: flush_cleared_def split: if_splits)

lemma on_commands_chans:
  "on_commands Y S s = Some (x, s') \<Longrightarrow> actor_inv s \<Longrightarrow> chans_grow (chans s) (chans s')"
  by (auto simp: on_commands_def split: list.splits prod.splits
      intro: chans_grow_trans [OF _ flush_chans] dest!: run_batch_chans)

lemma bounded_actor_step:
  "actor_step Y S E s s' \<Longrightarrow> actor_inv s \<Longrightarrow> queues_bounded (chans s) \<Longrightarrow> queues_bounded (chans s')"
proof (induction rule: actor_step.induct)
  case (commands s s')
  then show ?case by (blast intro: chans_grow_bounded on_commands_chans)
next
  case (stored s ok rest s')
  then have "s' = snd (on_store_result Y S ok (s\<lparr>store_results := rest\<rparr>))" by simp
  then show ?case using stored by (simp add: on_store_result_def Let_def mark_dirty_def)
next
  case (timer s s')
  then have "s' = snd (on_deadline Y S s)" by simp
  then show ?case using timer by (simp add: on_deadline_def spawn_store_def)
next
  case (task s)
  then show ?case by (simp add: store_task_def split: list.split prod.split)
next
  case (deliver s ch m q)
  then have "Suc (length q) \<le> cap (chans s ch)"
    unfolding queues_bounded_def by (metis length_Cons)
  then show ?case using deliver by (simp add: queues_bounded_def)
next
  case (hang_up s ch)
  then show ?case by (simp add: queues_bounded_def)
next
  case (other_send s cs)
  then show ?case by (simp add: chans_grow_bounded)
qed simp_all

end
