(* ===== verification/Lib0.thy ===== *)
theory Lib0
  imports Wire
begin

text \<open>
  A concrete instance of the wire encoding: lib0's variable-length integers (seven bits to a byte,
  least significant group first, the high bit set on every byte but the last) and
  length-prefixed strings and buffers. It shows that the laws of \<open>wire_codec\<close> can hold, and the
  concrete inputs of the witnesses are built with it. The server's definitions never mention it.
\<close>

fun leb_enc :: "nat \<Rightarrow> bytes" where
  "leb_enc n = (if n < 128 then [word_of_nat n]
     else word_of_nat (128 + n mod 128) # leb_enc (n div 128))"

declare leb_enc.simps [simp del]

fun leb_dec :: "bytes \<Rightarrow> (nat \<times> bytes) option" where
  "leb_dec [] = None"
| "leb_dec (b # bs) =
     (if unat b < 128 then Some (unat b, bs)
      else map_option (\<lambda>(m, r). (unat b - 128 + 128 * m, r)) (leb_dec bs))"

definition blob_enc :: "bytes \<Rightarrow> bytes" where
  "blob_enc b = leb_enc (length b) @ b"

definition blob_dec :: "bytes \<Rightarrow> read_error + bytes \<times> bytes" where
  "blob_dec bs =
     (case leb_dec bs of
        None \<Rightarrow> Inl DecodeError
      | Some (n, r) \<Rightarrow>
          if n < max_len \<and> n \<le> length r then Inr (take n r, drop n r) else Inl DecodeError)"

definition lib0 :: codec where
  "lib0 = \<lparr>enc_string = (\<lambda>s. blob_enc (as_bytes s)),
           enc_var = (\<lambda>n. leb_enc (unat n)),
           enc_buf = blob_enc,
           dec_string = (\<lambda>bs. map_sum id (map_prod of_bytes id) (blob_dec bs)),
           dec_var = (\<lambda>bs. case leb_dec bs of
               None \<Rightarrow> Inl DecodeError
             | Some (n, r) \<Rightarrow> if n < 2 ^ 64 then Inr (word_of_nat n, r) else Inl DecodeError),
           dec_buf = blob_dec,
           after_bad_string = (\<lambda>bs. case leb_dec bs of None \<Rightarrow> [] | Some (_, r) \<Rightarrow> r)\<rparr>"

lemma leb_roundtrip [simp]: "leb_dec (leb_enc n @ r) = Some (n, r)"
proof (induction n arbitrary: r rule: leb_enc.induct)
  case (1 n)
  show ?case
  proof (cases "n < 128")
    case True
    then have "unat (word_of_nat n :: u8) = n" by (simp add: unat_of_nat)
    with True show ?thesis by (simp add: leb_enc.simps [of n])
  next
    case False
    let ?b = "word_of_nat (128 + n mod 128) :: u8"
    have b: "unat ?b = 128 + n mod 128" by (subst unat_of_nat) simp
    have "leb_dec (leb_enc n @ r) = leb_dec (?b # leb_enc (n div 128) @ r)"
      using False by (simp add: leb_enc.simps [of n])
    also have "\<dots> = Some (n mod 128 + 128 * (n div 128), r)"
      using 1 [OF False] b by (simp del: of_nat_add)
    finally show ?thesis by simp
  qed
qed

lemma blob_roundtrip [simp]: "length b < max_len \<Longrightarrow> blob_dec (blob_enc b @ r) = Inr (b, r)"
  by (simp add: blob_dec_def blob_enc_def)

interpretation l0: wire_codec lib0
proof
  fix s :: string and n :: u64 and b r :: bytes
  show "length s < max_len \<Longrightarrow> dec_string lib0 (enc_string lib0 s @ r) = Inr (s, r)"
    by (simp add: lib0_def)
  show "dec_var lib0 (enc_var lib0 n @ r) = Inr (n, r)"
    using unsigned_less [of n, where ?'a = nat] by (simp add: lib0_def)
  show "length b < max_len \<Longrightarrow> dec_buf lib0 (enc_buf lib0 b @ r) = Inr (b, r)"
    by (simp add: lib0_def)
qed

section \<open>Witness of the protocol's laws\<close>

theorem outgoing_frames_parse_witness:
  "frame_reads_as lib0 (out_stateless lib0 ''hi'' (out_new lib0 ''doc'')) ''doc'' Stateless
     (enc_string lib0 ''hi'')"
  using outgoing_frames_parse [OF l0.wire_codec_axioms, of "''doc''"] by simp

end
