(* ===== verification/Opset.thy ===== *)
theory Opset
  imports Yrs Lib0
begin

text \<open>
  A small concrete instance of the \<open>yjs\<close> laws: a document is the list of the operations it holds,
  each named by a byte, and its state vector is that list. It shows that the laws can hold together
  and gives the witnesses executable documents. The server's definitions never mention it.
\<close>

fun chunk8 :: "bytes \<Rightarrow> u64 list" where
  "chunk8 (a # b # c # d # e # f # g # h # bs) = word_of_nat (le_nat [a, b, c, d, e, f, g, h]) # chunk8 bs"
| "chunk8 _ = []"

definition news :: "'x list \<Rightarrow> 'x list \<Rightarrow> 'x list" where
  "news old xs = filter (\<lambda>x. x \<notin> set old) xs"

fun opset_sync_encode :: "bytes sync_message \<Rightarrow> bytes" where
  "opset_sync_encode (SyncStep1 v) = 0 # v"
| "opset_sync_encode (SyncStep2 b) = 1 # blob_enc b"
| "opset_sync_encode (Update b) = 2 # blob_enc b"

fun opset_sync_decode :: "bytes \<Rightarrow> bytes sync_message option" where
  "opset_sync_decode [] = None"
| "opset_sync_decode (t # bs) =
     (if t = 0 then Some (SyncStep1 bs)
      else case blob_dec bs of
             Inl _ \<Rightarrow> None
           | Inr (b, _) \<Rightarrow> if t = 1 then Some (SyncStep2 b) else if t = 2 then Some (Update b) else None)"

definition opset :: "(bytes, bytes, bytes, u64 list, u64 list) yrs" where
  "opset = \<lparr>wire = lib0,
      new_doc = (\<lambda>_. []), state_vector = id, default_sv = [],
      encode_diff_v1 = (\<lambda>d v. news v d), encode_state_as_update_v1 = (\<lambda>d v. news v d),
      decode_v1 = Some, apply_update = (\<lambda>u d. (True, d @ news d u)),
      encode_update_v1 = (\<lambda>u d. news d u),
      sync_encode = opset_sync_encode, sync_decode = opset_sync_decode,
      aw_new = [], aw_states = id, aw_update = Some, aw_update_with_clients = (\<lambda>cs a. Some cs),
      aw_apply = (\<lambda>p _ a. (True, a @ news a p)), aw_remove_state = removeAll,
      aw_encode = (\<lambda>p. concat (map (\<lambda>c. le_bytes 8 (unat c)) p)), aw_decode = (\<lambda>b. Some (chunk8 b)),
      aw_clients = id\<rparr>"

definition opset_leq :: "bytes \<Rightarrow> bytes \<Rightarrow> bool" where
  "opset_leq d d' \<longleftrightarrow> set d \<subseteq> set d'"

lemma opset_sync_roundtrip: "sync_fits m \<Longrightarrow> opset_sync_decode (opset_sync_encode m) = Some m"
  using blob_roundtrip [of _ "[]"] by (cases m) auto

lemma chunk8_eight:
  assumes "length xs = 8"
  shows "chunk8 (xs @ bs) = word_of_nat (le_nat xs) # chunk8 bs"
proof -
  obtain a1 a2 a3 a4 a5 a6 a7 a8 where "xs = [a1, a2, a3, a4, a5, a6, a7, a8]"
    using assms by (auto simp: length_Suc_conv numeral_eq_Suc)
  then show ?thesis by simp
qed

lemma chunk8_le_bytes: "chunk8 (le_bytes 8 (unat c) @ bs) = c # chunk8 bs"
  using unsigned_less [of c, where ?'a = nat] by (simp add: chunk8_eight le_nat_le_bytes)

lemma opset_aw_roundtrip: "aw_decode opset (aw_encode opset p) = Some p"
  by (simp add: opset_def, induction p) (simp_all add: chunk8_le_bytes)

lemma news_Nil_iff: "news old xs = [] \<longleftrightarrow> set xs \<subseteq> set old"
  by (auto simp: news_def filter_empty_conv)

interpretation ops: yjs opset opset_leq
proof
  fix m :: "bytes sync_message"
  show "sync_fits m \<Longrightarrow> sync_decode opset (sync_encode opset m) = Some m"
    by (simp add: opset_def opset_sync_roundtrip)
next
  fix u d :: bytes
  show "encode_update_v1 opset u d = [] \<Longrightarrow> snd (apply_update opset u d) = d"
    by (simp add: opset_def)
next
  fix b d :: bytes
  show "encode_diff_v1 opset d (state_vector opset b) = [] \<Longrightarrow> opset_leq d b"
    by (simp add: opset_def opset_leq_def news_Nil_iff)
qed (auto simp: opset_def opset_leq_def news_def l0.dec_string_enc l0.dec_var_enc l0.dec_buf_enc)

end
