(* ===== verification/Document_Sync.thy ===== *)
theory Document_Sync
  imports Document_Inv Opset
begin

text \<open>
  Delivery of document changes. A connected client's replica is its own document after it has read
  everything in its outbound queue. The theory shows that one iteration of the actor's loop, whatever
  commands its batch holds, leaves every client that was up to date and is still connected up to date:
  the single merged frame of the coalesced broadcast carries all changes of the batch. It also shows
  that the answer to a \<open>SyncStep1\<close> brings a client up to date.
\<close>

section \<open>The client's view\<close>

text \<open>What a client does with a message: apply the update of a \<open>SyncStep2\<close> or an \<open>Update\<close>.\<close>

fun receive :: "('d, 'v, 'u, 'a, 'p) yrs \<Rightarrow> out_msg \<Rightarrow> 'd \<Rightarrow> 'd" where
  "receive Y (Close e) d = d"
| "receive Y (Frame f) d =
     (case parse (wire Y) f of
        Inl _ \<Rightarrow> d
      | Inr frame \<Rightarrow>
          if message_type frame = Sync \<or> message_type frame = SyncReply then
            (case sync_decode Y (decoder frame) of
               Some (SyncStep2 u) \<Rightarrow> (case decode_v1 Y u of Some up \<Rightarrow> snd (apply_update Y up d) | None \<Rightarrow> d)
             | Some (Update u) \<Rightarrow> (case decode_v1 Y u of Some up \<Rightarrow> snd (apply_update Y up d) | None \<Rightarrow> d)
             | _ \<Rightarrow> d)
          else d)"

definition replica :: "('d, 'v, 'u, 'a, 'p) yrs \<Rightarrow> 'd \<Rightarrow> out_msg list \<Rightarrow> 'd" where
  "replica Y p ms = fold (receive Y) ms p"

text \<open>The client behind a channel holds, or has in its queue, everything the server's document holds.\<close>

definition caught_up ::
    "('d, 'v, 'u, 'a, 'p) yrs \<Rightarrow> ('d \<Rightarrow> 'd \<Rightarrow> bool) \<Rightarrow> ('d, 'v, 'a, 'j, 'w) document \<Rightarrow> 'd \<Rightarrow> nat \<Rightarrow> bool" where
  "caught_up Y leq s p ch \<longleftrightarrow> leq (ydoc s) (replica Y p (queue (chans s ch)))"

text \<open>In the middle of a batch it holds the base from which the pending broadcast will be cut.\<close>

definition covered ::
    "('d, 'v, 'u, 'a, 'p) yrs \<Rightarrow> ('d \<Rightarrow> 'd \<Rightarrow> bool) \<Rightarrow> ('d, 'v, 'a, 'j, 'w) document \<Rightarrow> 'd \<Rightarrow> nat \<Rightarrow> bool" where
  "covered Y leq s p ch \<longleftrightarrow>
     (case broadcast_base s of
        None \<Rightarrow> caught_up Y leq s p ch
      | Some v \<Rightarrow> \<exists>b. v = state_vector Y b \<and> leq b (replica Y p (queue (chans s ch))))"

text \<open>A client at work beside the actor: it reads its queue from the front, edits its own replica, and
  everything else that happens at the server only adds to its queue. \<open>served\<close> says that the client
  is registered with an open channel and that the document is small enough to be framed.\<close>

definition served ::
    "('d, 'v, 'u, 'a, 'p) yrs \<Rightarrow> nat \<Rightarrow> ('d, 'v, 'a, 'j, 'w) document \<Rightarrow> bool" where
  "served Y ch s \<longleftrightarrow>
     (\<exists>kc \<in> set (connections s). outbound (snd kc) = ch \<and> length (conn_address (snd kc)) < max_len) \<and>
     \<not> chan_closed (chans s ch) \<and> (\<forall>v. length (encode_diff_v1 Y (ydoc s) v) < max_len)"

inductive client_run ::
    "('d, 'v, 'u, 'a, 'p) yrs \<Rightarrow> ('d, 'j, 'w) server \<Rightarrow> ('w \<Rightarrow> 'w \<Rightarrow> bool) \<Rightarrow> ('d \<Rightarrow> 'd \<Rightarrow> bool) \<Rightarrow> nat \<Rightarrow>
       ('d, 'v, 'a, 'j, 'w) document \<Rightarrow> 'd \<Rightarrow> ('d, 'v, 'a, 'j, 'w) document \<Rightarrow> 'd \<Rightarrow> bool"
  for Y :: "('d, 'v, 'u, 'a, 'p) yrs" and S :: "('d, 'j, 'w) server" and E :: "'w \<Rightarrow> 'w \<Rightarrow> bool"
    and leq :: "'d \<Rightarrow> 'd \<Rightarrow> bool" and ch :: nat and s0 :: "('d, 'v, 'a, 'j, 'w) document" and p0 :: 'd where
  run_start: "client_run Y S E leq ch s0 p0 s0 p0"
| run_server: "client_run Y S E leq ch s0 p0 s p \<Longrightarrow> actor_step Y S E s s' \<Longrightarrow> served Y ch s' \<Longrightarrow>
    queue (chans s' ch) = queue (chans s ch) @ ms \<Longrightarrow> client_run Y S E leq ch s0 p0 s' p"
| run_read: "client_run Y S E leq ch s0 p0 s p \<Longrightarrow> queue (chans s ch) = m # q \<Longrightarrow>
    client_run Y S E leq ch s0 p0 (s\<lparr>chans := (chans s)(ch := (chans s ch)\<lparr>queue := q\<rparr>)\<rparr>) (receive Y m p)"
| run_edit: "client_run Y S E leq ch s0 p0 s p \<Longrightarrow> leq p p' \<Longrightarrow> client_run Y S E leq ch s0 p0 s p'"

section \<open>Who gets a broadcast\<close>

lemma send_frame_outcome:
  "send_frame conn f cs = (ok, cs') \<Longrightarrow>
     \<not> ok \<or> chan_closed (cs (outbound conn)) \<or>
     queue (cs' (outbound conn)) = queue (cs (outbound conn)) @ [Frame f]"
  by (auto simp: send_frame_def chan_send_def try_send_def split: prod.splits if_splits)

lemma chans_growD: "chans_grow cs cs' \<Longrightarrow> \<exists>ms. queue (cs' ch) = queue (cs ch) @ ms"
  unfolding chans_grow_def by blast

lemma chans_grow_closed: "chans_grow cs cs' \<Longrightarrow> chan_closed (cs' ch) = chan_closed (cs ch)"
  unfolding chans_grow_def by blast

lemma broadcast_loop_delivers:
  assumes "broadcast_loop mk a (mk a) conns cs = (lag, cs')" and "c \<in> set conns"
  shows "conn_id c \<in> set lag \<or> chan_closed (cs (outbound c)) \<or>
    (\<exists>ms ms'. queue (cs' (outbound c)) = queue (cs (outbound c)) @ ms @ Frame (mk (conn_address c)) # ms')"
  using assms
proof (induction conns arbitrary: cs lag cs')
  case (Cons d conns)
  obtain ok cs1 where s: "send_frame d (mk (conn_address d)) cs = (ok, cs1)" by (cases "send_frame d (mk (conn_address d)) cs")
  obtain lag1 cs2 where l: "broadcast_loop mk a (mk a) conns cs1 = (lag1, cs2)" by (cases "broadcast_loop mk a (mk a) conns cs1")
  have frame: "(if conn_address d = a then mk a else mk (conn_address d)) = mk (conn_address d)" by simp
  have res: "cs' = cs2" "lag = (if ok then lag1 else conn_id d # lag1)"
    using Cons.prems(1) by (simp_all add: frame s l Let_def)
  have g1: "chans_grow cs cs1" using send_frame_grow [of cs d "mk (conn_address d)"] by (simp add: s)
  have g2: "chans_grow cs1 cs2" using broadcast_loop_grow [of cs1 mk a "mk a" conns] by (simp add: l)
  show ?case
  proof (cases "c \<in> set conns")
    case True
    obtain ms0 where q: "queue (cs1 (outbound c)) = queue (cs (outbound c)) @ ms0"
      using chans_growD [OF g1] by blast
    have "conn_id c \<in> set lag1 \<or> chan_closed (cs1 (outbound c)) \<or>
      (\<exists>ms ms'. queue (cs2 (outbound c)) = queue (cs1 (outbound c)) @ ms @ Frame (mk (conn_address c)) # ms')"
      by (rule Cons.IH [OF l True])
    moreover have "\<exists>ms ms'. queue (cs2 (outbound c)) = queue (cs (outbound c)) @ ms @ Frame (mk (conn_address c)) # ms'"
      if "queue (cs2 (outbound c)) = queue (cs1 (outbound c)) @ ms @ Frame (mk (conn_address c)) # ms'" for ms ms'
      using that q by (intro exI [of _ "ms0 @ ms"] exI [of _ ms']) simp
    ultimately show ?thesis
      using chans_grow_closed [OF g1] by (auto simp: res)
  next
    case False
    then have "c = d" using Cons.prems(2) by simp
    moreover obtain ms' where "queue (cs2 (outbound d)) = queue (cs1 (outbound d)) @ ms'"
      using chans_growD [OF g2] by blast
    ultimately show ?thesis
      using send_frame_outcome [OF s] by (auto simp: res) (metis append_Nil)
  qed
qed simp

lemma evicted_are_gone:
  "distinct (map fst (connections s)) \<Longrightarrow> (k, c) \<in> set (connections (evict_lagging Y ids s)) \<Longrightarrow>
     k \<notin> set ids \<and> (k, c) \<in> set (connections s)"
proof (induction ids arbitrary: s)
  case (Cons i ids)
  let ?t = "case map_of (connections s) i of None \<Rightarrow> s
    | Some conn \<Rightarrow> s\<lparr>connections := AList.delete i (connections s),
        awareness := fold (aw_remove_state Y) (client_ids conn) (awareness s),
        chans := send_close conn RESET_CONNECTION (chans s)\<rparr>"
  have d: "distinct (map fst (connections ?t))"
    using Cons.prems(1) by (auto split: option.split simp: distinct_delete)
  have "k \<notin> set ids" "(k, c) \<in> set (connections ?t)"
    using Cons.IH [OF d] Cons.prems(2) by auto
  then show ?case
    by (auto split: option.splits dest: map_of_deleteD simp: map_of_eq_None_iff image_iff)
qed simp

lemma broadcast_with_delivers:
  assumes "conns_ok s" and "(k, c) \<in> set (connections (broadcast_with Y mk s))"
    and "\<not> chan_closed (chans s (outbound c))"
  shows "\<exists>ms ms'. queue (chans (broadcast_with Y mk s) (outbound c)) =
    queue (chans s (outbound c)) @ ms @ Frame (mk (conn_address c)) # ms'"
proof -
  obtain lag cs where l: "broadcast_loop mk (doc_name s) (mk (doc_name s)) (map snd (connections s)) (chans s) = (lag, cs)"
    by (cases "broadcast_loop mk (doc_name s) (mk (doc_name s)) (map snd (connections s)) (chans s)")
  have b: "broadcast_with Y mk s = evict_lagging Y lag (s\<lparr>chans := cs\<rparr>)"
    by (simp add: broadcast_with_def l Let_def)
  have "distinct (map fst (connections (s\<lparr>chans := cs\<rparr>)))" using assms(1) by (simp add: conns_ok_def)
  then have k: "k \<notin> set lag" "(k, c) \<in> set (connections s)"
    using evicted_are_gone [of "s\<lparr>chans := cs\<rparr>" k c Y lag] assms(2) by (simp_all add: b)
  then have "conn_id c \<notin> set lag" using assms(1) by (auto simp: conns_ok_def)
  then obtain ms ms' where q: "queue (cs (outbound c)) = queue (chans s (outbound c)) @ ms @ Frame (mk (conn_address c)) # ms'"
    using broadcast_loop_delivers [OF l, of c] k(2) assms(3) by force
  have "chans_grow cs (chans (broadcast_with Y mk s))"
    using evict_lagging_shape [of Y lag "s\<lparr>chans := cs\<rparr>"] by (auto simp: b)
  then obtain ms'' where "queue (chans (broadcast_with Y mk s) (outbound c)) = queue (cs (outbound c)) @ ms''"
    using chans_growD by blast
  then show ?thesis using q by auto
qed

section \<open>Replicas only grow\<close>

context yjs
begin

lemma receive_adds: "leq d (receive Y m d)"
  by (cases m) (auto simp: leq_refl apply_adds split: sum.split option.split sync_message.split)

lemma replica_append: "replica Y p (xs @ ys) = replica Y (replica Y p xs) ys"
  by (simp add: replica_def)

lemma replica_adds: "leq p (replica Y p ms)"
  unfolding replica_def
proof (induction ms arbitrary: p)
  case (Cons m ms)
  then show ?case using leq_trans [OF receive_adds Cons.IH] by simp
qed (simp add: leq_refl)

lemma receive_mono: "leq d d' \<Longrightarrow> leq (receive Y m d) (receive Y m d')"
  by (cases m) (auto simp: apply_mono split: sum.split option.split sync_message.split)

lemma replica_start_mono: "leq p p' \<Longrightarrow> leq (replica Y p ms) (replica Y p' ms)"
  unfolding replica_def by (induction ms arbitrary: p p') (auto simp: receive_mono simp del: receive.simps)

lemma replica_mono: "chans_grow cs cs' \<Longrightarrow> leq (replica Y p (queue (cs ch))) (replica Y p (queue (cs' ch)))"
  using chans_growD [of cs cs' ch] replica_adds by (auto simp: replica_append)

text \<open>A client that holds the base and reads the frame with the diff has everything.\<close>

lemma receive_sync_frame:
  assumes "length a < max_len" and "sync_fits m"
  shows "receive Y (Frame (into_bytes (write_sync_payload (encode_sync Y m) (out_sync (wire Y) (out_new (wire Y) a))))) d =
    (case m of SyncStep1 _ \<Rightarrow> d
     | SyncStep2 u \<Rightarrow> (case decode_v1 Y u of Some up \<Rightarrow> snd (apply_update Y up d) | None \<Rightarrow> d)
     | Update u \<Rightarrow> (case decode_v1 Y u of Some up \<Rightarrow> snd (apply_update Y up d) | None \<Rightarrow> d))"
proof -
  have "parse (wire Y) (into_bytes (write_sync_payload (encode_sync Y m) (out_sync (wire Y) (out_new (wire Y) a)))) =
    Inr \<lparr>routing_key = a, message_type = Sync, decoder = sync_encode Y m\<rparr>"
    using parse_frame [OF assms(1) from_u64_type_code, of Sync "sync_encode Y m"]
    by (simp add: out_defs encode_sync_def)
  then show ?thesis using sync_roundtrip [OF assms(2)] by (simp split: sync_message.split)
qed

lemma diff_brings_up_to_date:
  assumes "leq b p" and "decode_v1 Y (encode_diff_v1 Y d (state_vector Y b)) = Some u"
  shows "leq d (snd (apply_update Y u p))"
  using diff_applies [OF assms(1), of d] assms(2) by auto

lemma caught_up_keeps: "keeps S s s' \<Longrightarrow> caught_up Y leq s p ch \<Longrightarrow> caught_up Y leq s' p ch"
  unfolding caught_up_def
  by (simp add: keepsD(2)) (rule leq_trans, assumption, rule replica_mono, rule keepsD(13))

lemma covered_keeps: "keeps S s s' \<Longrightarrow> covered Y leq s p ch \<Longrightarrow> covered Y leq s' p ch"
proof (cases "broadcast_base s")
  case None
  moreover assume "keeps S s s'" "covered Y leq s p ch"
  ultimately show ?thesis using caught_up_keeps by (simp add: covered_def keepsD(10))
next
  case (Some v)
  assume k: "keeps S s s'" and "covered Y leq s p ch"
  with Some obtain b where "v = state_vector Y b" "leq b (replica Y p (queue (chans s ch)))"
    by (auto simp: covered_def)
  then show ?thesis
    using Some leq_trans [OF _ replica_mono [OF keepsD(13) [OF k]]] by (auto simp: covered_def keepsD(10) [OF k])
qed

lemma apply_and_broadcast_adds: "leq (ydoc s) (ydoc (apply_and_broadcast Y S u og s))"
proof (cases rule: apply_and_broadcast_cases [of Y u S og s])
  case (booked up d w)
  then show ?thesis using apply_adds [of "ydoc s" up] by (simp add: mark_dirty_def)
qed (simp_all add: leq_refl apply_adds)

lemma covered_apply:
  assumes "covered Y leq s p ch"
  shows "covered Y leq (apply_and_broadcast Y S u og s) p ch"
proof (cases rule: apply_and_broadcast_cases [of Y u S og s])
  case undecoded
  then show ?thesis using assms by simp
next
  case (unbooked up d)
  then have "d = ydoc s" using apply_error empty_transaction by blast
  then show ?thesis using assms unbooked by (simp add: covered_def caught_up_def)
next
  case (booked up d w)
  then show ?thesis
    using assms by (auto simp: covered_def caught_up_def mark_dirty_def split: option.splits)
qed

lemma covered_moves: "moves Y S s s' \<Longrightarrow> covered Y leq s p ch \<Longrightarrow> covered Y leq s' p ch"
  unfolding moves_def using covered_keeps covered_apply by blast

lemma covered_maybe_unload: "covered Y leq (snd (maybe_unload Y S s)) p ch = covered Y leq s p ch"
  by (simp add: covered_def caught_up_def split: option.split)

lemma covered_handle_command:
  assumes "conns_ok s" and "handle_command Y S cmd s = Some (x, s')" and cov: "covered Y leq s p ch"
  shows "covered Y leq s' p ch"
proof (cases cmd)
  case (AddConnection h ack)
  then show ?thesis
    using assms covered_keeps [OF keeps_trans [OF keeps_add_connection keeps_acks] cov]
    by (auto simp: handle_command_def Let_def)
next
  case (ClientFrame cid data)
  then show ?thesis
    using assms by (auto simp: handle_command_def intro: covered_moves moves_handle_client_frame)
next
  case (RemoveConnection cid)
  then have "s' = snd (maybe_unload Y S (remove_connection Y S cid s))"
    using assms by (simp add: handle_command_def)
  then show ?thesis
    using covered_keeps [OF keeps_remove_connection cov] by (simp add: covered_maybe_unload)
next
  case (ExternalFrame data reply)
  then show ?thesis
    using assms by (auto simp: handle_command_def intro: covered_moves moves_handle_external_frame)
next
  case (DirectApply u ack)
  then show ?thesis
    using assms covered_keeps [OF keeps_acks covered_apply [OF cov]] by (auto simp: handle_command_def Let_def)
qed

lemma covered_run_batch:
  "run_batch Y S cs s = Some (x, s') \<Longrightarrow> actor_inv s \<Longrightarrow> covered Y leq s p ch \<Longrightarrow> covered Y leq s' p ch"
proof (induction cs arbitrary: s)
  case (Cons c cs)
  have ok: "conns_ok s" using Cons.prems(2) by (simp add: actor_inv_def)
  from Cons.prems(1) obtain b t where t: "handle_command Y S c s = Some (b, t)" and
    r: "if b then s' = t else run_batch Y S cs t = Some (x, s')"
    by (auto split: option.splits prod.splits bool.splits)
  then show ?case
    using Cons.IH [of t] covered_handle_command [OF ok t Cons.prems(3)] inv_handle_command [OF Cons.prems(2) t]
    by (auto split: if_splits)
qed simp

lemma flush_catches_up:
  assumes "broadcast_ok s" and "conns_ok s" and "covered Y leq s p (outbound c)"
    and "(k, c) \<in> set (connections (flush_broadcast Y s))" and "\<not> chan_closed (chans s (outbound c))"
    and "length (conn_address c) < max_len" and "\<And>v. length (encode_diff_v1 Y (ydoc s) v) < max_len"
  shows "caught_up Y leq (flush_broadcast Y s) p (outbound c)"
proof (cases "broadcast_base s")
  case None
  then show ?thesis using assms by (simp add: covered_def broadcast_ok_def flush_broadcast_def)
next
  case (Some v)
  let ?s = "s\<lparr>broadcast_pending := False, broadcast_base := None\<rparr>"
  let ?m = "encode_diff_v1 Y (ydoc s) v"
  let ?mk = "\<lambda>addr. into_bytes (write_sync_payload (encode_sync Y (Update ?m)) (out_sync (wire Y) (out_new (wire Y) addr)))"
  obtain b where v: "v = state_vector Y b" and b: "leq b (replica Y p (queue (chans s (outbound c))))"
    using assms(3) Some by (auto simp: covered_def)
  have flush: "flush_broadcast Y s = (if ?m = [] then ?s else broadcast_with Y ?mk ?s)"
    using assms(1) Some by (simp add: flush_broadcast_def broadcast_ok_def Let_def)
  show ?thesis
  proof (cases "?m = []")
    case True
    then have "leq (ydoc s) b" using empty_diff v by blast
    then show ?thesis using b leq_trans by (simp add: flush True caught_up_def)
  next
    case False
    obtain ms ms' where q: "queue (chans (broadcast_with Y ?mk ?s) (outbound c)) =
        queue (chans s (outbound c)) @ ms @ Frame (?mk (conn_address c)) # ms'"
      using broadcast_with_delivers [of ?s k c Y ?mk] assms(2,4,5) False by (auto simp: flush conns_ok_def)
    let ?r = "replica Y p (queue (chans s (outbound c)) @ ms)"
    have r: "leq b ?r" using leq_trans [OF b replica_adds] by (simp add: replica_append)
    obtain u where u: "decode_v1 Y ?m = Some u" using diff_applies [OF r, of "ydoc s"] v by blast
    have "receive Y (Frame (?mk (conn_address c))) ?r = snd (apply_update Y u ?r)"
      using receive_sync_frame [OF assms(6), of "Update ?m" ?r] assms(7) by (simp add: u)
    moreover have "leq (ydoc s) (snd (apply_update Y u ?r))"
      using diff_brings_up_to_date [OF r, of "ydoc s" u] u v by simp
    ultimately have "leq (ydoc s) (replica Y p (queue (chans s (outbound c)) @ ms @ Frame (?mk (conn_address c)) # ms'))"
      using leq_trans replica_adds by (fastforce simp: replica_def)
    then show ?thesis using False by (simp add: flush caught_up_def q)
  qed
qed

lemma batch_catches_up:
  assumes "actor_inv s" and "broadcast_base s = None" and "on_commands Y S s = Some (x, s')"
    and "(k, c) \<in> set (connections s')" and "\<not> chan_closed (chans s' (outbound c))"
    and "caught_up Y leq s p (outbound c)"
    and "length (conn_address c) < max_len" and "\<And>v. length (encode_diff_v1 Y (ydoc s') v) < max_len"
  shows "caught_up Y leq s' p (outbound c)"
proof (cases "rx s")
  case Nil
  then show ?thesis using assms by (simp add: on_commands_def)
next
  case (Cons cmd rest)
  obtain batch left t where "run_batch Y S batch (s\<lparr>rx := left\<rparr>) = Some (x, t)" and s': "s' = flush_broadcast Y t"
    using assms(3) Cons by (auto simp: on_commands_def split: prod.splits)
  moreover have "covered Y leq (s\<lparr>rx := left\<rparr>) p (outbound c)"
    using assms(2,6) by (simp add: covered_def caught_up_def)
  ultimately have cov: "covered Y leq t p (outbound c)" and inv: "actor_inv t"
    using covered_run_batch inv_run_batch assms(1) by fastforce+
  have "ydoc s' = ydoc t"
    unfolding s' using keepsD(2) [OF keeps_flush [where s = t and Y = Y]] by (simp add: flush_cleared_def split: if_splits)
  moreover have "chan_closed (chans s' ch) = chan_closed (chans t ch)" for ch
    using chans_grow_closed [OF flush_chans] by (simp add: s')
  ultimately show ?thesis
    using flush_catches_up [where s = t and p = p and c = c and k = k] cov inv assms(4,5,7,8)
    by (simp add: s' actor_inv_def)
qed

lemma sync_step1_catches_up:
  assumes "map_of (connections s) cid = Some c"
    and "sync_decode Y (decoder frame) = Some (SyncStep1 (state_vector Y b))" and "leq b p"
    and "\<not> chan_closed (chans s (outbound c))"
    and "Suc (length (queue (chans s (outbound c)))) < cap (chans s (outbound c))"
    and "length addr < max_len" and "length (encode_diff_v1 Y (ydoc s) (state_vector Y b)) < max_len"
  shows "\<exists>s'. handle_sync Y S cid addr og frame s = Some s' \<and> caught_up Y leq s' p (outbound c)"
proof -
  let ?q = "queue (chans s (outbound c))"
  let ?f = "\<lambda>m. Frame (into_bytes (write_sync_payload (encode_sync Y m) (out_sync (wire Y) (out_new (wire Y) addr))))"
  let ?d = "encode_diff_v1 Y (ydoc s) (state_vector Y b)"
  let ?cs = "(chans s)(outbound c := (chans s (outbound c))
    \<lparr>queue := ?q @ [?f (SyncStep2 ?d), ?f (SyncStep1 (state_vector Y (ydoc s)))]\<rparr>)"
  have "handle_sync Y S cid addr og frame s = Some (s\<lparr>chans := ?cs\<rparr>)"
    using assms(1,2,4,5) by (simp add: handle_sync_def send_frame_def chan_send_def try_send_def)
  moreover have "leq b (replica Y p ?q)" by (rule leq_trans [OF assms(3) replica_adds])
  then have "leq (ydoc s) (receive Y (?f (SyncStep2 ?d)) (replica Y p ?q))"
    using receive_sync_frame [OF assms(6), of "SyncStep2 ?d"] assms(7) diff_applies [of b "replica Y p ?q" "ydoc s"]
    by auto
  then have "leq (ydoc s) (replica Y p (?q @ [?f (SyncStep2 ?d), ?f (SyncStep1 (state_vector Y (ydoc s)))]))"
    using leq_trans [OF _ receive_adds] by (simp add: replica_def del: receive.simps)
  then have "caught_up Y leq (s\<lparr>chans := ?cs\<rparr>) p (outbound c)" by (simp add: caught_up_def)
  ultimately show ?thesis by blast
qed

lemma flushed_after_step:
  assumes "actor_step Y S E s s'" and "actor_inv s" and "broadcast_base s = None"
  shows "broadcast_base s' = None"
  using assms
proof (induction rule: actor_step.induct)
  case (commands s s')
  obtain batch left t x where r: "run_batch Y S batch (s\<lparr>rx := left\<rparr>) = Some (x, t)" and s': "s' = flush_broadcast Y t"
    using commands by (auto simp: on_commands_def split: list.splits prod.splits)
  have "broadcast_ok t" using inv_run_batch [OF r] commands.prems(1) by (simp add: actor_inv_def [of t])
  then show ?case
    using keepsD(10) [OF keeps_flush [where s = t and Y = Y]]
    by (auto simp: s' flush_cleared_def broadcast_ok_def split: if_splits)
next
  case (stored s ok rest s')
  then have "s' = snd (on_store_result Y S ok (s\<lparr>store_results := rest\<rparr>))" by simp
  then show ?case using stored by (simp add: on_store_result_def Let_def mark_dirty_def)
next
  case (timer s s')
  then have "s' = snd (on_deadline Y S s)" by simp
  then show ?case using timer by (simp add: on_deadline_def spawn_store_def)
next
  case (task s)
  then show ?case by (simp add: store_task_def split: list.split prod.split)
qed simp_all

lemma step_keeps_document:
  "actor_step Y S E s s' \<Longrightarrow> ydoc s' = ydoc s \<or> (rx s \<noteq> [] \<and> on_commands Y S s = Some (False, s'))"
proof (induction rule: actor_step.induct)
  case (stored s ok rest s')
  then have "s' = snd (on_store_result Y S ok (s\<lparr>store_results := rest\<rparr>))" by simp
  then show ?case by (simp add: on_store_result_def Let_def mark_dirty_def)
next
  case (timer s s')
  then have "s' = snd (on_deadline Y S s)" by simp
  then show ?case by (simp add: on_deadline_def spawn_store_def)
next
  case (task s)
  then show ?case by (simp add: store_task_def split: list.split prod.split)
qed simp_all

lemma client_run_caught_up:
  assumes "client_run Y S E leq ch s0 p0 s p" and "actor_inv s0" and "broadcast_base s0 = None"
    and "caught_up Y leq s0 p0 ch"
  shows "actor_inv s \<and> broadcast_base s = None \<and> caught_up Y leq s p ch"
  using assms(1)
proof (induction rule: client_run.induct)
  case run_start
  then show ?case using assms by simp
next
  case (run_server s p s' ms)
  obtain k c where c: "(k, c) \<in> set (connections s')" "outbound c = ch" "length (conn_address c) < max_len"
    and open_: "\<not> chan_closed (chans s' ch)" and small: "\<And>v. length (encode_diff_v1 Y (ydoc s') v) < max_len"
    using run_server.hyps(3) by (force simp: served_def)
  have "caught_up Y leq s' p ch"
  proof (cases "ydoc s' = ydoc s")
    case True
    then show ?thesis
      using run_server.IH run_server.hyps(4) leq_trans replica_adds by (auto simp: caught_up_def replica_append)
  next
    case False
    then have "on_commands Y S s = Some (False, s')" using step_keeps_document [OF run_server.hyps(2)] by blast
    then show ?thesis
      using batch_catches_up [of s S False s' k c p] run_server.IH c open_ small by simp
  qed
  then show ?case
    using run_server.IH inv_actor_step [OF run_server.hyps(2)] flushed_after_step [OF run_server.hyps(2)] by blast
next
  case (run_read s p m q)
  then show ?case by (simp add: caught_up_def replica_def del: receive.simps)
next
  case (run_edit s p p')
  then show ?case
    using leq_trans [OF _ replica_start_mono] by (auto simp: caught_up_def)
qed

end

end
