(* ===== verification/Document_Props.thy ===== *)
theory Document_Props
  imports Document_Sync
begin

text \<open>
  The properties of the document actor: it never panics, its bookkeeping invariant holds in every
  reachable state, outbound queues stay within their capacity, the sync handshake is answered, read-only and rejected clients cannot change the document, broadcasts reach every
  remaining client, and a batch of commands is taken from the mailbox in order. Witnesses run on a
  small document over the executable instance \<open>opset\<close>.
\<close>

section \<open>A concrete document for the witnesses\<close>

definition demo_server :: "(bytes, string, unit) server" where
  "demo_server = \<lparr>config = default_configuration, extensions = []\<rparr>"

definition demo_chan :: chan where
  "demo_chan = \<lparr>cap = 8, queue = [], chan_closed = False\<rparr>"

definition demo_conn :: "bool \<Rightarrow> string conn_handle" where
  "demo_conn ro = \<lparr>conn_id = 1, outbound = 0, conn_address = ''doc'', conn_read_only = ro,
     conn_socket_id = ''sock'', conn_session_id = None,
     conn_cell = \<lparr>cell_context = Map.empty, cell_config = default_connection_config\<rparr>,
     conn_request = default_request_meta, conn_provider_version = None, client_ids = []\<rparr>"

definition demo_spawn :: "(bytes, bytes, u64 list, string, unit) document" where
  "demo_spawn = spawn opset demo_server ''doc'' (\<lambda>_. demo_chan) 0 Map.empty ()"

text \<open>The document with one client and two edits in its mailbox.\<close>

definition demo_doc :: "bool \<Rightarrow> (bytes, bytes, u64 list, string, unit) document" where
  "demo_doc ro = demo_spawn\<lparr>connections := [(1, demo_conn ro)],
     rx := [DirectApply [7] 0, DirectApply [8] 1]\<rparr>"

text \<open>A frame in which a client sends the update \<open>[9]\<close>.\<close>

definition demo_frame :: bytes where
  "demo_frame = into_bytes (write_sync_payload (encode_sync opset (Update [9]))
     (out_sync (wire opset) (out_new (wire opset) ''doc'')))"

lemma demo_spawn_eq:
  "demo_spawn = \<lparr>doc_name = ''doc'', ydoc = [], awareness = [], connections = [], rx = [],
      dirty = False, first_dirty_at = None, last_change_at = None, last_origin = Local,
      storing = False, store_results = [], broadcast_base = None, broadcast_pending = False,
      clock = 0, chans = (\<lambda>_. demo_chan), world = (), registry = Map.empty, store_tasks = [],
      acks = [], replies = []\<rparr>"
  by (simp add: demo_spawn_def spawn_def demo_server_def default_configuration_def opset_def)

lemma demo_server_simps [simp]: "extensions demo_server = []" "config demo_server = default_configuration"
  by (simp_all add: demo_server_def)

lemmas demo_simps = demo_doc_def demo_spawn_eq demo_conn_def demo_chan_def opset_def news_def

section \<open>Panics\<close>

lemma handle_client_frame_total: "handle_client_frame Y S cid data s \<noteq> None"
  by (auto simp: handle_client_frame_def handle_sync_def handle_stateless_def Let_def
      split: option.split sum.split message_type.split sync_message.split)

lemma handle_command_total: "handle_command Y S c s \<noteq> None"
  using handle_client_frame_total by (cases c) (auto simp: handle_command_def Let_def)

lemma run_batch_total: "run_batch Y S cs s \<noteq> None"
  using handle_command_total
  by (induction cs arbitrary: s) (auto split: option.split prod.split bool.split)

text \<open>C19: The actor never panics. \<open>handle_sync\<close> and \<open>handle_stateless\<close> index the connection map
  with the sender's id, which panics on a missing key; whatever commands a batch holds, in whatever
  state, the loop iteration that handles it returns.\<close>

theorem actor_never_panics: "\<exists>exit s'. on_commands Y S s = Some (exit, s')"
  using run_batch_total
  by (auto simp: on_commands_def split: list.split prod.split)

section \<open>Reachable states\<close>

text \<open>In every state an actor can reach from its start, under any interleaving of commands,
  timers, store tasks, socket activity and hook activity, its bookkeeping is consistent: dirty flag
  and timestamps agree, a broadcast is pending exactly when its base is recorded, at most one store
  is in flight and its task or its report exists exactly while the storing flag is set, and every
  connection is filed once under its own id.\<close>

theorem reachable_bookkeeping:
  assumes "actor_reach Y S E (spawn Y S nm cs now reg w) s"
  shows "timestamps_ok s \<and> broadcast_ok s \<and> store_ok s \<and> conns_ok s"
  using inv_reach [OF assms inv_spawn] by (simp_all add: actor_inv_def)

lemma demo_reach:
  "actor_reach opset demo_server (=) demo_spawn
     (demo_spawn\<lparr>rx := [], ydoc := [7], dirty := True, first_dirty_at := Some 0, last_change_at := Some 0,
        acks := [0]\<rparr>)" (is "actor_reach _ _ _ _ ?t")
proof -
  let ?s = "demo_spawn\<lparr>rx := [DirectApply [7] 0]\<rparr>"
  have "actor_step opset demo_server (=) demo_spawn ?s"
    using arrive [of opset demo_server "(=)" demo_spawn "DirectApply [7] 0"] by (simp add: demo_spawn_eq)
  moreover have "actor_step opset demo_server (=) ?s ?t"
    by (rule commands)
      (simp_all add: demo_simps on_commands_def handle_command_def apply_and_broadcast_def mark_dirty_def
        flush_broadcast_def broadcast_with_def MAX_COALESCE_BATCH_def)
  ultimately show ?thesis by (blast intro: actor_reach.intros)
qed

theorem reachable_bookkeeping_witness:
  "actor_reach opset demo_server (=) demo_spawn
     (demo_spawn\<lparr>rx := [], ydoc := [7], dirty := True, first_dirty_at := Some 0, last_change_at := Some 0,
        acks := [0]\<rparr>) \<and>
   timestamps_ok (demo_spawn\<lparr>rx := [], ydoc := [7], dirty := True, first_dirty_at := Some 0,
        last_change_at := Some 0, acks := [0]\<rparr>)"
  using demo_reach reachable_bookkeeping [OF demo_reach [unfolded demo_spawn_def]]
  by (simp add: demo_spawn_def)

text \<open>Memory towards slow clients is bounded. No reachable state has more messages queued for a
  socket than the capacity its channel was created with.\<close>

theorem outbound_queues_bounded:
  assumes "actor_reach Y S E (spawn Y S nm cs now reg w) s" and "\<forall>ch. length (queue (cs ch)) \<le> cap (cs ch)"
  shows "length (queue (chans s ch)) \<le> cap (chans s ch)"
proof -
  have "actor_inv s \<and> queues_bounded (chans s)"
    using assms(1)
  proof (induction rule: actor_reach.induct)
    case reach_refl
    then show ?case
      using assms(2) inv_spawn by (simp add: spawn_def Let_def case_prod_beta queues_bounded_def) (simp add: actor_inv_def)
  next
    case (reach_step s s')
    then show ?case using inv_actor_step bounded_actor_step by blast
  qed
  then show ?thesis by (simp add: queues_bounded_def)
qed

theorem outbound_queues_bounded_witness:
  "length (queue (chans (demo_spawn\<lparr>rx := [], ydoc := [7], dirty := True, first_dirty_at := Some 0,
     last_change_at := Some 0, acks := [0]\<rparr>) 0)) \<le> 8"
  using outbound_queues_bounded [OF demo_reach [unfolded demo_spawn_def], of 0]
  by (simp add: demo_spawn_eq [unfolded demo_spawn_def] demo_spawn_eq demo_chan_def)

section \<open>Clients that may not write\<close>

lemma handle_sync_read_only:
  assumes "map_of (connections s) cid = Some c" and "conn_read_only c"
    and "handle_sync Y S cid addr og frame s = Some s'"
  shows "keeps S s s'"
proof -
  have step1: "keeps S s (s\<lparr>chans := snd (send_frame c f2 (snd (send_frame c f1 (chans s))))\<rparr>)" for f1 f2
    by (rule keeps_chans) (rule chans_grow_trans [OF send_frame_grow send_frame_grow])
  show ?thesis
    using assms step1 keeps_send_sync_status
    by (auto simp: handle_sync_def Let_def split: option.splits sync_message.splits)
qed

text \<open>C13: A read-only client cannot change the document. Whatever bytes it sends, the document, its
  dirty flag, its store bookkeeping and the pending broadcast stay as they were; so no hook sees a
  change, nothing is stored and nothing is broadcast as an edit because of that frame.\<close>

theorem read_only_client_cannot_write:
  assumes "conns_ok s" and "map_of (connections s) cid = Some c" and "conn_read_only c"
    and "handle_client_frame Y S cid data s = Some s'"
  shows "ydoc s' = ydoc s \<and> dirty s' = dirty s \<and> last_change_at s' = last_change_at s \<and>
    store_tasks s' = store_tasks s \<and> broadcast_pending s' = broadcast_pending s \<and>
    broadcast_base s' = broadcast_base s"
proof -
  have "keeps S s s'"
    using assms handle_sync_read_only [OF assms(2,3)]
    by (auto simp: handle_client_frame_def handle_token_sync_def Let_def
        split: sum.splits message_type.splits
        intro: keeps_handle_awareness keeps_reply_query_awareness keeps_close_connection keeps_handle_stateless)
  then show ?thesis by (simp add: keepsD)
qed

lemma demo_frame_parse: "parse (wire opset) demo_frame =
    Inr \<lparr>routing_key = ''doc'', message_type = Sync, decoder = sync_encode opset (Update [9])\<rparr>"
  using ops.parse_frame [OF _ from_u64_type_code, of "''doc''" Sync "sync_encode opset (Update [9])"]
  by (simp add: demo_frame_def out_defs encode_sync_def)

lemma demo_frame_update: "sync_decode opset (sync_encode opset (Update [9])) = Some (Update [9])"
  by (rule ops.sync_roundtrip) simp

theorem read_only_client_cannot_write_witness:
  "\<exists>s'. handle_client_frame opset demo_server 1 demo_frame (demo_doc True) = Some s' \<and> ydoc s' = []"
proof -
  obtain s' where s': "handle_client_frame opset demo_server 1 demo_frame (demo_doc True) = Some s'"
    using handle_client_frame_total by blast
  have "ydoc s' = ydoc (demo_doc True)"
    using read_only_client_cannot_write [OF _ _ _ s', of "demo_conn True"]
    by (simp add: conns_ok_def demo_doc_def demo_conn_def)
  then show ?thesis using s' by (simp add: demo_doc_def demo_spawn_eq)
qed

text \<open>C23: An update that a \<open>before_handle_message\<close> hook rejects is never applied: the only effects are
  those of the hooks that ran and one \<open>Close\<close> message to the sender, with the close event the hook
  asked for or \<open>RESET_CONNECTION\<close>; the sender is not told that its update was saved.\<close>

theorem rejected_update_not_applied:
  assumes "map_of (connections s) cid = Some c" and "\<not> conn_read_only c"
    and "sync_decode Y (decoder frame) \<in> {Some (SyncStep2 u), Some (Update u)}"
    and "run_until_err (map (\<lambda>e. before_handle_message_hook e
           \<lparr>chp_document_name = doc_name s, chp_update = u, chp_origin = og,
            chp_clients_count = length (connections s)\<rparr>) (extensions S)) (world s) = (Inl err, w)"
  shows "handle_sync Y S cid addr og frame s =
    Some (s\<lparr>world := w, chans := send_close c (case close err of Some ev \<Rightarrow> ev | None \<Rightarrow> RESET_CONNECTION) (chans s)\<rparr>)"
  using assms by (auto simp: handle_sync_def before_handle_message_def Let_def)

definition refusing_server :: "(bytes, string, unit) server" where
  "refusing_server = \<lparr>config = default_configuration,
     extensions = [default_extension\<lparr>before_handle_message_hook := (\<lambda>_ w. (Inl (hook_error_new ''no''), w))\<rparr>]\<rparr>"

theorem rejected_update_not_applied_witness:
  "\<exists>s'. handle_sync opset refusing_server 1 ''doc'' (Connection 1)
      \<lparr>routing_key = ''doc'', message_type = Sync, decoder = sync_encode opset (Update [9])\<rparr> (demo_doc False) = Some s' \<and>
    ydoc s' = [] \<and> queue (chans s' 0) = [Close RESET_CONNECTION]"
  using rejected_update_not_applied [of "demo_doc False" 1 "demo_conn False" opset
      "\<lparr>routing_key = ''doc'', message_type = Sync, decoder = sync_encode opset (Update [9])\<rparr>" "[9]" "Connection 1"
      refusing_server "hook_error_new ''no''" "()" "''doc''"]
  by (simp add: demo_frame_update refusing_server_def hook_error_new_def demo_doc_def demo_spawn_eq demo_conn_def
      demo_chan_def send_close_def chan_send_def try_send_def)

section \<open>Broadcasts\<close>

text \<open>The plain loop: build every frame for the address of its connection.\<close>

fun plain_broadcast :: "(string \<Rightarrow> bytes) \<Rightarrow> 'j conn_handle list \<Rightarrow> chans \<Rightarrow> u64 list \<times> chans" where
  "plain_broadcast mk [] cs = ([], cs)"
| "plain_broadcast mk (c # conns) cs =
     (let (ok, cs1) = send_frame c (mk (conn_address c)) cs;
          (lagging, cs2) = plain_broadcast mk conns cs1
      in (if ok then lagging else conn_id c # lagging, cs2))"

lemma broadcast_loop_plain: "broadcast_loop mk a (mk a) conns cs = plain_broadcast mk conns cs"
proof (induction conns arbitrary: cs)
  case (Cons c conns)
  have "(if conn_address c = a then mk a else mk (conn_address c)) = mk (conn_address c)" by simp
  then show ?case by (simp only: broadcast_loop.simps plain_broadcast.simps Cons.IH Let_def)
qed simp

text \<open>Sharing one encoded frame among all connections with the default address is only an
  optimisation: for every frame builder the broadcast does exactly what building each connection's
  frame for its own address would do.\<close>

theorem broadcast_shares_frames:
  "broadcast_with Y mk s =
     (case plain_broadcast mk (map snd (connections s)) (chans s) of
        (lagging, cs) \<Rightarrow> evict_lagging Y lagging (s\<lparr>chans := cs\<rparr>))"
  by (simp add: broadcast_with_def broadcast_loop_plain Let_def)

text \<open>C22: A broadcast loses no one silently. Every connection that is still registered afterwards and
  whose socket is open has the frame, built for its own address, in its queue, after everything that
  was queued before; and every queue only grows, so no earlier message is lost or reordered.\<close>

theorem broadcast_reaches_remaining:
  assumes "conns_ok s" and "(k, c) \<in> set (connections (broadcast_with Y mk s))"
    and "\<not> chan_closed (chans s (outbound c))"
  shows "(k, c) \<in> set (connections s) \<and>
    (\<exists>ms ms'. queue (chans (broadcast_with Y mk s) (outbound c)) =
       queue (chans s (outbound c)) @ ms @ Frame (mk (conn_address c)) # ms')"
  using broadcast_with_delivers [OF assms] assms(2) broadcast_with_shape [of Y mk s] by auto

theorem broadcast_reaches_remaining_witness:
  "\<exists>ms ms'. queue (chans (broadcast_with opset (\<lambda>a. [5]) (demo_doc False)) 0) = ms @ Frame [5] # ms'"
  using broadcast_reaches_remaining [of "demo_doc False" 1 "demo_conn False" opset "\<lambda>a. [5]"]
  by (simp add: conns_ok_def broadcast_with_def demo_doc_def demo_spawn_eq demo_conn_def demo_chan_def
      send_frame_def chan_send_def try_send_def)

lemma try_send_full:
  "\<not> chan_closed c \<Longrightarrow> cap c \<le> length (queue c) \<Longrightarrow> try_send m c = (SendFull, c)"
  by (simp add: try_send_def)

lemma send_frame_other_full:
  assumes "\<not> chan_closed (cs ch)" and "cap (cs ch) \<le> length (queue (cs ch))"
  shows "snd (send_frame c f cs) ch = cs ch" and "send_close c e cs ch = cs ch"
  using assms by (auto simp: send_frame_def send_close_def chan_send_def try_send_def split: prod.splits)

lemma broadcast_loop_full:
  assumes "\<not> chan_closed (cs ch)" and "cap (cs ch) \<le> length (queue (cs ch))"
  shows "snd (broadcast_loop mk a f conns cs) ch = cs ch \<and>
    (\<forall>c \<in> set conns. outbound c = ch \<longrightarrow> conn_id c \<in> set (fst (broadcast_loop mk a f conns cs)))"
  using assms
proof (induction conns arbitrary: cs)
  case (Cons c conns)
  let ?f = "if conn_address c = a then f else mk (conn_address c)"
  obtain ok cs1 where s: "send_frame c ?f cs = (ok, cs1)" by (cases "send_frame c ?f cs")
  have same: "cs1 ch = cs ch" using send_frame_other_full(1) [where cs = cs and ch = ch, OF Cons.prems, of c ?f] s by simp
  have "outbound c = ch \<Longrightarrow> \<not> ok"
    using s Cons.prems by (auto simp: send_frame_def chan_send_def try_send_full split: prod.splits)
  moreover have "snd (broadcast_loop mk a f conns cs1) ch = cs1 ch \<and>
    (\<forall>c \<in> set conns. outbound c = ch \<longrightarrow> conn_id c \<in> set (fst (broadcast_loop mk a f conns cs1)))"
    by (rule Cons.IH) (use Cons.prems same in simp_all)
  ultimately show ?case using same by (auto simp: s Let_def case_prod_beta)
qed simp

lemma evict_lagging_full:
  assumes "\<not> chan_closed (chans s ch)" and "cap (chans s ch) \<le> length (queue (chans s ch))"
  shows "chans (evict_lagging Y ids s) ch = chans s ch"
  using assms
proof (induction ids arbitrary: s)
  case (Cons i ids)
  show ?case
  proof (cases "map_of (connections s) i")
    case (Some conn)
    let ?t = "s\<lparr>connections := AList.delete i (connections s),
        awareness := fold (aw_remove_state Y) (client_ids conn) (awareness s),
        chans := send_close conn RESET_CONNECTION (chans s)\<rparr>"
    have "chans ?t ch = chans s ch"
      using send_frame_other_full(2) [where cs = "chans s" and ch = ch, OF Cons.prems] by simp
    then show ?thesis using Some Cons.IH [of ?t] Cons.prems by simp
  qed (use Cons in simp)
qed simp

text \<open>C39: What eviction does to a client that fell behind. If a client's queue is full when something
  is broadcast, the client is dropped from the document and its channel is left exactly as it was: the
  \<open>Close\<close> that \<open>evict_lagging\<close> sends to it does not fit into the full queue either. From then on
  every frame of that client is ignored.\<close>

theorem evicted_client_gets_no_close:
  assumes "conns_ok s" and "(k, c) \<in> set (connections s)"
    and "\<not> chan_closed (chans s (outbound c))" and "cap (chans s (outbound c)) \<le> length (queue (chans s (outbound c)))"
  shows "chans (broadcast_with Y mk s) (outbound c) = chans s (outbound c) \<and>
    k \<notin> fst ` set (connections (broadcast_with Y mk s)) \<and>
    handle_client_frame Y S k data (broadcast_with Y mk s) = Some (broadcast_with Y mk s)"
proof -
  obtain lag cs where l: "broadcast_loop mk (doc_name s) (mk (doc_name s)) (map snd (connections s)) (chans s) = (lag, cs)"
    by (cases "broadcast_loop mk (doc_name s) (mk (doc_name s)) (map snd (connections s)) (chans s)")
  have b: "broadcast_with Y mk s = evict_lagging Y lag (s\<lparr>chans := cs\<rparr>)"
    by (simp add: broadcast_with_def l Let_def)
  have same: "cs (outbound c) = chans s (outbound c)" and "conn_id c \<in> set lag"
    using broadcast_loop_full [where cs = "chans s" and ch = "outbound c", OF assms(3,4)] l assms(2)
    by (metis snd_conv, metis (no_types, lifting) fst_conv image_eqI set_map snd_conv)
  then have lag: "k \<in> set lag" using assms(1,2) by (auto simp: conns_ok_def)
  have gone: "k \<notin> fst ` set (connections (broadcast_with Y mk s))"
    using evicted_are_gone [of "s\<lparr>chans := cs\<rparr>" k _ Y lag] lag assms(1) by (auto simp: b conns_ok_def)
  then have "map_of (connections (broadcast_with Y mk s)) k = None" by (simp add: map_of_eq_None_iff)
  moreover have "chans (broadcast_with Y mk s) (outbound c) = chans s (outbound c)"
    using evict_lagging_full [of "s\<lparr>chans := cs\<rparr>" "outbound c" Y lag] assms(3,4) same by (simp add: b)
  ultimately show ?thesis using gone by (simp add: handle_client_frame_def)
qed

text \<open>The client of the demo document with a channel of capacity 1 that is full.\<close>

definition slow_doc :: "(bytes, bytes, u64 list, string, unit) document" where
  "slow_doc = (demo_doc False)\<lparr>chans := (\<lambda>_. \<lparr>cap = 1, queue = [Frame [1]], chan_closed = False\<rparr>)\<rparr>"

theorem evicted_client_gets_no_close_witness:
  "queue (chans (broadcast_with opset (\<lambda>a. [5]) slow_doc) 0) = [Frame [1]] \<and>
   connections (broadcast_with opset (\<lambda>a. [5]) slow_doc) = []"
proof -
  have "connections (broadcast_with opset (\<lambda>a. [5]) slow_doc) = []"
    by (simp add: slow_doc_def demo_doc_def demo_spawn_eq demo_conn_def broadcast_with_def send_frame_def
        chan_send_def try_send_def send_close_def)
  then show ?thesis
    using evicted_client_gets_no_close [of slow_doc 1 "demo_conn False" opset "\<lambda>a. [5]" demo_server "[]"]
    by (simp add: slow_doc_def demo_doc_def demo_conn_def conns_ok_def)
qed

section \<open>Batches\<close>

lemma drain_batch_take:
  "length b \<le> MAX_COALESCE_BATCH \<Longrightarrow>
     drain_batch b q = (b @ take (MAX_COALESCE_BATCH - length b) q, drop (MAX_COALESCE_BATCH - length b) q)"
proof (induction b q rule: drain_batch.induct)
  case (2 b c q)
  show ?case
  proof (cases "length b < MAX_COALESCE_BATCH")
    case True
    then have "MAX_COALESCE_BATCH - length b = Suc (MAX_COALESCE_BATCH - Suc (length b))" by simp
    then show ?thesis using True 2 by simp
  qed (use 2 in simp)
qed simp

text \<open>One iteration of the loop takes the first 512 commands of the mailbox, or all of them if there
  are fewer, handles them in the order of arrival with one broadcast at the end, and leaves the
  others queued in their order: nothing is skipped, reordered or taken twice.\<close>

theorem batch_takes_mailbox_prefix:
  assumes "rx s \<noteq> []"
  shows "on_commands Y S s =
    map_option (\<lambda>(exit, s'). (exit, flush_broadcast Y s'))
      (run_batch Y S (take 512 (rx s)) (s\<lparr>rx := drop 512 (rx s)\<rparr>))"
  using assms drain_batch_take [of "[hd (rx s)]" "tl (rx s)"]
  by (cases "rx s") (simp_all add: on_commands_def MAX_COALESCE_BATCH_def)

theorem batch_takes_mailbox_prefix_witness:
  "map_option (\<lambda>(exit, s). (exit, ydoc s, rx s, acks s)) (on_commands opset demo_server (demo_doc False)) =
     Some (False, [7, 8], [], [0, 1])"
  using batch_takes_mailbox_prefix [of "demo_doc False" opset demo_server]
  by (simp add: demo_simps handle_command_def apply_and_broadcast_def mark_dirty_def
        flush_broadcast_def broadcast_with_def send_frame_def chan_send_def try_send_def Let_def)

lemma apply_chans [simp]: "chans (apply_and_broadcast Y S u og s) = chans s"
    "connections (apply_and_broadcast Y S u og s) = connections s"
    "acks (apply_and_broadcast Y S u og s) = acks s"
  by (cases rule: apply_and_broadcast_cases [of Y u S og s]; simp add: mark_dirty_def)+

fun is_edit :: "'j doc_command \<Rightarrow> bool" where
  "is_edit (DirectApply u ack) \<longleftrightarrow> True"
| "is_edit _ \<longleftrightarrow> False"

lemma run_batch_edits:
  "list_all is_edit cs \<Longrightarrow>
     \<exists>s'. run_batch Y S cs s = Some (False, s') \<and> chans s' = chans s \<and> connections s' = connections s"
proof (induction cs arbitrary: s)
  case (Cons c cs)
  then obtain u ack where "c = DirectApply u ack" by (cases c) auto
  then show ?case
    using Cons.IH [of "(apply_and_broadcast Y S u Local s)\<lparr>acks := acks s @ [ack]\<rparr>"] Cons.prems
    by (auto simp: handle_command_def Let_def)
qed simp

lemma send_frame_length:
  "length (queue (snd (send_frame c f cs) ch)) \<le> length (queue (cs ch)) + (if outbound c = ch then 1 else 0)"
  by (auto simp: send_frame_def chan_send_def try_send_def split: prod.splits if_splits)

lemma broadcast_loop_length:
  "length (queue (snd (broadcast_loop mk a f conns cs) ch)) \<le>
     length (queue (cs ch)) + length (filter (\<lambda>c. outbound c = ch) conns)"
proof (induction conns arbitrary: cs)
  case (Cons c conns)
  let ?f = "if conn_address c = a then f else mk (conn_address c)"
  show ?case
    using Cons.IH [of "snd (send_frame c ?f cs)"] send_frame_length [of c ?f cs ch]
    by (auto simp: Let_def case_prod_beta)
qed simp

definition chan_full :: "chan \<Rightarrow> bool" where
  "chan_full c \<longleftrightarrow> \<not> chan_closed c \<and> cap c \<le> length (queue c)"

lemma chan_full_grow: "chans_grow cs cs' \<Longrightarrow> chan_full (cs ch) \<Longrightarrow> chan_full (cs' ch)"
  unfolding chans_grow_def chan_full_def by (metis length_append trans_le_add1)

lemma lagging_are_full:
  "i \<in> set (fst (broadcast_loop mk a f conns cs)) \<Longrightarrow>
     \<exists>c \<in> set conns. conn_id c = i \<and> chan_full (snd (broadcast_loop mk a f conns cs) (outbound c))"
proof (induction conns arbitrary: cs)
  case (Cons c conns)
  let ?f = "if conn_address c = a then f else mk (conn_address c)"
  obtain ok cs1 where s: "send_frame c ?f cs = (ok, cs1)" by (cases "send_frame c ?f cs")
  have "\<not> ok \<Longrightarrow> chan_full (cs1 (outbound c))"
    using s by (auto simp: send_frame_def chan_send_def try_send_def chan_full_def split: prod.splits if_splits)
  then have "\<not> ok \<Longrightarrow> chan_full (snd (broadcast_loop mk a f conns cs1) (outbound c))"
    using chan_full_grow [OF broadcast_loop_grow] by blast
  then show ?case
    using Cons.IH [of cs1] Cons.prems by (auto simp: s Let_def case_prod_beta split: if_splits)
qed simp

lemma evict_full_chans:
  assumes "\<And>i c. i \<in> set ids \<Longrightarrow> (i, c) \<in> set (connections s) \<Longrightarrow> chan_full (chans s (outbound c))"
  shows "chans (evict_lagging Y ids s) = chans s"
  using assms
proof (induction ids arbitrary: s)
  case (Cons i ids)
  show ?case
  proof (cases "map_of (connections s) i")
    case (Some conn)
    let ?t = "s\<lparr>connections := AList.delete i (connections s),
        awareness := fold (aw_remove_state Y) (client_ids conn) (awareness s),
        chans := send_close conn RESET_CONNECTION (chans s)\<rparr>"
    have "chan_full (chans s (outbound conn))" using Cons.prems [of i conn] map_of_SomeD [OF Some] by simp
    then have same: "send_close conn RESET_CONNECTION (chans s) = chans s"
      by (simp add: send_close_def chan_send_def try_send_def chan_full_def)
    have "chans (evict_lagging Y ids ?t) = chans ?t"
      by (rule Cons.IH) (use Cons.prems same in \<open>auto dest: map_of_deleteD\<close>)
    then show ?thesis using Some same by simp
  next
    case None
    have "chans (evict_lagging Y ids s) = chans s" by (rule Cons.IH) (use Cons.prems in auto)
    then show ?thesis using None by simp
  qed
qed simp

lemma broadcast_with_chans:
  assumes "conns_ok s"
  shows "chans (broadcast_with Y mk s) =
    snd (broadcast_loop mk (doc_name s) (mk (doc_name s)) (map snd (connections s)) (chans s))"
proof -
  obtain lag cs where l: "broadcast_loop mk (doc_name s) (mk (doc_name s)) (map snd (connections s)) (chans s) = (lag, cs)"
    by (cases "broadcast_loop mk (doc_name s) (mk (doc_name s)) (map snd (connections s)) (chans s)")
  have full: "chan_full (cs (outbound c))" if i: "i \<in> set lag" "(i, c) \<in> set (connections s)" for i c
  proof -
    obtain k d where d: "(k, d) \<in> set (connections s)" "conn_id d = i" "chan_full (cs (outbound d))"
      using lagging_are_full [of i mk "doc_name s" "mk (doc_name s)" "map snd (connections s)" "chans s"] i(1)
      by (auto simp: l)
    then have "(i, d) \<in> set (connections s)" using assms by (auto simp: conns_ok_def)
    then have "d = c" using i(2) assms by (metis conns_ok_def eq_key_imp_eq_value)
    then show ?thesis using d(3) by simp
  qed
  then have "chans (evict_lagging Y lag (s\<lparr>chans := cs\<rparr>)) = cs"
    using evict_full_chans [of lag "s\<lparr>chans := cs\<rparr>" Y] by simp
  then show ?thesis by (simp add: broadcast_with_def l Let_def)
qed

lemma broadcast_with_length:
  assumes "conns_ok s"
  shows "length (queue (chans (broadcast_with Y mk s) ch)) \<le>
    length (queue (chans s ch)) + length (filter (\<lambda>kc. outbound (snd kc) = ch) (connections s))"
proof -
  have "length (filter (\<lambda>c. outbound c = ch) (map snd (connections s))) =
      length (filter (\<lambda>kc. outbound (snd kc) = ch) (connections s))"
    by (simp add: filter_map comp_def)
  then show ?thesis using broadcast_loop_length by (metis broadcast_with_chans [OF assms])
qed

text \<open>C30: A burst of edits costs each client one frame. When all queued commands are programmatic
  edits, one iteration of the loop adds to each socket's queue at most one message per connection on
  that socket, however many edits there were.\<close>

theorem burst_costs_one_frame:
  assumes "conns_ok s" and "rx s \<noteq> []" and "list_all is_edit (rx s)"
  shows "\<exists>s'. on_commands Y S s = Some (False, s') \<and>
    (\<forall>ch. length (queue (chans s' ch)) \<le>
       length (queue (chans s ch)) + length (filter (\<lambda>kc. outbound (snd kc) = ch) (connections s)))"
proof -
  obtain batch left where d: "drain_batch [hd (rx s)] (tl (rx s)) = (batch, left)"
    by (cases "drain_batch [hd (rx s)] (tl (rx s))")
  have "batch @ left = rx s"
    using d assms(2) drain_batch_take [of "[hd (rx s)]" "tl (rx s)"]
    by (auto simp: MAX_COALESCE_BATCH_def)
  then have "list_all is_edit batch" using assms(3) by (metis list_all_append)
  then obtain t where t: "run_batch Y S batch (s\<lparr>rx := left\<rparr>) = Some (False, t)"
    and same: "chans t = chans s" "connections t = connections s"
    using run_batch_edits [of batch Y S "s\<lparr>rx := left\<rparr>"] by auto
  have oc: "on_commands Y S s = Some (False, flush_broadcast Y t)"
    using assms(2) d t by (cases "rx s") (simp_all add: on_commands_def)
  let ?t = "t\<lparr>broadcast_pending := False, broadcast_base := None\<rparr>"
  have ok: "conns_ok ?t" using assms(1) same by (simp add: conns_ok_def)
  have "length (queue (chans (flush_broadcast Y t) ch)) \<le>
      length (queue (chans t ch)) + length (filter (\<lambda>kc. outbound (snd kc) = ch) (connections t))" for ch
    using broadcast_with_length [OF ok, of Y _ ch]
    by (auto simp: flush_broadcast_def Let_def split: option.split)
  then show ?thesis using oc same by auto
qed

theorem burst_costs_one_frame_witness:
  "\<exists>s'. on_commands opset demo_server (demo_doc False) = Some (False, s') \<and> length (queue (chans s' 0)) \<le> 1"
  using burst_costs_one_frame [of "demo_doc False" opset demo_server]
  by (auto simp: conns_ok_def demo_doc_def demo_spawn_eq demo_conn_def demo_chan_def dest: spec [of _ 0])

section \<open>Convergence\<close>

lemma reachable_flushed:
  assumes "yjs Y leq" and "actor_reach Y S E (spawn Y S nm cs now reg w) s"
  shows "actor_inv s \<and> broadcast_base s = None"
  using assms(2)
proof (induction rule: actor_reach.induct)
  case reach_refl
  then show ?case using inv_spawn by (simp add: spawn_def Let_def case_prod_beta) (simp add: actor_inv_def)
next
  case (reach_step s s')
  then show ?case using inv_actor_step yjs.flushed_after_step [OF assms(1)] by blast
qed

text \<open>Clients converge with the server. Take a client that is up to date: its replica together with
  what is queued for it holds everything the document holds. However the actor, the store, other
  clients, other nodes and the client itself then proceed, as long as the client stays registered
  with an open channel, it is up to date in every later state; and whenever it has read its queue, its
  replica holds everything the server's document holds. The coalesced broadcast therefore loses no
  change of any batch.\<close>

theorem clients_converge:
  assumes "yjs Y leq" and "actor_reach Y S E (spawn Y S nm cs now reg w) s0"
    and "caught_up Y leq s0 p0 ch" and "client_run Y S E leq ch s0 p0 s p"
  shows "caught_up Y leq s p ch \<and> (queue (chans s ch) = [] \<longrightarrow> leq (ydoc s) p)"
proof -
  have "actor_inv s0 \<and> broadcast_base s0 = None" by (rule reachable_flushed [OF assms(1,2)])
  then have "caught_up Y leq s p ch"
    using yjs.client_run_caught_up [OF assms(1,4)] assms(3) by blast
  then show ?thesis by (auto simp: caught_up_def replica_def)
qed

text \<open>A run for the witness: the client joins the empty document, an edit is broadcast to it, and it
  reads the frame.\<close>

definition edit_frame :: bytes where
  "edit_frame = into_bytes (write_sync_payload (encode_sync opset (Update [7]))
     (out_sync (wire opset) (out_new (wire opset) ''doc'')))"

definition joined_doc :: "(bytes, bytes, u64 list, string, unit) document" where
  "joined_doc = demo_spawn\<lparr>connections := [(1, demo_conn False)], acks := [0]\<rparr>"

definition edited_doc :: "out_msg list \<Rightarrow> (bytes, bytes, u64 list, string, unit) document" where
  "edited_doc q = joined_doc\<lparr>ydoc := [7], dirty := True, first_dirty_at := Some 0, last_change_at := Some 0,
     acks := [0, 1], chans := (\<lambda>_. demo_chan)(0 := demo_chan\<lparr>queue := q\<rparr>)\<rparr>"

lemma joined_reach: "actor_reach opset demo_server (=) demo_spawn joined_doc"
proof -
  let ?s = "demo_spawn\<lparr>rx := [AddConnection (demo_conn False) 0]\<rparr>"
  have "actor_step opset demo_server (=) demo_spawn ?s"
    using arrive [of opset demo_server "(=)" demo_spawn "AddConnection (demo_conn False) 0"]
    by (simp add: demo_spawn_eq)
  moreover have "actor_step opset demo_server (=) ?s joined_doc"
    by (rule commands)
      (simp_all add: joined_doc_def demo_simps on_commands_def handle_command_def add_connection_def
        awareness_has_states_def flush_broadcast_def)
  ultimately show ?thesis by (blast intro: actor_reach.intros)
qed

lemma joined_run: "client_run opset demo_server (=) opset_leq 0 joined_doc [] (edited_doc []) (receive opset (Frame edit_frame) [])"
proof -
  let ?s = "joined_doc\<lparr>rx := [DirectApply [7] 1]\<rparr>"
  let ?run = "client_run opset demo_server (=) opset_leq 0 joined_doc []"
  have small: "length (news v [x]) < 2 ^ 32" for v :: bytes and x
    by (simp add: news_def)
  have "actor_step opset demo_server (=) joined_doc ?s"
    using arrive [of opset demo_server "(=)" joined_doc "DirectApply [7] 1"] by (simp add: joined_doc_def demo_spawn_eq)
  moreover have "served opset 0 ?s"
    by (simp add: served_def joined_doc_def demo_spawn_eq demo_conn_def demo_chan_def) (simp add: opset_def news_def)
  ultimately have "?run ?s []" by (rule run_server [OF run_start, where ms = "[]"]) simp
  moreover have "on_commands opset demo_server ?s = Some (False, edited_doc [Frame edit_frame])"
    by (simp add: edited_doc_def edit_frame_def joined_doc_def demo_simps on_commands_def handle_command_def
        apply_and_broadcast_def mark_dirty_def flush_broadcast_def broadcast_with_def send_frame_def
        chan_send_def try_send_def Let_def)
  then have "actor_step opset demo_server (=) ?s (edited_doc [Frame edit_frame])" by (intro commands) simp_all
  moreover have "served opset 0 (edited_doc [Frame edit_frame])"
    by (simp add: served_def edited_doc_def joined_doc_def demo_spawn_eq demo_conn_def demo_chan_def)
      (simp add: opset_def small [simplified])
  ultimately have "?run (edited_doc [Frame edit_frame]) []"
    by (rule run_server [where ms = "[Frame edit_frame]"])
      (simp add: edited_doc_def joined_doc_def demo_spawn_eq demo_chan_def)
  then have "?run ((edited_doc [Frame edit_frame])\<lparr>chans := (chans (edited_doc [Frame edit_frame]))
      (0 := (chans (edited_doc [Frame edit_frame]) 0)\<lparr>queue := []\<rparr>)\<rparr>) (receive opset (Frame edit_frame) [])"
    by (rule run_read) (simp add: edited_doc_def)
  then show ?thesis by (simp add: edited_doc_def del: receive.simps)
qed

theorem clients_converge_witness: "opset_leq [7] (receive opset (Frame edit_frame) [])"
  using clients_converge [OF ops.yjs_axioms joined_reach [unfolded demo_spawn_def] _ joined_run]
  by (simp add: caught_up_def replica_def joined_doc_def edited_doc_def demo_spawn_eq demo_chan_def
      opset_leq_def del: receive.simps)

text \<open>C17: The sync handshake brings a client up to date if its queue has room for the answer. When a client that
  holds everything up to the state vector it announces sends \<open>SyncStep1\<close>, and its channel is open and has room
  for the two frames of the answer, the handler returns and the client, once it has read its queue, holds everything
  the document holds, whatever it had missed before. (If the queue is full the answer is lost, see
  \<open>sync_answer_lost\<close>.)\<close>

theorem sync_handshake_catches_up:
  assumes "yjs Y leq" and "map_of (connections s) cid = Some c"
    and "sync_decode Y (decoder frame) = Some (SyncStep1 (state_vector Y b))" and "leq b p"
    and "\<not> chan_closed (chans s (outbound c))"
    and "length (queue (chans s (outbound c))) + 2 \<le> cap (chans s (outbound c))"
    and "length addr < 2 ^ 32" and "length (encode_diff_v1 Y (ydoc s) (state_vector Y b)) < 2 ^ 32"
  shows "\<exists>s'. handle_sync Y S cid addr og frame s = Some s' \<and> caught_up Y leq s' p (outbound c)"
  using yjs.sync_step1_catches_up [OF assms(1,2,3,4,5) _ _ assms(8)] assms(6,7) by simp

text \<open>With a full queue, both frames of the answer are dropped and nothing else happens: the client stays
  registered, and neither side learns of it.\<close>

lemma sync_answer_lost:
  assumes "map_of (connections s) cid = Some c" and "sync_decode Y (decoder frame) = Some (SyncStep1 sv)"
    and "\<not> chan_closed (chans s (outbound c))" and "cap (chans s (outbound c)) \<le> length (queue (chans s (outbound c)))"
  shows "handle_sync Y S cid addr og frame s = Some s"
  using assms by (simp add: handle_sync_def send_frame_def chan_send_def try_send_def Let_def)

theorem sync_handshake_catches_up_witness:
  "\<exists>s'. handle_sync opset demo_server 1 ''doc'' (Connection 1)
      \<lparr>routing_key = ''doc'', message_type = Sync, decoder = sync_encode opset (SyncStep1 [3])\<rparr>
      ((demo_doc False)\<lparr>ydoc := [3, 4, 5]\<rparr>) = Some s' \<and>
    caught_up opset opset_leq s' [3] 0"
proof -
  have "sync_decode opset (sync_encode opset (SyncStep1 [3])) = Some (SyncStep1 (state_vector opset [3]))"
    by (simp add: opset_def)
  then show ?thesis
    using sync_handshake_catches_up [OF ops.yjs_axioms, of "(demo_doc False)\<lparr>ydoc := [3, 4, 5]\<rparr>" 1
        "demo_conn False" "\<lparr>routing_key = ''doc'', message_type = Sync, decoder = sync_encode opset (SyncStep1 [3])\<rparr>"
        "[3]" "[3]" "''doc''" demo_server "Connection 1"]
    by (simp add: demo_simps opset_leq_def)
qed

end
