(* ===== verification/Document_Routes.thy ===== *)
theory Document_Routes
  imports Document_Props
begin

text \<open>
  What a turn of a document actor leaves alone: its name and the clock never change, channels only grow,
  and its connections are those it had or was told to add. The routing invariant of theory \<open>System\<close>
  rests on this.
\<close>

section \<open>One turn\<close>

text \<open>One turn of the loop in \<open>Document::run\<close>, or of the store task it has spawned; the flag says whether
  the actor ends.\<close>

inductive actor_turn ::
    "('d, 'v, 'u, 'a, 'p) yrs \<Rightarrow> ('d, 'j, 'w) server \<Rightarrow> ('d, 'v, 'a, 'j, 'w) document \<Rightarrow> bool \<Rightarrow>
       ('d, 'v, 'a, 'j, 'w) document \<Rightarrow> bool"
  for Y :: "('d, 'v, 'u, 'a, 'p) yrs" and S :: "('d, 'j, 'w) server" where
  turn_commands: "rx s \<noteq> [] \<Longrightarrow> on_commands Y S s = Some (exit, s') \<Longrightarrow> actor_turn Y S s exit s'"
| turn_stored: "store_results s = ok # rest \<Longrightarrow>
    on_store_result Y S ok (s\<lparr>store_results := rest\<rparr>) = (exit, s') \<Longrightarrow> actor_turn Y S s exit s'"
| turn_timer: "deadline_reached S s \<Longrightarrow> on_deadline Y S s = (exit, s') \<Longrightarrow> actor_turn Y S s exit s'"
| turn_task: "store_tasks s \<noteq> [] \<Longrightarrow> actor_turn Y S s False (store_task S s)"

lemma turn_is_step: "actor_turn Y S s False s' \<Longrightarrow> actor_step Y S E s s'"
  by (cases rule: actor_turn.cases) (auto intro: actor_step.intros)

lemma turn_is_exit: "actor_turn Y S s True s' \<Longrightarrow> actor_exit Y S s s'"
  by (cases rule: actor_turn.cases) (auto intro: actor_exit.intros)

section \<open>Addresses\<close>

definition conn_addrs :: "('d, 'v, 'a, 'j, 'w) document \<Rightarrow> string set" where
  "conn_addrs s = (\<lambda>kc. conn_address (snd kc)) ` set (connections s)"

fun add_addrs :: "'j doc_command \<Rightarrow> string set" where
  "add_addrs (AddConnection conn ack) = {conn_address conn}"
| "add_addrs _ = {}"

definition addresses :: "('d, 'v, 'a, 'j, 'w) document \<Rightarrow> string set" where
  "addresses s = conn_addrs s \<union> (\<Union>cmd \<in> set (rx s). add_addrs cmd)"

lemma conn_addrs_upd [simp]:
  "conn_addrs (s\<lparr>acks := x1\<rparr>) = conn_addrs s" "conn_addrs (s\<lparr>rx := x2\<rparr>) = conn_addrs s"
  "conn_addrs (s\<lparr>chans := x3\<rparr>) = conn_addrs s" "conn_addrs (s\<lparr>replies := x4\<rparr>) = conn_addrs s"
  by (simp_all add: conn_addrs_def)

text \<open>A step that forgets no client id of a connection that stays, and adds no connection.\<close>

definition recalls :: "('d, 'v, 'a, 'j, 'w) document \<Rightarrow> ('d, 'v, 'a, 'j, 'w) document \<Rightarrow> bool" where
  "recalls s s' \<longleftrightarrow> (\<forall>k c'. (k, c') \<in> set (connections s') \<longrightarrow>
     (\<exists>c. (k, c) \<in> set (connections s) \<and> set (client_ids c) \<subseteq> set (client_ids c')))"

lemma recalls_trans: "recalls a b \<Longrightarrow> recalls b c \<Longrightarrow> recalls a c"
  unfolding recalls_def by (meson order_trans)

lemma recalls_subset: "set (connections s') \<subseteq> set (connections s) \<Longrightarrow> recalls s s'"
  unfolding recalls_def by blast

text \<open>A step that adds no connection and keeps name and clock.\<close>

definition narrows :: "('d, 'v, 'a, 'j, 'w) document \<Rightarrow> ('d, 'v, 'a, 'j, 'w) document \<Rightarrow> bool" where
  "narrows s s' \<longleftrightarrow> doc_name s' = doc_name s \<and> clock s' = clock s \<and> rx s' = rx s \<and> registry s' = registry s \<and>
     conn_addrs s' \<subseteq> conn_addrs s \<and> recalls s s'"

lemma narrows_trans: "narrows a b \<Longrightarrow> narrows b c \<Longrightarrow> narrows a c"
  by (auto simp: narrows_def intro: recalls_trans)

lemma narrows_recalls: "narrows s s' \<Longrightarrow> recalls s s'"
  by (simp add: narrows_def)

lemma narrows_refl [simp]: "narrows s s"
  by (simp add: narrows_def recalls_subset)

lemma narrows_same:
  "doc_name s' = doc_name s \<Longrightarrow> clock s' = clock s \<Longrightarrow> rx s' = rx s \<Longrightarrow> registry s' = registry s \<Longrightarrow>
     connections s' = connections s \<Longrightarrow> narrows s s'"
  by (simp add: narrows_def conn_addrs_def recalls_subset)

lemma narrows_upd [simp]:
  "narrows s (x\<lparr>world := w\<rparr>) = narrows s x" "narrows s (x\<lparr>chans := cs\<rparr>) = narrows s x"
  "narrows s (x\<lparr>replies := rs\<rparr>) = narrows s x" "narrows s (x\<lparr>acks := as\<rparr>) = narrows s x"
  "narrows s (x\<lparr>awareness := aw\<rparr>) = narrows s x" "narrows s (x\<lparr>broadcast_pending := p\<rparr>) = narrows s x"
  "narrows s (x\<lparr>broadcast_base := b\<rparr>) = narrows s x" "narrows s (x\<lparr>ydoc := d\<rparr>) = narrows s x"
  by (simp_all add: narrows_def conn_addrs_def recalls_def)

lemma narrows_broadcast: "narrows s (broadcast_with Y mk s)"
  using broadcast_with_shape [of Y mk s] by (auto simp: narrows_def conn_addrs_def recalls_def)

lemma narrows_delete: "narrows s (s\<lparr>connections := AList.delete k (connections s)\<rparr>)"
  by (auto simp: narrows_def conn_addrs_def recalls_def dest: map_of_deleteD)

lemma fold_insert_set: "set (fold List.insert xs ys) = set xs \<union> set ys"
  by (induction xs arbitrary: ys) auto

lemma narrows_track: "narrows s (track_clients og ids s)"
proof -
  have "narrows s (s\<lparr>connections := AList.update k (c\<lparr>client_ids := is\<rparr>) (connections s)\<rparr>)"
    if "map_of (connections s) k = Some c" and "set (client_ids c) \<subseteq> set is" for k c "is"
  proof -
    have old: "(k, c) \<in> set (connections s)" by (rule map_of_SomeD [OF that(1)])
    have new: "x = (k, c\<lparr>client_ids := is\<rparr>) \<or> x \<in> set (connections s)"
      if "x \<in> set (AList.update k (c\<lparr>client_ids := is\<rparr>) (connections s))" for x
      using set_AList_update that by fastforce
    have "conn_addrs (s\<lparr>connections := AList.update k (c\<lparr>client_ids := is\<rparr>) (connections s)\<rparr>) \<subseteq> conn_addrs s"
      using old by (force simp: conn_addrs_def dest: new)
    moreover have "recalls s (s\<lparr>connections := AList.update k (c\<lparr>client_ids := is\<rparr>) (connections s)\<rparr>)"
      unfolding recalls_def using old that(2) by (auto dest!: new)
    ultimately show ?thesis by (simp add: narrows_def)
  qed
  then show ?thesis by (simp add: track_clients_def fold_insert_set split: origin.split option.split)
qed

lemma narrows_remove: "narrows s (remove_connection Y S cid s)"
proof (cases "map_of (connections s) cid")
  case (Some c)
  have t: "narrows s (s\<lparr>connections := AList.delete cid (connections s), awareness := a\<rparr>)" for a
    by (simp add: narrows_delete)
  have "narrows s (broadcast_awareness Y u (s\<lparr>connections := AList.delete cid (connections s), awareness := a\<rparr>))" for u a
    unfolding broadcast_awareness_def by (rule narrows_trans [OF t narrows_broadcast])
  then show ?thesis
    using Some by (simp add: remove_connection_def narrows_delete Let_def case_prod_beta split: option.split)
qed (simp add: remove_connection_def)

lemma narrows_close: "narrows s (close_connection Y S cid ev s)"
proof -
  have "narrows s (remove_connection Y S cid (s\<lparr>chans := cs\<rparr>))" for cs
    by (rule narrows_trans [OF _ narrows_remove]) simp
  then show ?thesis by (simp add: close_connection_def narrows_remove split: option.split)
qed

lemma narrows_awareness: "narrows s (handle_awareness Y S frame og s)"
proof -
  have t: "narrows s (track_clients og ids (s\<lparr>awareness := a\<rparr>))" for ids a
    by (rule narrows_trans [OF _ narrows_track]) simp
  have "narrows s (broadcast_awareness Y u (track_clients og ids (s\<lparr>awareness := a\<rparr>)))" for u ids a
    unfolding broadcast_awareness_def by (rule narrows_trans [OF t narrows_broadcast])
  then show ?thesis
    by (simp add: handle_awareness_def t Let_def split: sum.split option.split prod.split bool.split)
qed

lemma narrows_apply: "narrows s (apply_and_broadcast Y S u og s)"
  by (cases rule: apply_and_broadcast_cases [of Y u S og s]) (auto intro!: narrows_same simp: mark_dirty_def)

lemma narrows_status: "narrows s (send_sync_status Y cid addr ok s)"
  by (simp add: send_sync_status_def split: option.split)

lemma narrows_before: "narrows s (snd (before_handle_message S cid u og s))"
  by (simp add: before_handle_message_def Let_def split: prod.split sum.split option.split)

lemma narrows_sync: "handle_sync Y S cid addr og frame s = Some s' \<Longrightarrow> narrows s s'"
proof -
  have upd: "narrows s (case before_handle_message S cid u og s of (False, s) \<Rightarrow> s
      | (True, s) \<Rightarrow> send_sync_status Y cid addr True (apply_and_broadcast Y S u og s))" for u
    using narrows_before [of s S cid u og] narrows_trans [OF _ narrows_trans [OF narrows_apply narrows_status]]
    by (auto split: prod.split bool.split)
  assume "handle_sync Y S cid addr og frame s = Some s'"
  then show ?thesis
    by (auto simp: handle_sync_def Let_def narrows_status split: option.splits sync_message.splits if_splits intro: upd)
qed

lemma narrows_client_frame: "handle_client_frame Y S cid data s = Some s' \<Longrightarrow> narrows s s'"
  by (auto simp: handle_client_frame_def handle_token_sync_def handle_stateless_def reply_query_awareness_def Let_def
      split: option.splits sum.splits message_type.splits
      intro: narrows_awareness narrows_close narrows_sync)

lemma narrows_external: "narrows s (handle_external_frame Y S data reply s)"
  by (simp add: handle_external_frame_def handle_external_sync_def broadcast_stateless_def Let_def
      narrows_awareness narrows_apply narrows_broadcast
      split: option.split sum.split message_type.split sync_message.split)

lemma narrows_flush: "narrows s (flush_broadcast Y s)"
proof -
  have "narrows s (broadcast_with Y mk (s\<lparr>broadcast_pending := False, broadcast_base := None\<rparr>))" for mk
    by (rule narrows_trans [OF _ narrows_broadcast]) simp
  then show ?thesis by (simp add: flush_broadcast_def Let_def split: option.split)
qed

section \<open>What a turn keeps\<close>

lemma add_connection_addrs: "conn_addrs (add_connection Y c s) \<subseteq> insert (conn_address c) (conn_addrs s)"
proof -
  have "connections (add_connection Y c s) = AList.update (conn_id c) c (connections s)"
    by (simp add: add_connection_def Let_def split: option.split)
  then show ?thesis using set_AList_update [of "conn_id c" c "connections s"] by (force simp: conn_addrs_def)
qed

lemma add_connection_frame:
  "doc_name (add_connection Y c s) = doc_name s" "clock (add_connection Y c s) = clock s" "rx (add_connection Y c s) = rx s"
  "registry (add_connection Y c s) = registry s"
  by (simp_all add: add_connection_def Let_def split: option.split)

lemma maybe_unload_registry: "registry (snd (maybe_unload Y S s)) \<subseteq>\<^sub>m registry s"
  by (cases rule: maybe_unload_cases [of s S Y]) (auto simp: map_le_def)

lemma command_addrs:
  assumes "handle_command Y S cmd s = Some (x, s')"
  shows "doc_name s' = doc_name s \<and> clock s' = clock s \<and> rx s' = rx s \<and> registry s' \<subseteq>\<^sub>m registry s \<and>
    conn_addrs s' \<subseteq> conn_addrs s \<union> add_addrs cmd"
proof (cases cmd)
  case (AddConnection c ack)
  then show ?thesis
    using assms add_connection_addrs [of Y c s] by (auto simp: handle_command_def add_connection_frame Let_def)
next
  case (ClientFrame cid data)
  then have "narrows s s'" using assms narrows_client_frame by (auto simp: handle_command_def)
  then show ?thesis by (auto simp: narrows_def)
next
  case (RemoveConnection cid)
  then have "s' = snd (maybe_unload Y S (remove_connection Y S cid s))" using assms by (simp add: handle_command_def)
  then show ?thesis
    using narrows_remove [of s Y S cid] maybe_unload_registry [of Y S "remove_connection Y S cid s"]
    by (auto simp: narrows_def conn_addrs_def)
next
  case (ExternalFrame data reply)
  then show ?thesis using assms narrows_external [of s Y S data reply] by (auto simp: handle_command_def narrows_def)
next
  case (DirectApply u ack)
  then have "narrows s s'" using assms narrows_apply [of s Y S u Local] by (auto simp: handle_command_def Let_def)
  then show ?thesis by (auto simp: narrows_def)
qed

lemma batch_addrs:
  "run_batch Y S cs s = Some (x, s') \<Longrightarrow>
     doc_name s' = doc_name s \<and> clock s' = clock s \<and> rx s' = rx s \<and> registry s' \<subseteq>\<^sub>m registry s \<and>
     conn_addrs s' \<subseteq> conn_addrs s \<union> (\<Union>c \<in> set cs. add_addrs c)"
proof (induction cs arbitrary: s)
  case (Cons c cs)
  from Cons.prems obtain b t where t: "handle_command Y S c s = Some (b, t)" and
    r: "if b then s' = t else run_batch Y S cs t = Some (x, s')"
    by (auto split: option.splits prod.splits bool.splits)
  have "\<not> b \<Longrightarrow> registry s' \<subseteq>\<^sub>m registry s"
    using command_addrs [OF t] Cons.IH [of t] r map_le_trans by auto
  then show ?case using command_addrs [OF t] Cons.IH [of t] r by (cases b) fastforce+
qed simp

lemma turn_frame:
  assumes "actor_turn Y S s x s'"
  shows "doc_name s' = doc_name s \<and> clock s' = clock s \<and> registry s' \<subseteq>\<^sub>m registry s \<and> addresses s' \<subseteq> addresses s"
  using assms
proof (cases rule: actor_turn.cases)
  case turn_commands
  then obtain batch left t where d: "drain_batch [hd (rx s)] (tl (rx s)) = (batch, left)"
    and r: "run_batch Y S batch (s\<lparr>rx := left\<rparr>) = Some (x, t)" and s': "s' = flush_broadcast Y t"
    by (auto simp: on_commands_def split: list.splits prod.splits)
  have "rx s = batch @ left"
    using turn_commands(1) d drain_batch_take [of "[hd (rx s)]" "tl (rx s)"] by (auto simp: MAX_COALESCE_BATCH_def)
  then show ?thesis
    using batch_addrs [OF r] narrows_flush [of t Y] unfolding s' narrows_def addresses_def by auto
next
  case (turn_stored ok rest)
  then have "s' = snd (on_store_result Y S ok (s\<lparr>store_results := rest\<rparr>))" by simp
  then show ?thesis
    using maybe_unload_registry [of Y S "s\<lparr>store_results := rest, storing := False\<rparr>"]
      maybe_unload_registry [of Y S "mark_dirty (last_origin s) (s\<lparr>store_results := rest, storing := False\<rparr>)"]
    by (simp add: on_store_result_def mark_dirty_def addresses_def conn_addrs_def Let_def)
next
  case turn_timer
  then have "s' = snd (on_deadline Y S s)" by simp
  then show ?thesis
    using maybe_unload_registry [of Y S "run_store Y S s"]
    by (simp add: on_deadline_def spawn_store_def addresses_def conn_addrs_def)
next
  case turn_task
  then show ?thesis by (simp add: store_task_def addresses_def conn_addrs_def split: list.split prod.split)
qed

lemma turn_chans:
  assumes "actor_turn Y S s x s'" and "actor_inv s"
  shows "chans_grow (chans s) (chans s')"
  using assms(1)
proof (cases rule: actor_turn.cases)
  case turn_commands
  then show ?thesis using assms(2) by (blast intro: on_commands_chans)
next
  case (turn_stored ok rest)
  then have "s' = snd (on_store_result Y S ok (s\<lparr>store_results := rest\<rparr>))" by simp
  then show ?thesis by (simp add: on_store_result_def mark_dirty_def Let_def)
next
  case turn_timer
  then have "s' = snd (on_deadline Y S s)" by simp
  then show ?thesis by (simp add: on_deadline_def spawn_store_def)
next
  case turn_task
  then show ?thesis by (simp add: store_task_def split: list.split prod.split)
qed

lemma turn_inv: "actor_turn Y S s x s' \<Longrightarrow> actor_inv s \<Longrightarrow> actor_inv s'"
  by (cases x) (auto intro: inv_actor_step [OF turn_is_step] inv_actor_exit [OF turn_is_exit])

end
