(* ===== verification/Document_Life.thy ===== *)
theory Document_Life
  imports Document_Routes
begin

text \<open>
  What holds along the life of a document. The times of its first and last unsaved change are those of the
  steps that changed it, so the store timer is bounded by the changes themselves, however many follow. And
  what a connection has announced of its presence is remembered for as long as the connection lasts.
\<close>

section \<open>Relations kept by the commands of a batch\<close>

locale command_effects =
  fixes Y :: "('d, 'v, 'u, 'a, 'p) yrs" and S :: "('d, 'j, 'w) server"
    and R :: "('d, 'v, 'a, 'j, 'w) document \<Rightarrow> ('d, 'v, 'a, 'j, 'w) document \<Rightarrow> bool"
  assumes R_trans: "R s t \<Longrightarrow> R t t' \<Longrightarrow> R s t'"
    and R_keeps: "keeps S s s' \<Longrightarrow> R s s'"
    and R_apply: "actor_inv s \<Longrightarrow> R s (apply_and_broadcast Y S u og s)"
    and R_unload: "actor_inv s \<Longrightarrow> maybe_unload Y S s = (False, s') \<Longrightarrow> R s s'"
    and R_flush: "R s (flush_cleared s)"
    and R_mailbox: "R s (s\<lparr>rx := q\<rparr>)"
begin

lemma R_moves: "moves Y S s s' \<Longrightarrow> actor_inv s \<Longrightarrow> R s s'"
  unfolding moves_def using R_keeps R_apply R_trans inv_keeps by blast

lemma R_command:
  assumes "handle_command Y S cmd s = Some (False, s')" and "actor_inv s"
  shows "R s s'"
proof -
  have ok: "conns_ok s" using assms(2) by (simp add: actor_inv_def)
  show ?thesis
  proof (cases cmd)
    case (AddConnection h ack)
    then show ?thesis
      using assms R_keeps [OF keeps_trans [OF keeps_add_connection keeps_acks]] by (auto simp: handle_command_def Let_def)
  next
    case (ClientFrame cid data)
    then show ?thesis using assms by (auto simp: handle_command_def intro: R_moves moves_handle_client_frame [OF ok])
  next
    case (RemoveConnection cid)
    then have "maybe_unload Y S (remove_connection Y S cid s) = (False, s')" using assms(1) by (simp add: handle_command_def)
    from R_unload [OF inv_keeps [OF keeps_remove_connection assms(2)] this]
    show ?thesis by (rule R_trans [OF R_keeps [OF keeps_remove_connection]])
  next
    case (ExternalFrame data reply)
    then show ?thesis using assms by (auto simp: handle_command_def intro: R_moves moves_handle_external_frame [OF ok])
  next
    case (DirectApply u ack)
    then show ?thesis
      using assms R_trans [OF R_apply R_keeps [OF keeps_acks]] by (auto simp: handle_command_def Let_def)
  qed
qed

lemma R_batch: "run_batch Y S (c # cs) s = Some (False, s') \<Longrightarrow> actor_inv s \<Longrightarrow> R s s'"
proof (induction cs arbitrary: c s)
  case Nil
  then show ?case by (auto split: option.splits prod.splits bool.splits intro: R_command)
next
  case (Cons d cs)
  from Cons.prems(1) obtain t where t: "handle_command Y S c s = Some (False, t)" "run_batch Y S (d # cs) t = Some (False, s')"
    by (auto simp del: run_batch.simps(2) simp: run_batch.simps(2) [of Y S c] split: option.splits prod.splits bool.splits)
  show ?case by (rule R_trans [OF R_command [OF t(1) Cons.prems(2)] Cons.IH [OF t(2) inv_handle_command [OF Cons.prems(2) t(1)]]])
qed

lemma R_commands:
  assumes "rx s \<noteq> []" and "on_commands Y S s = Some (False, s')" and "actor_inv s"
  shows "R s s'"
proof -
  obtain cmd rest where rx: "rx s = cmd # rest" using assms(1) by (cases "rx s") auto
  then obtain batch left t where d: "drain_batch [cmd] rest = (batch, left)"
    and r: "run_batch Y S batch (s\<lparr>rx := left\<rparr>) = Some (False, t)" and s': "s' = flush_broadcast Y t"
    using assms(2) by (auto simp: on_commands_def split: prod.splits)
  obtain cs where "batch = cmd # cs" using d drain_batch_take [of "[cmd]" rest] by (auto simp: MAX_COALESCE_BATCH_def)
  then have "R (s\<lparr>rx := left\<rparr>) t" using R_batch r assms(3) by simp
  then show ?thesis unfolding s'
    by (rule R_trans [OF R_trans [OF R_mailbox] R_trans [OF R_flush R_keeps [OF keeps_flush]]])
qed

end

section \<open>The times of unsaved changes\<close>

text \<open>What commands do to the debounce times: nothing happens to them, or a change is booked, and then it is
  the last one, and the first one if there was none before or it has been stored meanwhile.\<close>

definition clocked :: "('d, 'v, 'a, 'j, 'w) document \<Rightarrow> ('d, 'v, 'a, 'j, 'w) document \<Rightarrow> bool" where
  "clocked s s' \<longleftrightarrow> clock s' = clock s \<and> storing s' = storing s \<and>
     (dirty s' \<longrightarrow>
        dirty s \<and> first_dirty_at s' = first_dirty_at s \<and> last_change_at s' = last_change_at s \<and> ydoc s' = ydoc s \<or>
        dirty s \<and> first_dirty_at s' = first_dirty_at s \<and> last_change_at s' = Some (clock s) \<or>
        first_dirty_at s' = Some (clock s) \<and> last_change_at s' = Some (clock s))"

lemma clocked_trans: "clocked s t \<Longrightarrow> clocked t t' \<Longrightarrow> clocked s t'"
  unfolding clocked_def by auto

lemma clocked_same:
  "clock s' = clock s \<Longrightarrow> storing s' = storing s \<Longrightarrow> dirty s' = dirty s \<Longrightarrow> first_dirty_at s' = first_dirty_at s \<Longrightarrow>
     last_change_at s' = last_change_at s \<Longrightarrow> ydoc s' = ydoc s \<Longrightarrow> clocked s s'"
  by (simp add: clocked_def)

lemma run_store_times:
  "dirty (run_store Y S s) \<Longrightarrow> dirty s \<and> first_dirty_at (run_store Y S s) = first_dirty_at s \<and>
     last_change_at (run_store Y S s) = last_change_at s"
  by (auto simp: run_store_def Let_def split: if_splits prod.splits)

lemma clocked_unload: "maybe_unload Y S s = (False, s') \<Longrightarrow> clocked s s'"
  by (cases rule: maybe_unload_cases [of s S Y]) (auto simp: clocked_def dest: run_store_times)

lemma clocked_mark: "actor_inv s \<Longrightarrow> clocked s (mark_dirty og s)"
  by (auto simp: clocked_def mark_dirty_def actor_inv_defs split: option.split)

context yjs
begin

lemma clocked_apply:
  assumes "actor_inv s"
  shows "clocked s (apply_and_broadcast Y S u og s)"
proof (cases rule: apply_and_broadcast_cases [of Y u S og s])
  case undecoded
  then show ?thesis by (simp add: clocked_same)
next
  case (unbooked up d)
  then have "d = ydoc s" using apply_error empty_transaction by blast
  then show ?thesis using unbooked(4) by (simp add: clocked_same)
next
  case (booked up d w)
  then show ?thesis using assms by (auto simp: clocked_def mark_dirty_def actor_inv_defs split: option.split)
qed

end

sublocale yjs \<subseteq> times: command_effects Y S clocked for S
proof (unfold_locales, goal_cases)
  case (1 s t t')
  then show ?case by (rule clocked_trans)
next
  case (2 s s')
  then show ?case by (intro clocked_same) (simp_all add: keepsD)
next
  case (3 s u og)
  then show ?case by (rule clocked_apply)
next
  case (4 s s')
  then show ?case by (blast intro: clocked_unload)
qed (simp_all add: clocked_same flush_cleared_def)

text \<open>As long as no hook vetoes the unloading, an actor that goes on has not stored the document in between.\<close>

definition unvetoed :: "('d, 'j, 'w) server \<Rightarrow> bool" where
  "unvetoed S \<longleftrightarrow> (\<forall>e \<in> set (extensions S). \<forall>p w. fst (before_unload_document e p w) = Inr ())"

definition still_first :: "('d, 'j, 'w) server \<Rightarrow> ('d, 'v, 'a, 'j, 'w) document \<Rightarrow> ('d, 'v, 'a, 'j, 'w) document \<Rightarrow> bool" where
  "still_first S s s' \<longleftrightarrow> (unvetoed S \<and> dirty s \<longrightarrow> dirty s' \<and> first_dirty_at s' = first_dirty_at s)"

lemma unvetoed_run:
  assumes "unvetoed S"
  shows "fst (run_until_err (map (\<lambda>e. before_unload_document e p) (extensions S)) w) = Inr ()"
proof -
  have "fst (run_until_err (map (\<lambda>e. before_unload_document e p) es) w) = Inr ()" if "set es \<subseteq> set (extensions S)" for es
    using that
  proof (induction es arbitrary: w)
    case (Cons e es)
    then have "fst (before_unload_document e p w) = Inr ()" using assms by (simp add: unvetoed_def)
    then show ?case using Cons by (auto split: prod.split sum.split)
  qed simp
  then show ?thesis by simp
qed

lemma unvetoed_stays:
  assumes "unvetoed S" and "maybe_unload Y S s = (False, s')"
  shows "s' = s"
proof (rule ccontr)
  assume n: "s' \<noteq> s"
  obtain w where "run_until_err (map (\<lambda>e. before_unload_document e \<lparr>dp_document_name = doc_name s, dp_clients_count = 0\<rparr>) (extensions S))
      (world (run_store Y S s)) = (Inr (), w)"
    using unvetoed_run [OF assms(1)] by (metis prod.collapse)
  moreover have "(if dirty s then run_store Y S s else s) = run_store Y S s" by (simp add: run_store_def)
  ultimately show False using assms(2) n by (auto simp: maybe_unload_def Let_def split: if_splits)
qed

interpretation dirt: command_effects Y S "still_first S" for Y S
proof (unfold_locales, goal_cases)
  case (2 s s')
  then show ?case by (simp add: still_first_def keepsD)
next
  case (3 s u og)
  then show ?case
    by (cases rule: apply_and_broadcast_cases [of Y u S og s])
      (auto simp: still_first_def mark_dirty_def actor_inv_defs split: option.split)
next
  case (4 s s')
  then show ?case using unvetoed_stays by (auto simp: still_first_def)
qed (auto simp: still_first_def flush_cleared_def)

section \<open>Steps and unsaved changes\<close>

text \<open>A run in which the document is dirty throughout.\<close>

inductive unsaved ::
    "('d, 'v, 'u, 'a, 'p) yrs \<Rightarrow> ('d, 'j, 'w) server \<Rightarrow> ('w \<Rightarrow> 'w \<Rightarrow> bool) \<Rightarrow>
       ('d, 'v, 'a, 'j, 'w) document \<Rightarrow> ('d, 'v, 'a, 'j, 'w) document \<Rightarrow> bool"
  for Y :: "('d, 'v, 'u, 'a, 'p) yrs" and S :: "('d, 'j, 'w) server" and E :: "'w \<Rightarrow> 'w \<Rightarrow> bool"
    and s0 :: "('d, 'v, 'a, 'j, 'w) document" where
  unsaved_refl: "dirty s0 \<Longrightarrow> unsaved Y S E s0 s0"
| unsaved_step: "unsaved Y S E s0 s \<Longrightarrow> actor_step Y S E s s' \<Longrightarrow> dirty s' \<Longrightarrow> unsaved Y S E s0 s'"

text \<open>A step other than a batch of commands, on a document that stays dirty, leaves the first change alone.\<close>

lemma other_step_dirty:
  assumes "actor_step Y S E s s'" and "dirty s'" and "unvetoed S" and "dirty s" and "actor_inv s"
  shows "first_dirty_at s' = first_dirty_at s"
  using assms(1)
proof cases
  case commands
  then show ?thesis using dirt.R_commands [of s Y S s'] assms by (simp add: still_first_def)
next
  case (stored ok rest)
  let ?t = "s\<lparr>store_results := rest, storing := False\<rparr>"
  let ?u = "if \<not> ok then mark_dirty (last_origin ?t) ?t else ?t"
  have "maybe_unload Y S ?u = (False, s')" using stored(2) by (simp add: on_store_result_def Let_def)
  then have "s' = ?u" by (rule unvetoed_stays [OF assms(3)])
  then show ?thesis using assms(4,5) by (auto simp: mark_dirty_def actor_inv_defs split: option.split)
next
  case timer
  show ?thesis
  proof (cases "connections s = []")
    case True
    then have "maybe_unload Y S (run_store Y S s) = (False, s')" using timer(2) by (simp add: on_deadline_def)
    then have "s' = run_store Y S s" by (rule unvetoed_stays [OF assms(3)])
    then show ?thesis using run_store_times [of Y S s] assms(2) by simp
  next
    case False
    then have "s' = spawn_store Y s" using timer(2) by (simp add: on_deadline_def)
    then show ?thesis using assms(2) by (simp add: spawn_store_def split: if_splits)
  qed
next
  case task
  then show ?thesis by (simp add: store_task_def split: list.split prod.split)
qed simp_all

lemma unsaved_first:
  assumes "unsaved Y S E s u" and "unvetoed S" and "actor_inv s"
  shows "actor_inv u \<and> dirty u \<and> first_dirty_at u = first_dirty_at s"
  using assms(1)
proof (induction rule: unsaved.induct)
  case unsaved_refl
  then show ?case using assms(3) by simp
next
  case (unsaved_step t u)
  then show ?case using other_step_dirty [OF unsaved_step.hyps(2,3) assms(2)] inv_actor_step [OF unsaved_step.hyps(2)] by simp
qed

context yjs
begin

text \<open>The step with which a clean document becomes dirty.\<close>

lemma first_change:
  assumes "actor_step Y S E s s'" and "actor_inv s" and "\<not> dirty s" and "dirty s'"
  shows "first_dirty_at s' = Some (clock s)"
  using assms(1)
proof cases
  case commands
  then show ?thesis using times.R_commands [OF commands assms(2)] assms(3,4) by (auto simp: clocked_def)
next
  case (stored ok rest)
  let ?t = "s\<lparr>store_results := rest, storing := False\<rparr>"
  let ?u = "if \<not> ok then mark_dirty (last_origin ?t) ?t else ?t"
  have none: "first_dirty_at s = None" using assms(2,3) by (auto simp: actor_inv_defs)
  have "maybe_unload Y S ?u = (False, s')" using stored(2) by (simp add: on_store_result_def Let_def)
  then have "clocked ?u s'" by (rule clocked_unload)
  then show ?thesis using assms(3,4) none by (auto simp: clocked_def mark_dirty_def split: if_splits)
next
  case timer
  then show ?thesis using assms(3) by (simp add: deadline_reached_def store_deadline_def)
next
  case task
  then show ?thesis using assms(3,4) by (simp add: store_task_def split: list.splits prod.splits)
qed (use assms(3,4) in simp_all)

text \<open>A step that changes the document sets the time of the last change.\<close>

lemma last_change:
  assumes "actor_step Y S E s s'" and "actor_inv s" and "ydoc s' \<noteq> ydoc s" and "dirty s'"
  shows "last_change_at s' = Some (clock s) \<and> storing s' = storing s"
proof -
  have "rx s \<noteq> []" "on_commands Y S s = Some (False, s')" using step_keeps_document [OF assms(1)] assms(3) by blast+
  then have "clocked s s'" using assms(2) by (rule times.R_commands)
  then show ?thesis using assms(3,4) by (auto simp: clocked_def)
qed

end

section \<open>The store timer\<close>

text \<open>C15: Unsaved changes do not wait for longer than configured. Let a step make a clean document dirty, and
  follow the actor for as long as the document stays dirty, whatever it does. Whenever no store is in flight, the
  loop's timer is armed, for at most \<open>max_debounce\<close> after the time of that first change, however many changes
  have followed; so once that time has come the timer branch is ready. And a step that changes the document
  moves the timer to \<open>debounce\<close> after this change, but never beyond that bound. When the timer fires while clients are
  connected, the full state of the document goes to a store task and the document is clean. (No extension is to veto
  the unloading of documents; such a veto lets a document be stored and go on in the middle of a batch.)\<close>

theorem unsaved_changes_reach_the_store:
  assumes "yjs Y leq" and "unvetoed S"
    and "actor_reach Y S E (spawn Y S nm cs now reg w) s" and "\<not> dirty s" and "actor_step Y S E s s1"
    and "unsaved Y S E s1 u" and "\<not> storing u"
  shows "\<exists>d. store_deadline S u = Some d \<and> d \<le> clock s + max_debounce (config S) \<and>
    (clock s + max_debounce (config S) \<le> clock u \<longrightarrow> deadline_reached S u) \<and>
    (\<forall>v. actor_step Y S E u v \<and> ydoc v \<noteq> ydoc u \<and> dirty v \<longrightarrow>
       store_deadline S v = Some (min (clock u + debounce (config S)) (clock s + max_debounce (config S)))) \<and>
    (connections u \<noteq> [] \<longrightarrow> (\<exists>v. on_deadline Y S u = (False, v) \<and> \<not> dirty v \<and> store_tasks v = store_tasks u @
       [(full_state Y u, \<lparr>dp_document_name = doc_name u, dp_clients_count = length (connections u)\<rparr>)]))"
proof -
  have inv: "actor_inv s" by (rule inv_reach [OF assms(3) inv_spawn])
  have inv1: "actor_inv s1" by (rule inv_actor_step [OF assms(5) inv])
  have "dirty s1" using assms(6) by (induction rule: unsaved.induct) simp_all
  then have f1: "first_dirty_at s1 = Some (clock s)" by (rule yjs.first_change [OF assms(1,5) inv assms(4)])
  have u: "actor_inv u" "dirty u" "first_dirty_at u = Some (clock s)" using unsaved_first [OF assms(6,2) inv1] f1 by simp_all
  then obtain last where l: "last_change_at u = Some last" by (auto simp: actor_inv_defs)
  have d: "store_deadline S u = Some (min (last + debounce (config S)) (clock s + max_debounce (config S)))"
    using u l assms(7) by (simp add: store_deadline_def)
  have "store_deadline S v = Some (min (clock u + debounce (config S)) (clock s + max_debounce (config S)))"
    if v: "actor_step Y S E u v" "ydoc v \<noteq> ydoc u" "dirty v" for v
    using yjs.last_change [OF assms(1) v(1) u(1) v(2,3)] other_step_dirty [OF v(1,3) assms(2) u(2,1)] u(3) v(3) assms(7)
    by (simp add: store_deadline_def)
  moreover have "\<exists>v. on_deadline Y S u = (False, v) \<and> \<not> dirty v \<and> store_tasks v = store_tasks u @
      [(full_state Y u, \<lparr>dp_document_name = doc_name u, dp_clients_count = length (connections u)\<rparr>)]" if "connections u \<noteq> []"
    using that u(2) assms(7) by (simp add: on_deadline_def spawn_store_def)
  ultimately show ?thesis using d by (auto simp: deadline_reached_def)
qed

text \<open>For the witness, a programmatic edit makes the document dirty at time 0, and time passes.\<close>

definition waiting_doc :: "nat \<Rightarrow> (bytes, bytes, u64 list, string, unit) document" where
  "waiting_doc t = demo_spawn\<lparr>rx := [], ydoc := [7], dirty := True, first_dirty_at := Some 0, last_change_at := Some 0,
     acks := [0], clock := t\<rparr>"

theorem unsaved_changes_reach_the_store_witness:
  "deadline_reached demo_server (waiting_doc 10000) \<and> (\<exists>d \<le> 10000. store_deadline demo_server (waiting_doc 10000) = Some d)"
proof -
  let ?s = "demo_spawn\<lparr>rx := [DirectApply [7] 0]\<rparr>"
  have "actor_step opset demo_server (=) demo_spawn ?s"
    using arrive [of opset demo_server "(=)" demo_spawn "DirectApply [7] 0"] by (simp add: demo_spawn_eq)
  then have r: "actor_reach opset demo_server (=) demo_spawn ?s" by (rule reach_step [OF reach_refl])
  have e: "actor_step opset demo_server (=) ?s (waiting_doc 0)"
    by (rule commands)
      (simp_all add: waiting_doc_def demo_simps on_commands_def handle_command_def apply_and_broadcast_def mark_dirty_def
        flush_broadcast_def broadcast_with_def MAX_COALESCE_BATCH_def)
  have "actor_step opset demo_server (=) (waiting_doc 0) (waiting_doc 10000)"
    using tick [of opset demo_server "(=)" "waiting_doc 0" 10000] by (simp add: waiting_doc_def demo_spawn_eq)
  then have p: "unsaved opset demo_server (=) (waiting_doc 0) (waiting_doc 10000)"
    using unsaved_step [OF unsaved_refl, of "waiting_doc 0" opset demo_server "(=)" "waiting_doc 10000"] by (simp add: waiting_doc_def)
  have "\<not> dirty ?s" "clock ?s = 0" "\<not> storing (waiting_doc 10000)" "clock (waiting_doc 10000) = 10000"
    by (simp_all add: demo_spawn_eq waiting_doc_def)
  then show ?thesis
    using unsaved_changes_reach_the_store [OF ops.yjs_axioms _ r [unfolded demo_spawn_def], folded demo_spawn_def, OF _ _ e p]
    by (auto simp: unvetoed_def default_configuration_def from_secs_def)
qed

section \<open>Awareness\<close>

lemma evict_awareness:
  "\<exists>ids'. awareness (evict_lagging Y ids s) = fold (aw_remove_state Y) ids' (awareness s)"
proof (induction ids arbitrary: s)
  case Nil
  have "awareness (evict_lagging Y [] s) = fold (aw_remove_state Y) [] (awareness s)" by simp
  then show ?case by blast
next
  case (Cons i ids)
  show ?case
  proof (cases "map_of (connections s) i")
    case None
    then show ?thesis using Cons.IH [of s] by simp
  next
    case (Some conn)
    let ?t = "s\<lparr>connections := AList.delete i (connections s),
        awareness := fold (aw_remove_state Y) (client_ids conn) (awareness s),
        chans := send_close conn RESET_CONNECTION (chans s)\<rparr>"
    obtain ids' where "awareness (evict_lagging Y ids ?t) = fold (aw_remove_state Y) ids' (awareness ?t)"
      using Cons.IH [of ?t] by blast
    then have "awareness (evict_lagging Y (i # ids) s) = fold (aw_remove_state Y) (client_ids conn @ ids') (awareness s)"
      using Some by simp
    then show ?thesis by blast
  qed
qed

lemma broadcast_awareness_state:
  "\<exists>ids. awareness (broadcast_awareness Y u s) = fold (aw_remove_state Y) ids (awareness s)"
proof -
  obtain lag cs where "broadcast_awareness Y u s = evict_lagging Y lag (s\<lparr>chans := cs\<rparr>)"
    unfolding broadcast_awareness_def broadcast_with_def Let_def case_prod_beta by blast
  then show ?thesis using evict_awareness [of Y lag "s\<lparr>chans := cs\<rparr>"] by auto
qed

lemma broadcast_with_connections: "set (connections (broadcast_with Y mk s)) \<subseteq> set (connections s)"
  using broadcast_with_shape [of Y mk s] by auto

lemma tracked_after_awareness:
  assumes "conns_ok s" and "dec_buf (wire Y) (decoder frame) = Inr (buf, rest)" and "aw_decode Y buf = Some p"
    and "aw_apply Y p (origin_encode (Connection cid)) (awareness s) = (True, a)"
    and "map_of (connections (handle_awareness Y S frame (Connection cid) s)) cid = Some c'"
  shows "set (aw_clients Y p) \<subseteq> set (client_ids c')"
proof -
  let ?t = "track_clients (Connection cid) (aw_clients Y p) (s\<lparr>awareness := a\<rparr>)"
  have ok0: "conns_ok (s\<lparr>awareness := a\<rparr>)" using assms(1) by (simp add: conns_ok_def)
  have ok: "conns_ok ?t" by (rule keeps_conns_ok [OF keeps_track_clients [OF ok0] ok0])
  have sub: "set (connections (handle_awareness Y S frame (Connection cid) s)) \<subseteq> set (connections ?t)"
    using assms(2,3,4) broadcast_with_connections [of Y _ ?t]
    by (simp add: handle_awareness_def broadcast_awareness_def Let_def split: option.split)
  have "(cid, c') \<in> set (connections ?t)" using sub map_of_SomeD [OF assms(5)] by blast
  then have t: "map_of (connections ?t) cid = Some c'" using ok by (simp add: conns_ok_def)
  then show ?thesis
    by (auto simp: track_clients_def update_conv fold_insert_set split: option.splits)
qed

lemma remove_connection_awareness:
  assumes "conns_ok s" and "map_of (connections s) cid = Some h"
  shows "\<exists>ids. awareness (remove_connection Y S cid s) = fold (aw_remove_state Y) (client_ids h @ ids) (awareness s) \<and>
    map_of (connections (remove_connection Y S cid s)) cid = None"
proof -
  let ?s2 = "s\<lparr>connections := AList.delete cid (connections s),
    awareness := fold (aw_remove_state Y) (client_ids h) (awareness s)\<rparr>"
  have gone: "map_of cn cid = None" if "set cn \<subseteq> set (AList.delete cid (connections s))" for cn
    using that by (auto simp: map_of_eq_None_iff dest: map_of_deleteD)
  show ?thesis
  proof (cases "client_ids h \<noteq> [] \<and> aw_update_with_clients Y (client_ids h) (awareness ?s2) \<noteq> None")
    case True
    then obtain u where u: "client_ids h \<noteq> []" "aw_update_with_clients Y (client_ids h) (awareness ?s2) = Some u" by auto
    have r: "awareness (remove_connection Y S cid s) = awareness (broadcast_awareness Y (aw_encode Y u) ?s2)"
      "connections (remove_connection Y S cid s) = connections (broadcast_awareness Y (aw_encode Y u) ?s2)"
      using assms(2) u by (simp_all add: remove_connection_def Let_def case_prod_beta)
    have "set (connections (broadcast_awareness Y (aw_encode Y u) ?s2)) \<subseteq> set (AList.delete cid (connections s))"
      using broadcast_with_connections [of Y _ ?s2] by (simp add: broadcast_awareness_def)
    then show ?thesis
      using broadcast_awareness_state [of Y "aw_encode Y u" ?s2] gone unfolding r by auto
  next
    case False
    then have r: "awareness (remove_connection Y S cid s) = fold (aw_remove_state Y) (client_ids h @ []) (awareness s)"
      "connections (remove_connection Y S cid s) = AList.delete cid (connections s)"
      using assms(2) by (auto simp: remove_connection_def Let_def case_prod_beta)
    then show ?thesis using gone [OF order_refl] unfolding r by blast
  qed
qed

text \<open>What happens to a connection between one moment of the actor's life and another, be it in the middle of a
  batch: commands, flushes and all other steps, as long as the connection is not replaced by another one of its id.\<close>

inductive meanwhile ::
    "('d, 'v, 'u, 'a, 'p) yrs \<Rightarrow> ('d, 'j, 'w) server \<Rightarrow> ('w \<Rightarrow> 'w \<Rightarrow> bool) \<Rightarrow> u64 \<Rightarrow>
       ('d, 'v, 'a, 'j, 'w) document \<Rightarrow> ('d, 'v, 'a, 'j, 'w) document \<Rightarrow> bool"
  for Y :: "('d, 'v, 'u, 'a, 'p) yrs" and S :: "('d, 'j, 'w) server" and E :: "'w \<Rightarrow> 'w \<Rightarrow> bool" and cid :: u64
    and s0 :: "('d, 'v, 'a, 'j, 'w) document" where
  meanwhile_refl: "meanwhile Y S E cid s0 s0"
| meanwhile_command: "meanwhile Y S E cid s0 s \<Longrightarrow> handle_command Y S cmd s = Some (False, s') \<Longrightarrow>
    (\<And>c ack. cmd = AddConnection c ack \<Longrightarrow> conn_id c \<noteq> cid) \<Longrightarrow> meanwhile Y S E cid s0 s'"
| meanwhile_flush: "meanwhile Y S E cid s0 s \<Longrightarrow> meanwhile Y S E cid s0 (flush_broadcast Y s)"
| meanwhile_step: "meanwhile Y S E cid s0 s \<Longrightarrow> actor_step Y S E s s' \<Longrightarrow>
    (\<And>c ack. AddConnection c ack \<in> set (rx s) \<Longrightarrow> conn_id c \<noteq> cid) \<Longrightarrow> meanwhile Y S E cid s0 s'"

definition remembers :: "u64 \<Rightarrow> u64 set \<Rightarrow> ('d, 'v, 'a, 'j, 'w) document \<Rightarrow> bool" where
  "remembers cid ids s \<longleftrightarrow> (\<forall>c. (cid, c) \<in> set (connections s) \<longrightarrow> ids \<subseteq> set (client_ids c))"

lemma recalls_remembers: "recalls s s' \<Longrightarrow> remembers cid ids s \<Longrightarrow> remembers cid ids s'"
  unfolding recalls_def remembers_def by (meson order_trans)

lemma narrows_remembers: "narrows s s' \<Longrightarrow> remembers cid ids s \<Longrightarrow> remembers cid ids s'"
  by (blast intro: recalls_remembers narrows_recalls)

lemma same_remembers: "connections s' = connections s \<Longrightarrow> remembers cid ids s' = remembers cid ids s"
  by (simp add: remembers_def)

lemma command_remembers:
  assumes "handle_command Y S cmd s = Some (x, s')" and "remembers cid ids s"
    and "\<And>c ack. cmd = AddConnection c ack \<Longrightarrow> conn_id c \<noteq> cid"
  shows "remembers cid ids s'"
proof (cases cmd)
  case (AddConnection c ack)
  then have "connections s' = AList.update (conn_id c) c (connections s)"
    using assms(1) by (auto simp: handle_command_def add_connection_def Let_def split: option.split)
  then show ?thesis
    using assms(2,3) AddConnection set_AList_update [of "conn_id c" c "connections s"] by (auto simp: remembers_def)
next
  case (ClientFrame i data)
  then have "narrows s s'" using assms(1) narrows_client_frame by (auto simp: handle_command_def)
  then show ?thesis using assms(2) by (rule narrows_remembers)
next
  case (RemoveConnection i)
  then have "s' = snd (maybe_unload Y S (remove_connection Y S i s))" using assms(1) by (simp add: handle_command_def)
  then show ?thesis using narrows_remembers [OF narrows_remove assms(2)] by (simp add: remembers_def)
next
  case (ExternalFrame data reply)
  then have "s' = handle_external_frame Y S data reply s" using assms(1) by (simp add: handle_command_def)
  then show ?thesis using narrows_remembers [OF narrows_external assms(2)] by simp
next
  case (DirectApply u ack)
  then show ?thesis
    using assms(1) narrows_remembers [OF narrows_apply assms(2)] by (auto simp: handle_command_def Let_def remembers_def)
qed

lemma batch_remembers:
  "run_batch Y S cs s = Some (x, s') \<Longrightarrow> remembers cid ids s \<Longrightarrow>
     (\<And>c ack. AddConnection c ack \<in> set cs \<Longrightarrow> conn_id c \<noteq> cid) \<Longrightarrow> remembers cid ids s'"
proof (induction cs arbitrary: s)
  case (Cons d cs)
  from Cons.prems(1) obtain b t where t: "handle_command Y S d s = Some (b, t)" and
    r: "if b then s' = t else run_batch Y S cs t = Some (x, s')"
    by (auto split: option.splits prod.splits bool.splits)
  have "conn_id c \<noteq> cid" if "d = AddConnection c ack" for c ack using Cons.prems(3) [of c ack] that by simp
  then have "remembers cid ids t" by (rule command_remembers [OF t Cons.prems(2)])
  then show ?case using Cons.IH [of t] r Cons.prems(3) by (cases b) auto
qed simp

lemma step_remembers:
  assumes "actor_step Y S E s s'" and "remembers cid ids s"
    and "\<And>c ack. AddConnection c ack \<in> set (rx s) \<Longrightarrow> conn_id c \<noteq> cid"
  shows "remembers cid ids s'"
  using assms(1)
proof cases
  case commands
  then obtain batch left t where d: "drain_batch [hd (rx s)] (tl (rx s)) = (batch, left)"
    and r: "run_batch Y S batch (s\<lparr>rx := left\<rparr>) = Some (False, t)" and s': "s' = flush_broadcast Y t"
    by (auto simp: on_commands_def split: list.splits prod.splits)
  have rx: "rx s = batch @ left"
    using commands(1) d drain_batch_take [of "[hd (rx s)]" "tl (rx s)"] by (auto simp: MAX_COALESCE_BATCH_def)
  have "remembers cid ids t"
    by (rule batch_remembers [OF r]) (use assms(2,3) rx in \<open>auto simp: remembers_def\<close>)
  then show ?thesis unfolding s' by (rule narrows_remembers [OF narrows_flush])
next
  case (stored ok rest)
  then have "s' = snd (on_store_result Y S ok (s\<lparr>store_results := rest\<rparr>))" by simp
  then show ?thesis using assms(2) by (simp add: on_store_result_def mark_dirty_def remembers_def Let_def)
next
  case timer
  then have "s' = snd (on_deadline Y S s)" by simp
  then show ?thesis using assms(2) by (simp add: on_deadline_def spawn_store_def remembers_def)
next
  case task
  then show ?thesis using assms(2) by (simp add: store_task_def remembers_def split: list.split prod.split)
qed (use assms(2) in \<open>simp_all add: remembers_def\<close>)

lemma meanwhile_remembers:
  assumes "meanwhile Y S E cid s0 s" and "actor_inv s0" and "remembers cid ids s0"
  shows "actor_inv s \<and> remembers cid ids s"
  using assms(1)
proof (induction rule: meanwhile.induct)
  case meanwhile_refl
  then show ?case using assms by simp
next
  case (meanwhile_command s cmd s')
  then show ?case using inv_handle_command [OF _ meanwhile_command.hyps(2)] command_remembers [OF meanwhile_command.hyps(2)] by blast
next
  case (meanwhile_flush s)
  then show ?case using inv_flush narrows_remembers [OF narrows_flush] by blast
next
  case (meanwhile_step s s')
  then show ?case using inv_actor_step [OF meanwhile_step.hyps(2)] step_remembers [OF meanwhile_step.hyps(2)] by blast
qed

text \<open>C32: A client's presence ends with its connection. Take any awareness update a connection has ever sent and the
  server has applied, and let anything happen in between, further awareness updates of this and other connections
  included. When the connection is removed, its registration is gone and the awareness state of every client id that
  update named is removed. As this holds of each of its updates, it holds of all ids the connection has announced.\<close>

theorem presence_ends_with_connection:
  assumes "actor_inv s" and "dec_buf (wire Y) (decoder frame) = Inr (buf, rest)" and "aw_decode Y buf = Some p"
    and "aw_apply Y p (origin_encode (Connection cid)) (awareness s) = (True, a)"
    and "meanwhile Y S E cid (handle_awareness Y S frame (Connection cid) s) s2" and "map_of (connections s2) cid = Some c"
  shows "\<exists>ids. set (aw_clients Y p) \<subseteq> set ids \<and>
    awareness (remove_connection Y S cid s2) = fold (aw_remove_state Y) ids (awareness s2) \<and>
    map_of (connections (remove_connection Y S cid s2)) cid = None"
proof -
  let ?s1 = "handle_awareness Y S frame (Connection cid) s"
  have ok: "conns_ok s" using assms(1) by (simp add: actor_inv_def)
  have inv1: "actor_inv ?s1" by (rule inv_keeps [OF keeps_handle_awareness [OF ok] assms(1)])
  have "remembers cid (set (aw_clients Y p)) ?s1"
    using tracked_after_awareness [OF ok assms(2-4), of S] inv1 by (auto simp: remembers_def actor_inv_def conns_ok_def)
  then have s2: "actor_inv s2" "remembers cid (set (aw_clients Y p)) s2"
    using meanwhile_remembers [OF assms(5) inv1] by blast+
  then have "set (aw_clients Y p) \<subseteq> set (client_ids c)" using map_of_SomeD [OF assms(6)] by (simp add: remembers_def)
  moreover have "conns_ok s2" using s2(1) by (simp add: actor_inv_def)
  then obtain ids where "awareness (remove_connection Y S cid s2) = fold (aw_remove_state Y) (client_ids c @ ids) (awareness s2)"
    and "map_of (connections (remove_connection Y S cid s2)) cid = None"
    using remove_connection_awareness [OF _ assms(6)] by blast
  ultimately show ?thesis by (intro exI [of _ "client_ids c @ ids"]) auto
qed

lemma broadcast_single_accepted:
  assumes "connections s = [(k, c)]" and "length (queue (chans s (outbound c))) < cap (chans s (outbound c))"
  shows "connections (broadcast_with Y mk s) = [(k, c)]"
  using assms by (simp add: broadcast_with_def send_frame_def chan_send_def try_send_def Let_def)

text \<open>Two awareness frames of one connection: first for the client id 5, then for 6.\<close>

definition presence_frame :: "u64 \<Rightarrow> incoming_frame" where
  "presence_frame i = \<lparr>routing_key = ''doc'', message_type = Awareness, decoder = enc_buf (wire opset) (aw_encode opset [i])\<rparr>"

definition presence_command :: "u64 \<Rightarrow> string doc_command" where
  "presence_command i = ClientFrame 1 (enc_string lib0 ''doc'' @ enc_var lib0 (type_code Awareness) @ enc_buf lib0 (aw_encode opset [i]))"

definition present_doc :: "u64 list \<Rightarrow> (bytes, bytes, u64 list, string, unit) document" where
  "present_doc is = fold (\<lambda>i. handle_awareness opset demo_server (presence_frame i) (Connection 1)) is (demo_doc False)"

lemma presence_frame_parts:
  "dec_buf (wire opset) (decoder (presence_frame i)) = Inr (aw_encode opset [i], [])" "aw_decode opset (aw_encode opset [i]) = Some [i]"
  by (simp_all add: presence_frame_def opset_aw_roundtrip) (simp add: opset_def)

lemma presence_awareness:
  assumes "connections s = [(1, c)]" and "length (queue (chans s (outbound c))) < cap (chans s (outbound c))"
  shows "connections (handle_awareness opset demo_server (presence_frame i) (Connection 1) s) =
      [(1, c\<lparr>client_ids := List.insert i (client_ids c)\<rparr>)]"
    and "cap (chans (handle_awareness opset demo_server (presence_frame i) (Connection 1) s) (outbound c)) = cap (chans s (outbound c))"
    and "length (queue (chans (handle_awareness opset demo_server (presence_frame i) (Connection 1) s) (outbound c))) \<le>
      Suc (length (queue (chans s (outbound c))))"
  using assms presence_frame_parts [of i]
  by (simp_all add: handle_awareness_def track_clients_def broadcast_awareness_def broadcast_with_def send_frame_def chan_send_def
      try_send_def Let_def opset_def split: option.split)

lemma presence_command:
  assumes "connections s = [(1, c)]"
  shows "handle_command opset demo_server (presence_command i) s =
    Some (False, handle_awareness opset demo_server (presence_frame i) (Connection 1) s)"
proof -
  have "parse lib0 (enc_string lib0 ''doc'' @ enc_var lib0 (type_code Awareness) @ enc_buf lib0 (aw_encode opset [i])) =
      Inr (presence_frame i)"
    using l0.parse_frame [OF _ from_u64_type_code, of "''doc''" Awareness "enc_buf lib0 (aw_encode opset [i])"]
    by (simp add: presence_frame_def opset_def)
  then show ?thesis
    using assms by (simp add: handle_command_def handle_client_frame_def presence_command_def presence_frame_def) (simp add: opset_def)
qed

theorem presence_ends_with_connection_witness:
  "\<exists>ids. 5 \<in> set ids \<and>
     awareness (remove_connection opset demo_server 1 (present_doc [5, 6])) = fold removeAll ids (awareness (present_doc [5, 6]))"
proof -
  note parts = presence_frame_parts [of 5]
  have a: "aw_apply opset [5] (origin_encode (Connection 1)) (awareness (demo_doc False)) = (True, [5])"
    by (simp add: opset_def demo_doc_def demo_spawn_eq news_def)
  have inv: "actor_inv (demo_doc False)" by (simp add: actor_inv_defs conns_ok_def demo_doc_def demo_spawn_eq demo_conn_def)
  let ?s = "demo_doc False" and ?s1 = "handle_awareness opset demo_server (presence_frame 5) (Connection 1) (demo_doc False)"
  have c: "connections ?s = [(1, demo_conn False)]" "length (queue (chans ?s (outbound (demo_conn False)))) = 0"
    "cap (chans ?s (outbound (demo_conn False))) = 8"
    by (simp_all add: demo_doc_def demo_spawn_eq demo_chan_def)
  note one = presence_awareness [OF c(1), of 5, unfolded c(2,3)]
  have c1: "connections ?s1 = [(1, (demo_conn False)\<lparr>client_ids := List.insert 5 (client_ids (demo_conn False))\<rparr>)]"
    by (rule one) simp
  have "\<exists>c. map_of (connections (present_doc [5, 6])) 1 = Some c"
    using presence_awareness(1) [OF c1, of 6] one(2,3) by (simp add: present_doc_def)
  moreover have "meanwhile opset demo_server (=) 1 ?s1 (present_doc [5, 6])"
    using meanwhile_command [OF meanwhile_refl presence_command [OF c1, of 6], where E = "(=)" and cid = 1]
    by (simp add: present_doc_def presence_command_def)
  ultimately have "\<exists>ids. set (aw_clients opset [5]) \<subseteq> set ids \<and>
      awareness (remove_connection opset demo_server 1 (present_doc [5, 6])) = fold (aw_remove_state opset) ids (awareness (present_doc [5, 6]))"
    using presence_ends_with_connection [OF inv parts a] by blast
  moreover have "aw_clients opset [5] = [5]" "aw_remove_state opset = removeAll" by (simp_all add: opset_def)
  ultimately show ?thesis by auto
qed

end
