(* ===== verification/Storage.thy ===== *)
theory Storage
  imports Document_Sync
begin

text \<open>
  Persistence and logging extensions (\<open>extensions/database.rs\<close>, \<open>extensions/sqlite.rs\<close>,
  \<open>extensions/logger.rs\<close>). A storage backend is a record of its two operations on the hook state; the
  locale \<open>store_backend\<close> states what a backend promises about the contents \<open>saved\<close> it keeps. The
  in-memory backend and the SQLite backend (over the documented behaviour of the SQLite library) are
  shown to keep the promise, and the \<open>Database\<close> adapter is shown to write through to its backend.
\<close>

section \<open>The Storage trait and the Database adapter\<close>

record 'w storage =
  fetch :: "string \<Rightarrow> 'w \<Rightarrow> (string + bytes option) \<times> 'w"
  store :: "string \<Rightarrow> bytes \<Rightarrow> 'w \<Rightarrow> (string + unit) \<times> 'w"

text \<open>The messages of the two load errors end in the text of the library's error, which is left out.\<close>

definition database_load ::
    "('d, 'v, 'u, 'a, 'p) yrs \<Rightarrow> 'w storage \<Rightarrow> document_payload \<Rightarrow> 'd \<times> 'w \<Rightarrow> hook_result \<times> 'd \<times> 'w" where
  "database_load Y st payload dw =
     (case dw of (doc, w) \<Rightarrow>
        (case fetch st (dp_document_name payload) w of
           (Inr (Some state), w) \<Rightarrow>
             (case decode_v1 Y state of
                None \<Rightarrow> (Inl (hook_error_new ''invalid stored update''), doc, w)
              | Some update \<Rightarrow>
                  (case apply_update Y update doc of
                     (False, doc) \<Rightarrow> (Inl (hook_error_new ''apply stored update''), doc, w)
                   | (True, doc) \<Rightarrow> (Inr (), doc, w)))
         | (Inr None, w) \<Rightarrow> (Inr (), doc, w)
         | (Inl e, w) \<Rightarrow> (Inl (hook_error_new e), doc, w)))"

definition database_store ::
    "'w storage \<Rightarrow> bytes \<Rightarrow> document_payload \<Rightarrow> 'w \<Rightarrow> hook_result \<times> 'w" where
  "database_store st state payload w =
     (case store st (dp_document_name payload) state w of
        (Inr _, w) \<Rightarrow> (Inr (), w)
      | (Inl e, w) \<Rightarrow> (Inl (hook_error_new e), w))"

definition database_extension ::
    "('d, 'v, 'u, 'a, 'p) yrs \<Rightarrow> 'w storage \<Rightarrow> ('d, 'j, 'w) extension" where
  "database_extension Y st =
     default_extension\<lparr>ext_name := ''database'', on_load_document := database_load Y st,
       on_store_document := database_store st\<rparr>"

section \<open>MemoryStorage\<close>

text \<open>The map lives somewhere in the hook state; \<open>get\<close> and \<open>put\<close> read and write it there.\<close>

definition memory_fetch :: "('w \<Rightarrow> (string \<rightharpoonup> bytes)) \<Rightarrow> string \<Rightarrow> 'w \<Rightarrow> (string + bytes option) \<times> 'w" where
  "memory_fetch get nm w = (Inr (get w nm), w)"

definition memory_store ::
    "('w \<Rightarrow> (string \<rightharpoonup> bytes)) \<Rightarrow> ((string \<rightharpoonup> bytes) \<Rightarrow> 'w \<Rightarrow> 'w) \<Rightarrow> string \<Rightarrow> bytes \<Rightarrow> 'w \<Rightarrow>
       (string + unit) \<times> 'w" where
  "memory_store get put nm state w = (Inr (), put ((get w)(nm \<mapsto> state)) w)"

definition memory_storage ::
    "('w \<Rightarrow> (string \<rightharpoonup> bytes)) \<Rightarrow> ((string \<rightharpoonup> bytes) \<Rightarrow> 'w \<Rightarrow> 'w) \<Rightarrow> 'w storage" where
  "memory_storage get put = \<lparr>fetch = memory_fetch get, store = memory_store get put\<rparr>"

section \<open>SqliteStorage\<close>

definition SCHEMA :: string where
  "SCHEMA = ''CREATE TABLE IF NOT EXISTS \"documents\" (\"name\" varchar(255) NOT NULL,\"data\" blob NOT NULL,UNIQUE(name))''"

definition SELECT :: string where
  "SELECT = ''SELECT data FROM \"documents\" WHERE name = ?1 ORDER BY rowid DESC LIMIT 1''"

definition UPSERT :: string where
  "UPSERT = ''INSERT INTO \"documents\" (\"name\", \"data\") VALUES (?1, ?2) ON CONFLICT(name) DO UPDATE SET data = ?2''"

text \<open>What the code calls of \<open>rusqlite\<close>: opening a database, running a batch, preparing a statement
  (an error or none), reading one row, and executing a statement with a name and a blob.\<close>

record ('p, 'w) sqlite =
  sq_open :: "'p \<Rightarrow> 'w \<Rightarrow> (string + unit) \<times> 'w"
  sq_execute_batch :: "string \<Rightarrow> 'w \<Rightarrow> (string + unit) \<times> 'w"
  sq_prepare_cached :: "string \<Rightarrow> 'w \<Rightarrow> string option"
  sq_query_row :: "string \<Rightarrow> string \<Rightarrow> 'w \<Rightarrow> string + bytes"
  sq_execute :: "string \<Rightarrow> string \<Rightarrow> bytes \<Rightarrow> 'w \<Rightarrow> (string + unit) \<times> 'w"

definition sqlite_open :: "('p, 'w) sqlite \<Rightarrow> 'p \<Rightarrow> 'w \<Rightarrow> (string + unit) \<times> 'w" where
  "sqlite_open Q path w =
     (case sq_open Q path w of
        (Inl e, w) \<Rightarrow> (Inl e, w)
      | (Inr _, w) \<Rightarrow> sq_execute_batch Q SCHEMA w)"

text \<open>\<open>query_row(..).ok()\<close>: any error of the query reads as no row.\<close>

definition sqlite_fetch :: "('p, 'w) sqlite \<Rightarrow> string \<Rightarrow> 'w \<Rightarrow> (string + bytes option) \<times> 'w" where
  "sqlite_fetch Q nm w =
     (case sq_prepare_cached Q SELECT w of
        Some e \<Rightarrow> (Inl e, w)
      | None \<Rightarrow>
          (case sq_query_row Q SELECT nm w of
             Inr data \<Rightarrow> (Inr (Some data), w)
           | Inl _ \<Rightarrow> (Inr None, w)))"

definition sqlite_store :: "('p, 'w) sqlite \<Rightarrow> string \<Rightarrow> bytes \<Rightarrow> 'w \<Rightarrow> (string + unit) \<times> 'w" where
  "sqlite_store Q nm state w = sq_execute Q UPSERT nm state w"

definition sqlite_storage :: "('p, 'w) sqlite \<Rightarrow> 'w storage" where
  "sqlite_storage Q = \<lparr>fetch = sqlite_fetch Q, store = sqlite_store Q\<rparr>"

definition sqlite_in_memory :: "(string, 'w) sqlite \<Rightarrow> 'w \<Rightarrow> (string + unit) \<times> 'w" where
  "sqlite_in_memory Q w = sqlite_open Q '':memory:'' w"

definition sqlite_extension :: "('d, 'v, 'u, 'a, 'p) yrs \<Rightarrow> ('q, 'w) sqlite \<Rightarrow> ('d, 'j, 'w) extension" where
  "sqlite_extension Y Q = database_extension Y (sqlite_storage Q)"

section \<open>Logger\<close>

text \<open>A logger is its prefix.\<close>

definition logger_new :: "string option" where
  "logger_new = None"

definition with_prefix :: "string \<Rightarrow> string option" where
  "with_prefix prefix = Some prefix"

text \<open>\<open>emit\<close> is the \<open>info!\<close> macro of \<open>tracing\<close>.\<close>

definition logger_tag :: "string option \<Rightarrow> string" where
  "logger_tag prefix = (case prefix of Some p \<Rightarrow> p | None \<Rightarrow> ''hocuspocus'')"

definition log_line :: "(string \<Rightarrow> 'w \<Rightarrow> 'w) \<Rightarrow> string option \<Rightarrow> string \<Rightarrow> string \<Rightarrow> string \<Rightarrow> 'w \<Rightarrow> 'w" where
  "log_line emit prefix before name after w =
     emit (''['' @ logger_tag prefix @ ''] '' @ before @ '' \"'' @ name @ ''\"'' @ after) w"

definition logger_extension :: "(string \<Rightarrow> 'w \<Rightarrow> 'w) \<Rightarrow> string option \<Rightarrow> ('d, 'j, 'w) extension" where
  "logger_extension emit prefix =
     default_extension\<lparr>ext_name := ''logger'',
       on_connect := (\<lambda>p (c, w). (Inr (), c, log_line emit prefix ''New connection to'' (cp_document_name p) ''.'' w)),
       on_load_document := (\<lambda>p (d, w). (Inr (), d, log_line emit prefix ''Loaded document'' (dp_document_name p) ''.'' w)),
       on_change := (\<lambda>p w. (Inr (), log_line emit prefix ''Document'' (chp_document_name p) '' changed.'' w)),
       on_store_document := (\<lambda>_ p w. (Inr (), log_line emit prefix ''Store'' (dp_document_name p) ''.'' w)),
       on_disconnect := (\<lambda>p (c, w). (Inr (), c, log_line emit prefix ''Connection to'' (cp_document_name p) '' closed.'' w))\<rparr>"

section \<open>What a backend promises\<close>

locale store_backend =
  fixes st :: "'w storage"
    and saved :: "'w \<Rightarrow> (string \<rightharpoonup> bytes)"
  assumes fetch_reads: "fetch st nm w = (Inr r, w') \<Longrightarrow> r = saved w nm"
    and fetch_keeps: "saved (snd (fetch st nm w)) = saved w"
    and store_writes: "store st nm b w = (Inr u, w') \<Longrightarrow> saved w' = (saved w)(nm \<mapsto> b)"
    and store_fails: "store st nm b w = (Inl e, w') \<Longrightarrow> saved w' = saved w"

text \<open>A map that lives in the hook state.\<close>

locale state_map =
  fixes get :: "'w \<Rightarrow> (string \<rightharpoonup> bytes)" and put :: "(string \<rightharpoonup> bytes) \<Rightarrow> 'w \<Rightarrow> 'w"
  assumes get_put: "get (put m w) = m"

sublocale state_map \<subseteq> memory: store_backend "memory_storage get put" get
  by unfold_locales (auto simp: memory_storage_def memory_fetch_def memory_store_def get_put)

text \<open>The documented behaviour of SQLite on the three statements: an upsert replaces the row of its
  name or fails without effect, a select returns that row, and a select on an existing row does not
  fail.\<close>

locale sqlite_table =
  fixes Q :: "('p, 'w) sqlite" and rows :: "'w \<Rightarrow> (string \<rightharpoonup> bytes)"
  assumes query_row: "sq_query_row Q SELECT nm w = Inr data \<Longrightarrow> rows w nm = Some data"
    and query_error: "sq_query_row Q SELECT nm w = Inl e \<Longrightarrow> rows w nm = None"
    and upsert: "sq_execute Q UPSERT nm b w = (Inr u, w') \<Longrightarrow> rows w' = (rows w)(nm \<mapsto> b)"
    and upsert_error: "sq_execute Q UPSERT nm b w = (Inl e, w') \<Longrightarrow> rows w' = rows w"

sublocale sqlite_table \<subseteq> sqlite: store_backend "sqlite_storage Q" rows
  by unfold_locales
    (auto simp: sqlite_storage_def sqlite_fetch_def sqlite_store_def
      split: option.splits sum.splits dest: query_row query_error upsert upsert_error)

interpretation mem: state_map "\<lambda>m. m" "\<lambda>m _. m"
  by unfold_locales simp

text \<open>A database that is just its table, on which no call fails.\<close>

definition plain_sqlite :: "(unit, string \<rightharpoonup> bytes) sqlite" where
  "plain_sqlite = \<lparr>sq_open = (\<lambda>_ w. (Inr (), w)), sq_execute_batch = (\<lambda>_ w. (Inr (), w)),
     sq_prepare_cached = (\<lambda>_ _. None),
     sq_query_row = (\<lambda>_ nm w. case w nm of Some b \<Rightarrow> Inr b | None \<Rightarrow> Inl ''no rows''),
     sq_execute = (\<lambda>_ nm b w. (Inr (), w(nm \<mapsto> b)))\<rparr>"

interpretation plain: sqlite_table plain_sqlite "\<lambda>w. w"
  by unfold_locales (auto simp: plain_sqlite_def split: option.splits)

context store_backend
begin

lemma store_then_fetch:
  assumes "store st nm b w = (Inr u, w')" and "fetch st nm' w' = (Inr r, w'')"
  shows "r = (if nm' = nm then Some b else saved w nm')"
  using store_writes [OF assms(1)] fetch_reads [OF assms(2)] by simp

end

end
