(* ===== verification/Durability.thy ===== *)
theory Durability
  imports Storage Document_Props
begin

text \<open>
  What the actor, its debounced store and a storage extension achieve together. The locale
  \<open>persistence\<close> is the interface the actor relies on: a store run that succeeds has written the state,
  and no other hook touches the saved states. Over it the theory shows that a clean, idle document is
  saved, also across the background store; that a document leaves memory unsaved only when its last
  store failed; and that a saved document is loaded again with the same content.
\<close>

section \<open>The interface to persistence\<close>

locale persistence =
  fixes S :: "('d, 'j, 'w) server" and saved :: "'w \<Rightarrow> (string \<rightharpoonup> bytes)"
  assumes quiet: "quiet_hooks S (\<lambda>w w'. saved w' = saved w)"
    and stored: "store_hooks S b p w = (True, w') \<Longrightarrow> saved w' = (saved w)(dp_document_name p \<mapsto> b)"
    and not_stored: "store_hooks S b p w = (False, w') \<Longrightarrow>
      saved w' = saved w \<or> saved w' = (saved w)(dp_document_name p \<mapsto> b)"

text \<open>An extension that does not touch the saved states, nor the document while it is loaded.\<close>

definition neutral :: "('w \<Rightarrow> (string \<rightharpoonup> bytes)) \<Rightarrow> ('d, 'j, 'w) extension \<Rightarrow> bool" where
  "neutral saved e \<longleftrightarrow>
     (\<forall>p c w. saved (snd (snd (on_connect e p (c, w)))) = saved w) \<and>
     (\<forall>p c w. saved (snd (snd (on_authenticate e p (c, w)))) = saved w) \<and>
     (\<forall>p w. saved (snd (before_handle_message_hook e p w)) = saved w) \<and>
     (\<forall>p w. saved (snd (on_change e p w)) = saved w) \<and>
     (\<forall>b p w. saved (snd (on_store_document e b p w)) = saved w) \<and>
     (\<forall>p w. saved (snd (after_store_document e p w)) = saved w) \<and>
     (\<forall>p w. saved (snd (on_awareness_update e p w)) = saved w) \<and>
     (\<forall>p w. saved (snd (on_stateless e p w)) = saved w) \<and>
     (\<forall>p c w. saved (snd (snd (on_disconnect e p (c, w)))) = saved w) \<and>
     (\<forall>p w. saved (snd (before_unload_document e p w)) = saved w) \<and>
     (\<forall>n w. saved (snd (after_unload_document e n w)) = saved w) \<and>
     (\<forall>p d w. fst (snd (on_load_document e p (d, w))) = d \<and> saved (snd (snd (on_load_document e p (d, w)))) = saved w) \<and>
     (\<forall>p d w. fst (snd (after_load_document e p (d, w))) = d \<and>
        saved (snd (snd (after_load_document e p (d, w)))) = saved w)"

text \<open>A server with one storage extension among neutral ones.\<close>

locale stored_server = store_backend st saved + yjs Y leq
  for st :: "'w storage" and saved :: "'w \<Rightarrow> (string \<rightharpoonup> bytes)"
    and Y :: "('d, 'v, 'u, 'a, 'p) yrs" and leq :: "'d \<Rightarrow> 'd \<Rightarrow> bool" +
  fixes S :: "('d, 'j, 'w) server" and pre post :: "('d, 'j, 'w) extension list"
  assumes extensions_split: "extensions S = pre @ database_extension Y st # post"
    and neutral_others: "e \<in> set (pre @ post) \<Longrightarrow> neutral saved e"

section \<open>How an actor ends\<close>

text \<open>The hooks that run when an actor unloads its document.\<close>

definition unload_hooks :: "('d, 'j, 'w) server \<Rightarrow> string \<Rightarrow> 'w \<Rightarrow> 'w" where
  "unload_hooks S nm w =
     run_all (map (\<lambda>e. after_unload_document e nm) (extensions S))
       (snd (run_until_err (map (\<lambda>e. before_unload_document e \<lparr>dp_document_name = nm, dp_clients_count = 0\<rparr>) (extensions S)) w))"

lemma maybe_unload_exit:
  assumes "maybe_unload Y S s = (True, s')"
  shows "\<not> storing s'" and "connections s' = []" and "registry s' (doc_name s') = None"
    and "dirty s' \<Longrightarrow> unload_immediately (config S) \<and> dirty s"
    and "dirty s' \<Longrightarrow> \<exists>w. store_hooks S (full_state Y s) \<lparr>dp_document_name = doc_name s, dp_clients_count = 0\<rparr> (world s) = (False, w) \<and>
      world s' = unload_hooks S (doc_name s) w"
proof -
  have s: "connections s = []" "\<not> storing s" "unload_immediately (config S) \<or> \<not> dirty s"
    using assms by (auto simp: maybe_unload_def split: if_splits)
  let ?t = "run_store Y S s"
  have "(if dirty s then ?t else s) = ?t" by (simp add: run_store_def)
  then have s': "s' = ?t\<lparr>registry := (registry s)(doc_name s := None), world := unload_hooks S (doc_name s) (world ?t)\<rparr>"
    using assms s by (auto simp: maybe_unload_def unload_hooks_def Let_def split: prod.splits sum.splits if_splits)
  show "\<not> storing s'" "connections s' = []" "registry s' (doc_name s') = None" using s by (simp_all add: s')
  assume d: "dirty s'"
  have "dirty s" and "\<not> fst (store_hooks S (full_state Y s) \<lparr>dp_document_name = doc_name s, dp_clients_count = 0\<rparr> (world s))"
    using d s(1) by (auto simp: s' run_store_def Let_def split: if_splits prod.splits)
  then show "unload_immediately (config S) \<and> dirty s"
    "\<exists>w. store_hooks S (full_state Y s) \<lparr>dp_document_name = doc_name s, dp_clients_count = 0\<rparr> (world s) = (False, w) \<and>
      world s' = unload_hooks S (doc_name s) w"
    using s by (auto simp: s' run_store_def Let_def split: prod.split)
qed

lemma run_batch_exit:
  "run_batch Y S cs s = Some (True, u) \<Longrightarrow>
     \<exists>pre cid post t. cs = pre @ RemoveConnection cid # post \<and> run_batch Y S pre s = Some (False, t) \<and>
       maybe_unload Y S (remove_connection Y S cid t) = (True, u)"
proof (induction cs arbitrary: s)
  case (Cons c cs)
  then obtain b t where t: "handle_command Y S c s = Some (b, t)" and
    r: "if b then u = t else run_batch Y S cs t = Some (True, u)"
    by (auto split: option.splits prod.splits bool.splits)
  show ?case
  proof (cases b)
    case True
    then obtain cid where "c = RemoveConnection cid" "maybe_unload Y S (remove_connection Y S cid s) = (True, u)"
      using t r by (cases c) (auto simp: handle_command_def Let_def)
    then show ?thesis by (intro exI [of _ "[]"] exI [of _ cid] exI [of _ cs] exI [of _ s]) simp
  next
    case False
    then obtain pre cid post t' where "cs = pre @ RemoveConnection cid # post" "run_batch Y S pre t = Some (False, t')"
      "maybe_unload Y S (remove_connection Y S cid t') = (True, u)" using Cons.IH [of t] r by auto
    then show ?thesis using t False by (intro exI [of _ "c # pre"] exI [of _ cid] exI [of _ post] exI [of _ t']) simp
  qed
qed simp

lemma broadcast_with_world [simp]: "world (broadcast_with Y mk s) = world s" "doc_name (broadcast_with Y mk s) = doc_name s"
  using broadcast_with_shape [of Y mk s] by auto

lemma flush_same [simp]:
  "storing (flush_broadcast Y s) = storing s" "dirty (flush_broadcast Y s) = dirty s"
  "doc_name (flush_broadcast Y s) = doc_name s" "ydoc (flush_broadcast Y s) = ydoc s"
  using keepsD [OF keeps_flush [of _ s Y]] by (simp_all add: flush_cleared_def split: if_splits)

lemma flush_world [simp]: "world (flush_broadcast Y s) = world s"
  by (simp add: flush_broadcast_def Let_def split: option.split)

text \<open>The states in which a turn that starts in \<open>s\<close> decides whether to unload: after the removal of a
  connection in its batch, after the report of a store, and after the store of the timer.\<close>

inductive unloads_at ::
    "('d, 'v, 'u, 'a, 'p) yrs \<Rightarrow> ('d, 'j, 'w) server \<Rightarrow> ('d, 'v, 'a, 'j, 'w) document \<Rightarrow>
       ('d, 'v, 'a, 'j, 'w) document \<Rightarrow> bool"
  for Y :: "('d, 'v, 'u, 'a, 'p) yrs" and S :: "('d, 'j, 'w) server" and s :: "('d, 'v, 'a, 'j, 'w) document" where
  at_removal: "rx s = cmd # rest \<Longrightarrow> drain_batch [cmd] rest = (pre @ RemoveConnection cid # post, left) \<Longrightarrow>
    run_batch Y S pre (s\<lparr>rx := left\<rparr>) = Some (False, t) \<Longrightarrow> unloads_at Y S s (remove_connection Y S cid t)"
| at_report: "store_results s = ok # rest \<Longrightarrow> t = s\<lparr>store_results := rest, storing := False\<rparr> \<Longrightarrow>
    unloads_at Y S s (if ok then t else mark_dirty (last_origin t) t)"
| at_timer: "deadline_reached S s \<Longrightarrow> connections s = [] \<Longrightarrow> unloads_at Y S s (run_store Y S s)"

lemma exit_unloads:
  assumes "actor_exit Y S s s'"
  shows "\<exists>t u. unloads_at Y S s t \<and> maybe_unload Y S t = (True, u) \<and> (s' = u \<or> s' = flush_broadcast Y u)"
  using assms
proof (induction rule: actor_exit.induct)
  case (exit_commands s s')
  then obtain cmd rest batch left u where b: "rx s = cmd # rest" "drain_batch [cmd] rest = (batch, left)"
    "run_batch Y S batch (s\<lparr>rx := left\<rparr>) = Some (True, u)" and s': "s' = flush_broadcast Y u"
    by (auto simp: on_commands_def split: list.splits prod.splits)
  from run_batch_exit [OF b(3)] obtain pre cid post t where
    "batch = pre @ RemoveConnection cid # post" "run_batch Y S pre (s\<lparr>rx := left\<rparr>) = Some (False, t)"
    "maybe_unload Y S (remove_connection Y S cid t) = (True, u)" by blast
  then show ?case using at_removal [OF b(1)] b(2) s' by blast
next
  case (exit_stored s ok rest s')
  have "unloads_at Y S s (if ok then s\<lparr>store_results := rest, storing := False\<rparr>
      else mark_dirty (last_origin s) (s\<lparr>store_results := rest, storing := False\<rparr>))"
    using at_report [OF exit_stored(1) refl, of Y S] by (simp split: if_splits)
  then show ?case using exit_stored(2) by (auto simp: on_store_result_def Let_def split: if_splits)
next
  case (exit_timer s s')
  then show ?case using at_timer [of S s Y] by (auto simp: on_deadline_def split: if_splits)
qed

lemma exit_not_storing: "actor_exit Y S s s' \<Longrightarrow> \<not> storing s'"
  using exit_unloads [of Y S s s'] maybe_unload_exit [of Y S] by auto

section \<open>The durability invariant\<close>

text \<open>\<open>d0\<close> and \<open>m nm\<close> are the document and its saved state when the actor started. A pending snapshot is
  the current state unless the document has become dirty again; a success report that is still
  waiting means the current state is saved, under the same condition; a clean document with no store
  in flight is saved, or it and its saved state are as they were at the start. The saved states of the
  other documents \<open>X\<close> are those of \<open>m\<close>.\<close>

definition saved_inv ::
    "('d, 'v, 'u, 'a, 'p) yrs \<Rightarrow> ('w \<Rightarrow> (string \<rightharpoonup> bytes)) \<Rightarrow> string set \<Rightarrow> string \<Rightarrow> 'd \<Rightarrow> (string \<rightharpoonup> bytes) \<Rightarrow>
       ('d, 'v, 'a, 'j, 'w) document \<Rightarrow> bool" where
  "saved_inv Y saved X nm d0 m s \<longleftrightarrow>
     doc_name s = nm \<and> nm \<notin> X \<and> (\<forall>x \<in> X. saved (world s) x = m x) \<and>
     (\<forall>tk \<in> set (store_tasks s). dp_document_name (snd tk) = nm \<and> (\<not> dirty s \<longrightarrow> fst tk = full_state Y s)) \<and>
     (\<forall>ok \<in> set (store_results s). ok \<and> \<not> dirty s \<longrightarrow> saved (world s) nm = Some (full_state Y s)) \<and>
     (\<not> dirty s \<and> \<not> storing s \<longrightarrow>
        saved (world s) nm = Some (full_state Y s) \<or> ydoc s = d0 \<and> saved (world s) nm = m nm)"

locale durable_actor = yjs Y leq + persistence S saved
  for Y :: "('d, 'v, 'u, 'a, 'p) yrs" and leq :: "'d \<Rightarrow> 'd \<Rightarrow> bool"
    and S :: "('d, 'j, 'w) server" and saved :: "'w \<Rightarrow> (string \<rightharpoonup> bytes)"
begin

lemma saved_lead: "hooks_lead S w w' \<Longrightarrow> saved w' = saved w"
  by (rule hooks_leadD [OF _ quiet])

lemma stored_elsewhere: "store_hooks S b p w = (ok, w') \<Longrightarrow> dp_document_name p \<notin> X \<Longrightarrow> \<forall>x \<in> X. saved w' x = saved w x"
  by (cases ok) (use stored [of b p w w'] not_stored [of b p w w'] in auto)

lemma full_state_cong: "ydoc s' = ydoc s \<Longrightarrow> full_state Y s' = full_state Y s"
  by (simp add: full_state_def)

lemma saved_inv_keeps:
  assumes "keeps S s s'" and "saved_inv Y saved X nm d0 m s"
  shows "saved_inv Y saved X nm d0 m s'"
  using assms(2) saved_lead [OF keeps_world [OF assms(1)]] full_state_cong [OF keepsD(2) [OF assms(1)]]
  by (simp add: saved_inv_def keepsD [OF assms(1)])

lemma saved_inv_apply:
  assumes "saved_inv Y saved X nm d0 m s"
  shows "saved_inv Y saved X nm d0 m (apply_and_broadcast Y S u og s)"
proof (cases rule: apply_and_broadcast_cases [of Y u S og s])
  case undecoded
  then show ?thesis using assms by simp
next
  case (unbooked up d)
  then have "d = ydoc s" using apply_error empty_transaction by blast
  then show ?thesis using assms unbooked by simp
next
  case (booked up d w)
  then show ?thesis using assms saved_lead [OF booked(4)] by (simp add: saved_inv_def mark_dirty_def)
qed

lemma saved_inv_moves: "moves Y S s s' \<Longrightarrow> saved_inv Y saved X nm d0 m s \<Longrightarrow> saved_inv Y saved X nm d0 m s'"
  unfolding moves_def using saved_inv_keeps saved_inv_apply by blast

lemma idle_store: "actor_inv s \<Longrightarrow> \<not> storing s \<Longrightarrow> store_tasks s = [] \<and> store_results s = []"
  by (simp add: actor_inv_defs)

lemma saved_inv_run_store:
  assumes "saved_inv Y saved X nm d0 m s" and "actor_inv s" and "\<not> storing s"
  shows "saved_inv Y saved X nm d0 m (run_store Y S s)"
proof (cases "dirty s")
  case True
  obtain ok w where st: "store_hooks S (full_state Y s)
      \<lparr>dp_document_name = doc_name s, dp_clients_count = length (connections s)\<rparr> (world s) = (ok, w)"
    by fastforce
  have "\<forall>x \<in> X. saved w x = saved (world s) x" using stored_elsewhere [OF st, of X] assms(1) by (simp add: saved_inv_def)
  then show ?thesis
    using assms True idle_store [OF assms(2,3)] st stored [of "full_state Y s" _ "world s" w]
    by (cases ok) (auto simp: saved_inv_def run_store_def full_state_def)
qed (use assms in \<open>simp add: run_store_def\<close>)

lemma saved_inv_world: "hooks_lead S (world s) w \<Longrightarrow>
    saved_inv Y saved X nm d0 m (s\<lparr>world := w\<rparr>) = saved_inv Y saved X nm d0 m s"
  by (simp add: saved_inv_def saved_lead full_state_def)

lemma saved_inv_registry [simp]: "saved_inv Y saved X nm d0 m (s\<lparr>registry := r\<rparr>) = saved_inv Y saved X nm d0 m s"
  by (simp add: saved_inv_def full_state_def)

lemma saved_inv_maybe_unload:
  assumes "saved_inv Y saved X nm d0 m s" and "actor_inv s"
  shows "saved_inv Y saved X nm d0 m (snd (maybe_unload Y S s))"
proof (cases rule: maybe_unload_cases [of s S Y])
  case stays
  then show ?thesis using assms by simp
next
  case (vetoed w)
  then show ?thesis
    using saved_inv_run_store [OF assms vetoed(2)] by (simp add: saved_inv_world)
next
  case (unloads w)
  have "saved_inv Y saved X nm d0 m ((run_store Y S s)\<lparr>registry := (registry s)(doc_name s := None)\<rparr>\<lparr>world := w\<rparr>)"
    using saved_inv_run_store [OF assms unloads(2)] unloads(4) by (subst saved_inv_world) simp_all
  then show ?thesis using unloads by simp
qed

lemma saved_inv_handle_command:
  assumes "saved_inv Y saved X nm d0 m s" and "actor_inv s" and "handle_command Y S cmd s = Some (x, s')"
  shows "saved_inv Y saved X nm d0 m s'"
proof -
  have ok: "conns_ok s" using assms(2) by (simp add: actor_inv_def)
  show ?thesis
  proof (cases cmd)
    case (AddConnection h ack)
    then show ?thesis
      using assms saved_inv_keeps [OF keeps_trans [OF keeps_add_connection keeps_acks]]
      by (auto simp: handle_command_def Let_def)
  next
    case (ClientFrame cid data)
    then show ?thesis
      using assms by (auto simp: handle_command_def intro: saved_inv_moves moves_handle_client_frame [OF ok])
  next
    case (RemoveConnection cid)
    have "s' = snd (maybe_unload Y S (remove_connection Y S cid s))"
      using assms(3) RemoveConnection by (simp add: handle_command_def)
    then show ?thesis
      using saved_inv_maybe_unload saved_inv_keeps [OF keeps_remove_connection assms(1)]
        inv_keeps [OF keeps_remove_connection assms(2)] by blast
  next
    case (ExternalFrame data reply)
    then show ?thesis
      using assms by (auto simp: handle_command_def intro: saved_inv_moves moves_handle_external_frame [OF ok])
  next
    case (DirectApply u ack)
    then show ?thesis
      using assms saved_inv_keeps [OF keeps_acks saved_inv_apply] by (auto simp: handle_command_def Let_def)
  qed
qed

lemma saved_inv_run_batch:
  "run_batch Y S cs s = Some (x, s') \<Longrightarrow> actor_inv s \<Longrightarrow> saved_inv Y saved X nm d0 m s \<Longrightarrow>
     saved_inv Y saved X nm d0 m s'"
proof (induction cs arbitrary: s)
  case (Cons c cs)
  from Cons.prems(1) obtain b t where t: "handle_command Y S c s = Some (b, t)" and
    r: "if b then s' = t else run_batch Y S cs t = Some (x, s')"
    by (auto split: option.splits prod.splits bool.splits)
  then show ?case
    using Cons.IH [of t] saved_inv_handle_command [OF Cons.prems(3,2) t] inv_handle_command [OF Cons.prems(2) t]
    by (auto split: if_splits)
qed simp

lemma saved_inv_on_commands:
  assumes "on_commands Y S s = Some (x, s')" and "actor_inv s" and "saved_inv Y saved X nm d0 m s"
  shows "saved_inv Y saved X nm d0 m s'"
proof (cases "rx s")
  case Nil
  then show ?thesis using assms by (simp add: on_commands_def)
next
  case (Cons c rest)
  then obtain batch left t where r: "run_batch Y S batch (s\<lparr>rx := left\<rparr>) = Some (x, t)"
    and s': "s' = flush_broadcast Y t"
    using assms(1) by (auto simp: on_commands_def split: prod.splits)
  have "saved_inv Y saved X nm d0 m (s\<lparr>rx := left\<rparr>)" using assms(3) by (simp add: saved_inv_def full_state_def)
  then have "saved_inv Y saved X nm d0 m t" using saved_inv_run_batch [OF r] assms(2) by simp
  then have "saved_inv Y saved X nm d0 m (flush_cleared t)"
    by (simp add: flush_cleared_def saved_inv_def full_state_def)
  then show ?thesis unfolding s' by (rule saved_inv_keeps [OF keeps_flush])
qed

lemma saved_inv_on_store_result:
  assumes "store_results s = ok # rest" and "actor_inv s" and "saved_inv Y saved X nm d0 m s"
  shows "saved_inv Y saved X nm d0 m (snd (on_store_result Y S ok (s\<lparr>store_results := rest\<rparr>)))"
proof -
  let ?t = "s\<lparr>store_results := rest, storing := False\<rparr>"
  let ?u = "if \<not> ok then mark_dirty (last_origin s) ?t else ?t"
  have e: "storing s" "rest = []" "store_tasks s = []"
    using assms(1,2) by (auto simp: actor_inv_defs split: if_splits)
  have "saved_inv Y saved X nm d0 m ?u"
    using assms(1,3) e by (simp add: saved_inv_def mark_dirty_def full_state_def)
  moreover have "actor_inv ?u"
    using assms(1,2) e by (auto simp: actor_inv_defs conns_ok_def mark_dirty_def split: option.split)
  ultimately show ?thesis
    using saved_inv_maybe_unload [of X nm d0 m ?u] by (cases ok) (simp_all add: on_store_result_def)
qed

lemma saved_inv_on_deadline:
  assumes "deadline_reached S s" and "actor_inv s" and "saved_inv Y saved X nm d0 m s"
  shows "saved_inv Y saved X nm d0 m (snd (on_deadline Y S s))"
proof -
  have d: "dirty s" "\<not> storing s"
    using assms(1) by (auto simp: deadline_reached_def store_deadline_def split: if_splits)
  have "saved_inv Y saved X nm d0 m (spawn_store Y s)"
    using assms(3) d idle_store [OF assms(2) d(2)] by (simp add: spawn_store_def saved_inv_def full_state_def)
  moreover have "saved_inv Y saved X nm d0 m (snd (maybe_unload Y S (run_store Y S s)))"
    by (intro saved_inv_maybe_unload saved_inv_run_store assms d inv_run_store)
  ultimately show ?thesis by (simp add: on_deadline_def)
qed

lemma saved_inv_store_task:
  assumes "store_tasks s \<noteq> []" and "actor_inv s" and "saved_inv Y saved X nm d0 m s"
  shows "saved_inv Y saved X nm d0 m (store_task S s)"
proof -
  obtain b p where t: "store_tasks s = [(b, p)]" and r: "store_results s = []" "storing s"
    using assms(1,2) by (cases "store_tasks s") (auto simp: actor_inv_defs split: if_splits)
  obtain ok w where st: "store_hooks S b p (world s) = (ok, w)" by fastforce
  have "\<forall>x \<in> X. saved w x = saved (world s) x" using stored_elsewhere [OF st, of X] assms(3) t by (simp add: saved_inv_def)
  then show ?thesis
    using assms(3) t r st stored [of b p "world s" w]
    by (cases ok) (auto simp: store_task_def saved_inv_def full_state_def)
qed

lemma saved_inv_step:
  assumes "actor_step Y S E s s'" and "\<And>w w' x. E w w' \<Longrightarrow> x \<in> insert nm X \<Longrightarrow> saved w' x = saved w x"
    and "actor_inv s" and "saved_inv Y saved X nm d0 m s"
  shows "saved_inv Y saved X nm d0 m s'"
  using assms(1,3,4)
proof (induction rule: actor_step.induct)
  case (commands s s')
  then show ?case using saved_inv_on_commands by blast
next
  case (stored s ok rest s')
  then show ?case using saved_inv_on_store_result [of s ok rest X nm d0 m] by simp
next
  case (timer s s')
  then show ?case using saved_inv_on_deadline [of s X nm d0 m] by simp
next
  case (task s)
  then show ?case by (simp add: saved_inv_store_task)
qed (auto simp: saved_inv_def full_state_def assms(2))

lemma saved_inv_exit:
  assumes "actor_exit Y S s s'" and "actor_inv s" and "saved_inv Y saved X nm d0 m s"
  shows "saved_inv Y saved X nm d0 m s'"
  using assms
proof (induction rule: actor_exit.induct)
  case (exit_commands s s')
  then show ?case using saved_inv_on_commands by blast
next
  case (exit_stored s ok rest s')
  then show ?case using saved_inv_on_store_result [of s ok rest X nm d0 m] by simp
next
  case (exit_timer s s')
  then show ?case using saved_inv_on_deadline [of s X nm d0 m] by simp
qed

lemmas spawned = spawn_frames [of Y S]

declare spawned [simp]

lemma saved_inv_reach:
  assumes "actor_reach Y S E s0 s" and "s0 = spawn Y S nm cs now reg w"
    and "\<And>w w'. E w w' \<Longrightarrow> saved w' nm = saved w nm"
  shows "actor_inv s \<and> saved_inv Y saved {} nm (ydoc s0) (saved (world s0)) s"
  using assms(1)
proof (induction rule: actor_reach.induct)
  case reach_refl
  then show ?case using assms(2) inv_spawn by (auto simp: saved_inv_def)
next
  case (reach_step s s')
  then show ?case using saved_inv_step [OF reach_step.hyps(2), of nm "{}"] assms(3) inv_actor_step by auto
qed

end

section \<open>A server with a storage extension\<close>

lemma run_until_err_neutral:
  assumes "\<And>e. e \<in> set es \<Longrightarrow> neutral saved e"
  shows "saved (snd (run_until_err (map (\<lambda>e. on_store_document e b p) es) w)) = saved w"
  by (rule run_until_err_unchanged [where f = saved]) (use assms in \<open>auto simp: neutral_def\<close>)

lemma neutralD_default:
  "on_connect (database_extension Y st) conp (c, w) = (Inr (), c, w)"
  "on_authenticate (database_extension Y st) authp (c, w) = (Inr (), c, w)"
  "saved (snd (before_handle_message_hook (database_extension Y st) cp w)) = saved w"
  "saved (snd (on_change (database_extension Y st) cp w)) = saved w"
  "saved (snd (after_store_document (database_extension Y st) dp w)) = saved w"
  "saved (snd (on_awareness_update (database_extension Y st) awp w)) = saved w"
  "saved (snd (on_stateless (database_extension Y st) sp w)) = saved w"
  "saved (snd (snd (on_disconnect (database_extension Y st) p (c, w)))) = saved w"
  "saved (snd (before_unload_document (database_extension Y st) dp w)) = saved w"
  "saved (snd (after_unload_document (database_extension Y st) n w)) = saved w"
  "after_load_document (database_extension Y st) dp (d, w) = (Inr (), d, w)"
  "on_load_document (database_extension Y st) = database_load Y st"
  "on_store_document (database_extension Y st) = database_store st"
  by (simp_all add: database_extension_def default_extension_def hook_ok_def)

context stored_server
begin

lemma database_store_writes:
  assumes "database_store st b p w = (r, w')"
  shows "saved w' = (case r of Inr _ \<Rightarrow> (saved w)(dp_document_name p \<mapsto> b) | Inl _ \<Rightarrow> saved w)"
  using assms
  by (auto simp: database_store_def split: prod.splits sum.splits dest: store_writes store_fails)

lemma server_quiet: "quiet_hooks S (\<lambda>w w'. saved w' = saved w)"
  unfolding quiet_hooks_def extensions_split
  using neutral_others by (auto simp: neutralD_default neutral_def reflp_def transp_def)

lemma after_store_keeps: "saved (run_all (map (\<lambda>e. after_store_document e p) (extensions S)) w) = saved w"
  by (rule run_all_unchanged) (use quiet_hooksD(5) [OF server_quiet] in auto)

lemma server_store_run:
  assumes "run_until_err (map (\<lambda>e. on_store_document e b p) (extensions S)) w = (r, w')"
  shows "case r of Inr _ \<Rightarrow> saved w' = (saved w)(dp_document_name p \<mapsto> b)
    | Inl _ \<Rightarrow> saved w' = saved w \<or> saved w' = (saved w)(dp_document_name p \<mapsto> b)"
proof -
  let ?run = "\<lambda>es. run_until_err (map (\<lambda>e. on_store_document e b p) es)"
  obtain r1 w1 where 1: "?run pre w = (r1, w1)" by fastforce
  obtain r2 w2 where 2: "database_store st b p w1 = (r2, w2)" by fastforce
  obtain r3 w3 where 3: "?run post w2 = (r3, w3)" by fastforce
  have "saved w1 = saved w" "saved w3 = saved w2"
    using run_until_err_neutral [of pre saved b p w] run_until_err_neutral [of post saved b p w2]
      neutral_others 1 3 by auto
  then show ?thesis
    using assms database_store_writes [OF 2] 1 2 3
    by (auto simp: extensions_split run_until_err_append neutralD_default split: sum.splits)
qed

lemma server_store_hooks:
  assumes "store_hooks S b p w = (ok, w')"
  shows "if ok then saved w' = (saved w)(dp_document_name p \<mapsto> b)
    else saved w' = saved w \<or> saved w' = (saved w)(dp_document_name p \<mapsto> b)"
proof -
  obtain r w1 where r: "run_until_err (map (\<lambda>e. on_store_document e b p) (extensions S)) w = (r, w1)" by fastforce
  then show ?thesis
    using assms server_store_run [OF r] by (auto simp: store_hooks_def after_store_keeps split: sum.splits)
qed

end

sublocale stored_server \<subseteq> durable_actor Y leq S saved
  by unfold_locales (rule server_quiet, (drule server_store_hooks, simp)+)

section \<open>Loading what was stored\<close>

text \<open>What a saved state loads to.\<close>

definition loaded :: "('d, 'v, 'u, 'a, 'p) yrs \<Rightarrow> bool \<Rightarrow> bytes option \<Rightarrow> 'd" where
  "loaded Y skip_gc m =
     (case Option.bind m (decode_v1 Y) of
        None \<Rightarrow> new_doc Y skip_gc
      | Some u \<Rightarrow> snd (apply_update Y u (new_doc Y skip_gc)))"

lemma run_all_load_neutral:
  assumes "\<And>e. e \<in> set es \<Longrightarrow> neutral saved e"
  shows "fst (run_all (map (\<lambda>e. on_load_document e p) es) (d, w)) = d \<and>
      saved (snd (run_all (map (\<lambda>e. on_load_document e p) es) (d, w))) = saved w"
    and "fst (run_all (map (\<lambda>e. after_load_document e p) es) (d, w)) = d \<and>
      saved (snd (run_all (map (\<lambda>e. after_load_document e p) es) (d, w))) = saved w"
  using assms
  by (induction es arbitrary: d w) (auto simp: neutral_def, (metis prod.collapse)+)

context stored_server
begin

lemma spawn_loads:
  assumes "\<And>w. \<exists>r. fst (fetch st nm w) = Inr r"
  shows "ydoc (spawn Y S nm cs now reg w) = loaded Y (\<not> gc (config S)) (saved w nm) \<and>
    saved (world (spawn Y S nm cs now reg w)) = saved w"
proof -
  let ?p = "\<lparr>dp_document_name = nm, dp_clients_count = 0\<rparr>"
  let ?new = "new_doc Y (\<not> gc (config S))"
  obtain d1 w1 where 1: "run_all (map (\<lambda>e. on_load_document e ?p) pre) (?new, w) = (d1, w1)" by fastforce
  obtain w2 where 2: "fetch st nm w1 = (Inr (saved w1 nm), w2)"
    using assms [of w1] fetch_reads by (metis prod.collapse)
  have "d1 = ?new" "saved w1 = saved w" "saved w2 = saved w"
    using run_all_load_neutral(1) [of pre saved ?p ?new w] neutral_others 1 fetch_keeps [of nm w1] 2 by auto
  then have db: "snd (database_load Y st ?p (d1, w1)) = (loaded Y (\<not> gc (config S)) (saved w nm), w2)"
    using 2 by (auto simp: database_load_def loaded_def split: option.splits prod.splits bool.splits)
  let ?d = "loaded Y (\<not> gc (config S)) (saved w nm)"
  obtain d3 w3 where 3: "run_all (map (\<lambda>e. on_load_document e ?p) post) (?d, w2) = (d3, w3)" by fastforce
  obtain d4 w4 where 4: "run_all (map (\<lambda>e. after_load_document e ?p) pre) (d3, w3) = (d4, w4)" by fastforce
  obtain d5 w5 where 5: "run_all (map (\<lambda>e. after_load_document e ?p) post) (d4, w4) = (d5, w5)" by fastforce
  have "d5 = ?d" "saved w5 = saved w"
    using run_all_load_neutral(1) [of post saved ?p ?d w2] run_all_load_neutral(2) [of pre saved ?p d3 w3]
      run_all_load_neutral(2) [of post saved ?p d4 w4] neutral_others 3 4 5 \<open>saved w2 = saved w\<close> by auto
  moreover have "run_all (map (\<lambda>e. on_load_document e ?p) (extensions S)) (?new, w) = (d3, w3)"
    using 1 db 3 by (simp add: extensions_split neutralD_default)
  moreover have "run_all (map (\<lambda>e. after_load_document e ?p) (extensions S)) (d3, w3) = (d5, w5)"
    using 4 5 by (simp add: extensions_split neutralD_default)
  ultimately show ?thesis by (simp add: spawn_def)
qed

lemma clean_is_saved:
  assumes "\<And>w w'. E w w' \<Longrightarrow> saved w' nm = saved w nm"
    and "actor_reach Y S E (spawn Y S nm cs now reg w) s" and "\<not> dirty s" and "\<not> storing s"
  shows "saved (world s) nm = Some (full_state Y s) \<or>
    ydoc s = ydoc (spawn Y S nm cs now reg w) \<and> saved (world s) nm = saved (world (spawn Y S nm cs now reg w)) nm"
  using saved_inv_reach [OF assms(2) refl assms(1)] assms(3,4) by (auto simp: saved_inv_def)

lemma loaded_full_state:
  "leq (ydoc s) (loaded Y sk (Some (full_state Y s))) \<and> leq (loaded Y sk (Some (full_state Y s))) (ydoc s)"
  using state_loads [of "ydoc s" sk] by (auto simp: loaded_def full_state_def)

lemma reload_after_exit:
  assumes "\<And>w. \<exists>r. fst (fetch st nm w) = Inr r" and "\<And>w w'. E w w' \<Longrightarrow> saved w' nm = saved w nm"
    and "actor_reach Y S E (spawn Y S nm cs now reg w) s" and "actor_exit Y S s s'" and "\<not> dirty s'"
    and "saved w2 nm = saved (world s') nm"
  shows "leq (ydoc s') (ydoc (spawn Y S nm cs2 now2 reg2 w2)) \<and> leq (ydoc (spawn Y S nm cs2 now2 reg2 w2)) (ydoc s')"
proof -
  let ?s0 = "spawn Y S nm cs now reg w"
  have inv: "actor_inv s" "saved_inv Y saved {} nm (ydoc ?s0) (saved (world ?s0)) s"
    using saved_inv_reach [OF assms(3) refl assms(2)] by blast+
  have "saved_inv Y saved {} nm (ydoc ?s0) (saved (world ?s0)) s'" by (rule saved_inv_exit [OF assms(4) inv])
  moreover have "\<not> storing s'" by (rule exit_not_storing [OF assms(4)])
  ultimately consider "saved (world s') nm = Some (full_state Y s')"
    | "ydoc s' = ydoc ?s0" "saved (world s') nm = saved (world ?s0) nm"
    using assms(5) by (auto simp: saved_inv_def)
  then show ?thesis
  proof cases
    case 1
    then show ?thesis using spawn_loads [OF assms(1), of cs2 now2 reg2 w2] assms(6) loaded_full_state [of s'] by simp
  next
    case 2
    then show ?thesis
      using spawn_loads [OF assms(1), of cs2 now2 reg2 w2] spawn_loads [OF assms(1), of cs now reg w] assms(6)
      by (simp add: leq_refl)
  qed
qed

end

section \<open>A server for the witnesses\<close>

text \<open>A disk and a log.\<close>

record disk_world =
  disk :: "string \<rightharpoonup> bytes"
  log :: "string list"

definition disk_storage :: "disk_world storage" where
  "disk_storage = memory_storage disk (\<lambda>m w. w\<lparr>disk := m\<rparr>)"

definition demo_logger :: "(bytes, string, disk_world) extension" where
  "demo_logger = logger_extension (\<lambda>l w. w\<lparr>log := log w @ [l]\<rparr>) None"

definition disk_server :: "(bytes, string, disk_world) server" where
  "disk_server = build (builder_extension demo_logger
     (builder_extension (database_extension opset disk_storage) builder_new))"

lemma disk_server_eq: "disk_server = \<lparr>config = default_configuration,
    extensions = [database_extension opset disk_storage, demo_logger]\<rparr>"
  by (simp add: disk_server_def build_def builder_extension_def builder_new_def demo_logger_def
      logger_extension_def database_extension_def default_extension_def)

interpretation disks: state_map disk "\<lambda>m w. w\<lparr>disk := m\<rparr>"
  by unfold_locales simp

lemma neutral_logger: "neutral disk demo_logger"
  by (simp add: neutral_def demo_logger_def logger_extension_def log_line_def default_extension_def hook_ok_def)

interpretation ds: stored_server disk_storage disk opset opset_leq disk_server "[]" "[demo_logger]"
  unfolding disk_storage_def
proof (intro stored_server.intro stored_server_axioms.intro)
  show "store_backend (memory_storage disk (\<lambda>m w. w\<lparr>disk := m\<rparr>)) disk" by (rule disks.memory.store_backend_axioms)
  show "yjs opset opset_leq" by (rule ops.yjs_axioms)
qed (simp_all add: disk_server_eq disk_storage_def neutral_logger)

definition disk_start :: "(bytes, bytes, u64 list, string, disk_world) document" where
  "disk_start = spawn opset disk_server ''doc'' (\<lambda>_. \<lparr>cap = 8, queue = [], chan_closed = False\<rparr>) 0 Map.empty
     \<lparr>disk = Map.empty, log = []\<rparr>"

text \<open>After one programmatic edit, and once the debounce time has passed.\<close>

definition disk_dirty :: "nat \<Rightarrow> (bytes, bytes, u64 list, string, disk_world) document" where
  "disk_dirty t = disk_start\<lparr>ydoc := [7], dirty := True, first_dirty_at := Some 0, last_change_at := Some 0,
     acks := [0], clock := t,
     world := \<lparr>disk = Map.empty, log = [''[hocuspocus] Loaded document \"doc\".'', ''[hocuspocus] Document \"doc\" changed.'']\<rparr>\<rparr>"

text \<open>After the store and the unload that follow.\<close>

definition disk_gone :: "(bytes, bytes, u64 list, string, disk_world) document" where
  "disk_gone = disk_start\<lparr>ydoc := [7], acks := [0], clock := 2000,
     world := \<lparr>disk = [''doc'' \<mapsto> [7]], log = [''[hocuspocus] Loaded document \"doc\".'',
       ''[hocuspocus] Document \"doc\" changed.'', ''[hocuspocus] Store \"doc\".'']\<rparr>\<rparr>"

lemmas disk_exts = disk_server_eq demo_logger_def logger_extension_def log_line_def logger_tag_def
  database_extension_def default_extension_def hook_ok_def disk_storage_def memory_storage_def
  memory_fetch_def memory_store_def database_load_def database_store_def

lemma disk_start_eq:
  "disk_start = \<lparr>doc_name = ''doc'', ydoc = [], awareness = [], connections = [], rx = [],
      dirty = False, first_dirty_at = None, last_change_at = None, last_origin = Local,
      storing = False, store_results = [], broadcast_base = None, broadcast_pending = False,
      clock = 0, chans = (\<lambda>_. \<lparr>cap = 8, queue = [], chan_closed = False\<rparr>),
      world = \<lparr>disk = Map.empty, log = [''[hocuspocus] Loaded document \"doc\".'']\<rparr>, registry = Map.empty,
      store_tasks = [], acks = [], replies = []\<rparr>"
  by (simp add: disk_start_def spawn_def disk_exts opset_def default_configuration_def)

lemma disk_reach: "actor_reach opset disk_server (=) disk_start (disk_dirty 2000)"
proof -
  let ?s = "disk_start\<lparr>rx := [DirectApply [7] 0]\<rparr>"
  have "actor_step opset disk_server (=) disk_start ?s"
    using arrive [of opset disk_server "(=)" disk_start "DirectApply [7] 0"] by (simp add: disk_start_eq)
  moreover have "actor_step opset disk_server (=) ?s (disk_dirty 0)"
    by (rule commands)
      (simp_all add: disk_dirty_def disk_start_eq on_commands_def handle_command_def apply_and_broadcast_def
        mark_dirty_def flush_broadcast_def broadcast_with_def disk_exts opset_def news_def MAX_COALESCE_BATCH_def)
  moreover have "actor_step opset disk_server (=) (disk_dirty 0) (disk_dirty 2000)"
    using tick [of opset disk_server "(=)" "disk_dirty 0" 2000] by (simp add: disk_dirty_def disk_start_eq)
  ultimately show ?thesis by (blast intro: actor_reach.intros)
qed

lemma disk_exit: "actor_exit opset disk_server (disk_dirty 2000) disk_gone"
proof (rule exit_timer)
  show "deadline_reached disk_server (disk_dirty 2000)"
    by (simp add: deadline_reached_def store_deadline_def disk_dirty_def disk_start_eq disk_server_eq default_configuration_def from_secs_def)
  show "on_deadline opset disk_server (disk_dirty 2000) = (True, disk_gone)"
    by (simp add: on_deadline_def run_store_def store_hooks_def maybe_unload_def disk_dirty_def disk_gone_def disk_start_eq
        disk_exts full_state_def opset_def news_def default_configuration_def Let_def fun_upd_idem)
qed

section \<open>Properties\<close>

text \<open>A clean document is saved. For a server with a storage extension among extensions that leave
  the saved states alone: in every reachable state in which the document is not dirty and no
  background store is in flight, the backend holds the full current state of the document, or nothing
  has happened to either since the document was loaded. Edits that arrive while a background store
  runs do not break this.\<close>

theorem clean_document_is_saved:
  assumes "stored_server st saved Y leq S pre post" and "\<forall>w w'. E w w' \<longrightarrow> saved w' nm = saved w nm"
    and "actor_reach Y S E (spawn Y S nm cs now reg w) s" and "\<not> dirty s" and "\<not> storing s"
  shows "saved (world s) nm = Some (full_state Y s) \<or>
    ydoc s = ydoc (spawn Y S nm cs now reg w) \<and> saved (world s) nm = saved (world (spawn Y S nm cs now reg w)) nm"
  using stored_server.clean_is_saved [OF assms(1) _ assms(3,4,5)] assms(2) by blast

text \<open>A client is connected when the edit comes, so the store runs in the background; afterwards the
  document is clean and on the disk.\<close>

definition bg_doc :: "nat \<Rightarrow> bool \<Rightarrow> (string \<rightharpoonup> bytes) \<Rightarrow> string list \<Rightarrow>
    (bytes, bytes, u64 list, string, disk_world) document" where
  "bg_doc t dt m lg = disk_start\<lparr>connections := [(1, demo_conn False)], ydoc := [7], dirty := dt,
     first_dirty_at := (if dt then Some 0 else None), last_change_at := (if dt then Some 0 else None),
     acks := [0, 1], clock := t, chans := (chans disk_start)(0 := \<lparr>cap = 8, queue = [Frame edit_frame], chan_closed = False\<rparr>),
     world := \<lparr>disk = m, log = [''[hocuspocus] Loaded document \"doc\".'', ''[hocuspocus] Document \"doc\" changed.''] @ lg\<rparr>\<rparr>"

definition bg_log :: "string list" where
  "bg_log = [''[hocuspocus] Store \"doc\".'']"

lemma disk_on_change:
  "run_all (map (\<lambda>e. on_change e p) (extensions disk_server)) w =
     w\<lparr>log := log w @ [''[hocuspocus] Document \"'' @ chp_document_name p @ ''\" changed.'']\<rparr>"
  by (simp add: disk_exts)

lemma bg_edit: "actor_reach opset disk_server (=) disk_start (bg_doc 2000 True Map.empty [])"
proof -
  let ?a = "AddConnection (demo_conn False) 0" and ?b = "DirectApply [7] 1"
  let ?j = "disk_start\<lparr>connections := [(1, demo_conn False)], acks := [0]\<rparr>"
  have s1: "actor_step opset disk_server (=) disk_start (disk_start\<lparr>rx := [?a]\<rparr>)"
    using arrive [of opset disk_server "(=)" disk_start ?a] by (simp add: disk_start_eq)
  have s2: "actor_step opset disk_server (=) (disk_start\<lparr>rx := [?a]\<rparr>) ?j"
    by (rule commands)
      (simp_all add: disk_start_eq demo_conn_def on_commands_def handle_command_def add_connection_def
        awareness_has_states_def flush_broadcast_def opset_def)
  have s3: "actor_step opset disk_server (=) ?j (?j\<lparr>rx := [?b]\<rparr>)"
    using arrive [of opset disk_server "(=)" ?j ?b] by (simp add: disk_start_eq)
  have s4: "actor_step opset disk_server (=) (?j\<lparr>rx := [?b]\<rparr>) (bg_doc 0 True Map.empty [])"
    by (rule commands)
      (simp_all add: bg_doc_def edit_frame_def disk_start_eq demo_conn_def on_commands_def handle_command_def
        apply_and_broadcast_def mark_dirty_def flush_broadcast_def broadcast_with_def send_frame_def chan_send_def
        try_send_def Let_def disk_on_change opset_def news_def)
  have s5: "actor_step opset disk_server (=) (bg_doc 0 True Map.empty []) (bg_doc 2000 True Map.empty [])"
    using tick [of opset disk_server "(=)" "bg_doc 0 True Map.empty []" 2000]
    by (simp add: bg_doc_def disk_start_eq)
  show ?thesis
    by (rule reach_step [OF reach_step [OF reach_step [OF reach_step [OF reach_step [OF reach_refl s1] s2] s3] s4] s5])
qed

lemma bg_reach: "actor_reach opset disk_server (=) disk_start (bg_doc 2000 False [''doc'' \<mapsto> [7]] bg_log)"
proof -
  let ?p = "\<lparr>dp_document_name = ''doc'', dp_clients_count = 1\<rparr>"
  let ?s1 = "(bg_doc 2000 False Map.empty [])\<lparr>storing := True, store_tasks := [([7], ?p)]\<rparr>"
  let ?s2 = "(bg_doc 2000 False [''doc'' \<mapsto> [7]] bg_log)\<lparr>storing := True, store_results := [True]\<rparr>"
  have s1: "actor_step opset disk_server (=) (bg_doc 2000 True Map.empty []) ?s1"
    by (rule timer)
      (simp_all add: deadline_reached_def store_deadline_def on_deadline_def spawn_store_def full_state_def bg_doc_def
        disk_start_eq disk_server_eq default_configuration_def from_secs_def opset_def news_def)
  have "store_task disk_server ?s1 = ?s2"
    by (simp add: store_task_def store_hooks_def bg_doc_def bg_log_def disk_start_eq disk_exts)
  then have s2: "actor_step opset disk_server (=) ?s1 ?s2" using task [of ?s1 opset disk_server "(=)"] by simp
  have s3: "actor_step opset disk_server (=) ?s2 (bg_doc 2000 False [''doc'' \<mapsto> [7]] bg_log)"
    by (rule actor_step.stored [where ok = True and rest = "[]"])
      (simp_all add: on_store_result_def maybe_unload_def bg_doc_def disk_start_eq)
  show ?thesis by (rule reach_step [OF reach_step [OF reach_step [OF bg_edit s1] s2] s3])
qed

theorem clean_document_is_saved_witness:
  "disk (world (bg_doc 2000 False [''doc'' \<mapsto> [7]] bg_log)) ''doc'' = Some (full_state opset (bg_doc 2000 False [''doc'' \<mapsto> [7]] bg_log))"
  using clean_document_is_saved [OF ds.stored_server_axioms _ bg_reach [unfolded disk_start_def]]
  by (auto simp: bg_doc_def disk_start_eq [unfolded disk_start_def] disk_start_eq)

text \<open>C8: A document leaves memory unsaved only if its store failed. When the actor exits, no store is in
  flight. If the document is still dirty then, the configuration asks for immediate unloading, and in this last
  turn the store hooks have run and failed on exactly the document that is lost: \<open>t\<close> is the state in which the turn
  came to unload, the hooks fail on the full state of \<open>t\<close> in the hook state of \<open>t\<close>, and the hook state after the
  exit is the one they left, after the unload hooks.\<close>

theorem exit_unsaved_only_if_store_failed:
  assumes "actor_exit Y S s s'"
  shows "\<not> storing s' \<and>
    (dirty s' \<longrightarrow> unload_immediately (config S) \<and>
       (\<exists>t w. unloads_at Y S s t \<and> dirty t \<and> ydoc t = ydoc s' \<and>
          store_hooks S (full_state Y t) \<lparr>dp_document_name = doc_name t, dp_clients_count = 0\<rparr> (world t) = (False, w) \<and>
          world s' = unload_hooks S (doc_name t) w))"
proof -
  obtain t u where t: "unloads_at Y S s t" and u: "maybe_unload Y S t = (True, u)" and s': "s' = u \<or> s' = flush_broadcast Y u"
    using exit_unloads [OF assms] by blast
  have same: "storing s' = storing u" "dirty s' = dirty u" "ydoc s' = ydoc u" "world s' = world u" using s' by auto
  have "ydoc u = ydoc t" using maybe_unload_frame(3) [of Y S t] u by simp
  then show ?thesis using maybe_unload_exit [OF u] t same by metis
qed

text \<open>On a full disk, the last client leaves a document with an unsaved edit.\<close>

definition full_disk_server :: "(bytes, string, disk_world) server" where
  "full_disk_server = \<lparr>config = default_configuration, extensions =
     [database_extension opset \<lparr>fetch = fetch disk_storage, store = (\<lambda>_ _ w. (Inl ''disk full'', w))\<rparr>]\<rparr>"

definition full_disk_exit :: "(bytes, bytes, u64 list, string, disk_world) document" where
  "full_disk_exit = (bg_doc 0 True Map.empty [])\<lparr>connections := [], registry := Map.empty\<rparr>"

lemma full_disk_exits: "actor_exit opset full_disk_server ((bg_doc 0 True Map.empty [])\<lparr>rx := [RemoveConnection 1]\<rparr>) full_disk_exit"
  by (rule exit_commands)
    (simp_all add: full_disk_exit_def on_commands_def handle_command_def remove_connection_def maybe_unload_def run_store_def
      store_hooks_def full_disk_server_def database_extension_def default_extension_def database_store_def hook_ok_def bg_doc_def
      disk_start_eq demo_conn_def default_configuration_def flush_broadcast_def fun_upd_idem Let_def)

theorem exit_unsaved_only_if_store_failed_witness:
  "\<exists>t :: (bytes, bytes, u64 list, string, disk_world) document. dirty t \<and> ydoc t = [7] \<and> \<not> fst (store_hooks full_disk_server (full_state opset t)
      \<lparr>dp_document_name = doc_name t, dp_clients_count = 0\<rparr> (world t))"
proof -
  have d: "dirty full_disk_exit" "ydoc full_disk_exit = [7]" by (simp_all add: full_disk_exit_def bg_doc_def)
  obtain t :: "(bytes, bytes, u64 list, string, disk_world) document" and w where "dirty t" "ydoc t = ydoc full_disk_exit"
    "store_hooks full_disk_server (full_state opset t) \<lparr>dp_document_name = doc_name t, dp_clients_count = 0\<rparr> (world t) = (False, w)"
    using exit_unsaved_only_if_store_failed [OF full_disk_exits] d(1) by blast
  then show ?thesis using d(2) by (intro exI [of _ t]) simp
qed

text \<open>C7: Unload and reload keep the content. When the actor of a clean document has exited and the
  document is loaded again later, with the saved state untouched in between and a backend whose reads
  do not fail, the loaded document holds exactly the operations the unloaded one held.\<close>

theorem unloaded_document_reloads:
  assumes "stored_server st saved Y leq S pre post" and "\<forall>w w'. E w w' \<longrightarrow> saved w' nm = saved w nm"
    and "\<forall>w. \<exists>r. fst (fetch st nm w) = Inr r"
    and "actor_reach Y S E (spawn Y S nm cs now reg w) s" and "actor_exit Y S s s'" and "\<not> dirty s'"
    and "saved w2 nm = saved (world s') nm"
  shows "leq (ydoc s') (ydoc (spawn Y S nm cs2 now2 reg2 w2)) \<and>
    leq (ydoc (spawn Y S nm cs2 now2 reg2 w2)) (ydoc s')"
  using stored_server.reload_after_exit [OF assms(1) _ _ assms(4,5,6,7)] assms(2,3) by blast

theorem unloaded_document_reloads_witness:
  "set (ydoc (spawn opset disk_server ''doc'' (\<lambda>_. \<lparr>cap = 8, queue = [], chan_closed = False\<rparr>) 9 Map.empty
     (world disk_gone))) = {7}"
proof -
  have "\<forall>w. \<exists>r. fst (fetch disk_storage ''doc'' w) = Inr r"
    by (simp add: disk_storage_def memory_storage_def memory_fetch_def)
  then show ?thesis
    using unloaded_document_reloads [OF ds.stored_server_axioms _ _ disk_reach [unfolded disk_start_def] disk_exit _ refl,
        of "\<lambda>_. \<lparr>cap = 8, queue = [], chan_closed = False\<rparr>" 9 Map.empty]
    by (auto simp: disk_gone_def disk_start_eq opset_leq_def)
qed

section \<open>Failing backends\<close>

lemma broadcast_with_nobody: "connections s = [] \<Longrightarrow> broadcast_with Y mk s = s"
  by (simp add: broadcast_with_def)

lemma remove_last_connection:
  assumes "connections s = [(k, c)]"
  shows "connections (remove_connection Y S k s) = []"
  using assms
  by (simp add: remove_connection_def broadcast_awareness_def broadcast_with_nobody Let_def case_prod_beta
      split: option.split)

text \<open>C37: With immediate unloading, a failed store does not keep the document in memory. When the last
  client of a dirty document leaves and the store hooks fail, the actor exits all the same: the
  document is removed from the registry while its edits are in no store. (The comments on
  \<open>run_store\<close> and on the Redis lock promise that the document stays dirty and is retried.)\<close>

theorem failed_store_still_unloads:
  assumes "connections s = [(k, c)]" and "dirty s" and "\<not> storing s" and "unload_immediately (config S)"
    and "\<forall>b p w. fst (store_hooks S b p w) = False"
    and "\<forall>p w. fst (run_until_err (map (\<lambda>e. before_unload_document e p) (extensions S)) w) = Inr ()"
  shows "\<exists>s'. handle_command Y S (RemoveConnection k) s = Some (True, s') \<and> dirty s' \<and>
    ydoc s' = ydoc s \<and> registry s' (doc_name s) = None"
proof -
  let ?t = "remove_connection Y S k s"
  note kept = keepsD [OF keeps_remove_connection [of S s Y k]]
  have t: "connections ?t = []" "dirty ?t" "\<not> storing ?t" "ydoc ?t = ydoc s" "doc_name ?t = doc_name s"
    using assms(1-3) kept remove_last_connection by auto
  have "dirty (run_store Y S ?t)"
    using t(2) assms(5) by (auto simp: run_store_def Let_def split: prod.split) (metis fst_conv)
  obtain x s' where u: "maybe_unload Y S ?t = (x, s')" by fastforce
  have "x"
  proof (cases rule: maybe_unload_cases [of ?t S Y])
    case (vetoed w)
    then show ?thesis
      using u t assms(4,6) by (auto simp: maybe_unload_def Let_def split: prod.splits sum.splits) (metis fst_conv sum.distinct(1))+
  qed (use u t assms(4) in simp_all)
  moreover have "dirty s'"
    using u t \<open>dirty (run_store Y S ?t)\<close> by (cases rule: maybe_unload_cases [of ?t S Y]) auto
  moreover have "ydoc s' = ydoc s" using maybe_unload_frame(3) [of Y S ?t] u t by simp
  moreover have "registry s' (doc_name s) = None"
    using maybe_unload_exit [of Y S ?t s'] maybe_unload_frame(4) [of Y S ?t] u t \<open>x\<close> by simp
  ultimately show ?thesis using u by (simp add: handle_command_def)
qed

theorem failed_store_still_unloads_witness:
  "\<exists>s'. handle_command opset full_disk_server (RemoveConnection 1) (bg_doc 0 True Map.empty []) = Some (True, s') \<and>
     ydoc s' = [7] \<and> disk (world s') ''doc'' = None"
proof -
  let ?s = "bg_doc 0 True Map.empty []"
  have h: "fst (store_hooks full_disk_server b p w) = False" for b p w
    by (simp add: store_hooks_def full_disk_server_def database_extension_def default_extension_def database_store_def)
  obtain s' where s': "handle_command opset full_disk_server (RemoveConnection 1) ?s = Some (True, s')" "ydoc s' = ydoc ?s"
    using failed_store_still_unloads [of ?s 1 "demo_conn False" full_disk_server opset] h
    by (auto simp: full_disk_server_def database_extension_def default_extension_def hook_ok_def bg_doc_def disk_start_eq
        default_configuration_def)
  then have "disk (world s') ''doc'' = None"
    by (auto simp: handle_command_def full_disk_server_def database_extension_def default_extension_def hook_ok_def
        bg_doc_def disk_start_eq default_configuration_def remove_connection_def demo_conn_def maybe_unload_def
        run_store_def store_hooks_def database_store_def)
  then show ?thesis using s' by (simp add: bg_doc_def disk_start_eq)
qed

text \<open>C38: A read error at load time lets the stored document be overwritten. If the backend cannot be read
  when a document is loaded, the error is only logged and the document is served empty; after the
  first edit, a store that succeeds replaces whatever was saved by that edit alone.\<close>

theorem failed_load_overwrites_saved_state:
  assumes "store_backend st saved" and "extensions S = [database_extension Y st]"
    and "fetch st nm w = (Inl e, w')" and "decode_v1 Y u = Some up"
    and "apply_update Y up (new_doc Y (\<not> gc (config S))) = (True, d)"
    and "encode_update_v1 Y up (new_doc Y (\<not> gc (config S))) \<noteq> []"
    and "\<forall>b w. fst (store st nm b w) = Inr ()"
  shows "saved (world (run_store Y S (apply_and_broadcast Y S u og (spawn Y S nm cs now reg w)))) nm =
    Some (encode_state_as_update_v1 Y d (default_sv Y))"
proof -
  let ?s0 = "spawn Y S nm cs now reg w" and ?b = "encode_state_as_update_v1 Y d (default_sv Y)"
  let ?s1 = "apply_and_broadcast Y S u og ?s0"
  have s0: "ydoc ?s0 = new_doc Y (\<not> gc (config S))" "doc_name ?s0 = nm" "connections ?s0 = []" "world ?s0 = w'"
    using assms(2,3) by (simp_all add: spawn_def neutralD_default database_load_def)
  have s1: "ydoc ?s1 = d" "dirty ?s1" "doc_name ?s1 = nm" "world ?s1 = w'"
    using assms(2,4,5,6) s0
    by (simp_all add: apply_and_broadcast_def mark_dirty_def Let_def database_extension_def default_extension_def
        hook_ok_def split: option.split)
  obtain w2 where st: "store st nm ?b w' = (Inr (), w2)" using assms(7) by (metis prod.collapse)
  have "world (run_store Y S ?s1) = w2"
    using s1 st assms(2)
    by (simp add: run_store_def store_hooks_def full_state_def neutralD_default database_store_def Let_def
      database_extension_def default_extension_def hook_ok_def)
  then show ?thesis using store_backend.store_writes [OF assms(1) st] by simp
qed

text \<open>A backend whose reads fail.\<close>

definition unreadable :: "disk_world storage" where
  "unreadable = \<lparr>fetch = (\<lambda>_ w. (Inl ''io error'', w)), store = store disk_storage\<rparr>"

interpretation ur: store_backend unreadable disk
  by unfold_locales (auto simp: unreadable_def disk_storage_def memory_storage_def memory_store_def)

theorem failed_load_overwrites_saved_state_witness:
  "disk (world (run_store opset \<lparr>config = default_configuration, extensions = [database_extension opset unreadable]\<rparr>
     (apply_and_broadcast opset \<lparr>config = default_configuration, extensions = [database_extension opset unreadable]\<rparr> [9] Local
       (spawn opset \<lparr>config = default_configuration, extensions = [database_extension opset unreadable]\<rparr> ''doc''
          (\<lambda>_. \<lparr>cap = 8, queue = [], chan_closed = False\<rparr>) 0 Map.empty \<lparr>disk = [''doc'' \<mapsto> [1, 2, 3]], log = []\<rparr>)))) ''doc'' =
   Some [9]"
  using failed_load_overwrites_saved_state [OF ur.store_backend_axioms, of
      "\<lparr>config = default_configuration, extensions = [database_extension opset unreadable]\<rparr>" opset "''doc''"
      "\<lparr>disk = [''doc'' \<mapsto> [1, 2, 3]], log = []\<rparr>" "''io error''" "\<lparr>disk = [''doc'' \<mapsto> [1, 2, 3]], log = []\<rparr>" "[9]" "[9]" "[9]"
      Local "\<lambda>_. \<lparr>cap = 8, queue = [], chan_closed = False\<rparr>" 0 Map.empty]
  by (simp add: unreadable_def disk_storage_def memory_storage_def memory_store_def opset_def news_def)

end
