(* ===== verification/Http.thy ===== *)
theory Http
  imports Basics
begin

text \<open>
  The request side of \<open>server.rs\<close>: the query-string parser and its percent decoding, and the request
  metadata \<open>ws_handler\<close> collects. A slice that does not end at a character boundary panics; the result
  is then \<open>None\<close>.
\<close>

section \<open>UTF-8\<close>

text \<open>\<open>String::from_utf8_lossy\<close>: valid sequences are kept, and each maximal prefix of a sequence that
  breaks off becomes one replacement character U+FFFD.\<close>

definition replacement :: bytes where
  "replacement = [0xEF, 0xBF, 0xBD]"

definition is_cont :: "u8 \<Rightarrow> bool" where
  "is_cont b \<longleftrightarrow> 0x80 \<le> b \<and> b \<le> 0xBF"

text \<open>The number of continuation bytes a lead byte asks for, and the range of the first of them.\<close>

definition lead_info :: "u8 \<Rightarrow> (nat \<times> u8 \<times> u8) option" where
  "lead_info b =
     (if 0xC2 \<le> b \<and> b \<le> 0xDF then Some (1, 0x80, 0xBF)
      else if b = 0xE0 then Some (2, 0xA0, 0xBF)
      else if b = 0xED then Some (2, 0x80, 0x9F)
      else if 0xE1 \<le> b \<and> b \<le> 0xEF then Some (2, 0x80, 0xBF)
      else if b = 0xF0 then Some (3, 0x90, 0xBF)
      else if 0xF1 \<le> b \<and> b \<le> 0xF3 then Some (3, 0x80, 0xBF)
      else if b = 0xF4 then Some (3, 0x80, 0x8F)
      else None)"

text \<open>The continuation bytes that can be taken, at most \<open>n\<close>, the first within its range.\<close>

fun take_conts :: "nat \<Rightarrow> u8 \<Rightarrow> u8 \<Rightarrow> bytes \<Rightarrow> bytes" where
  "take_conts 0 lo hi bs = []"
| "take_conts (Suc n) lo hi [] = []"
| "take_conts (Suc n) lo hi (b # bs) =
     (if lo \<le> b \<and> b \<le> hi then b # take_conts n 0x80 0xBF bs else [])"

text \<open>What the sequence at a lead byte contributes, and how many bytes after the lead it uses up.\<close>

definition utf8_step :: "u8 \<Rightarrow> bytes \<Rightarrow> bytes \<times> nat" where
  "utf8_step b bs =
     (if b < 0x80 then ([b], 0)
      else case lead_info b of
             None \<Rightarrow> (replacement, 0)
           | Some (n, lo, hi) \<Rightarrow>
               let cs = take_conts n lo hi bs
               in (if length cs = n then b # cs else replacement, length cs))"

function utf8_lossy :: "bytes \<Rightarrow> bytes" where
  "utf8_lossy [] = []"
| "utf8_lossy (b # bs) = fst (utf8_step b bs) @ utf8_lossy (drop (snd (utf8_step b bs)) bs)"
  by pat_completeness auto
termination
  by (relation "measure length") auto

section \<open>Percent decoding\<close>

text \<open>\<open>u8::from_str_radix(s, 16)\<close> on two bytes; the standard parser also takes a leading plus sign.\<close>

definition hex_digit :: "u8 \<Rightarrow> nat option" where
  "hex_digit b =
     (if 0x30 \<le> b \<and> b \<le> 0x39 then Some (unat b - 0x30)
      else if 0x61 \<le> b \<and> b \<le> 0x66 then Some (unat b - 0x61 + 10)
      else if 0x41 \<le> b \<and> b \<le> 0x46 then Some (unat b - 0x41 + 10)
      else None)"

definition from_str_radix_16 :: "u8 \<Rightarrow> u8 \<Rightarrow> u8 option" where
  "from_str_radix_16 a b =
     (if a = 0x2B then map_option word_of_nat (hex_digit b)
      else case (hex_digit a, hex_digit b) of
             (Some x, Some y) \<Rightarrow> Some (word_of_nat (16 * x + y))
           | _ \<Rightarrow> None)"

text \<open>\<open>&bytes[i + 1..i + 3]\<close>: the first index follows an ASCII byte; the second must not point into
  the middle of a character.\<close>

definition boundary :: "bytes \<Rightarrow> bool" where
  "boundary rest \<longleftrightarrow> (case rest of [] \<Rightarrow> True | b # _ \<Rightarrow> \<not> is_cont b)"

fun percent_loop :: "bytes \<Rightarrow> bytes option" where
  "percent_loop (p # a # b # rest) =
     (if p = 0x25 then
        (if \<not> boundary rest then None
         else case from_str_radix_16 a b of
                Some v \<Rightarrow> map_option (Cons v) (percent_loop rest)
              | None \<Rightarrow> map_option (Cons p) (percent_loop (a # b # rest)))
      else map_option (Cons p) (percent_loop (a # b # rest)))"
| "percent_loop [a, b] = Some [a, b]"
| "percent_loop [a] = Some [a]"
| "percent_loop [] = Some []"

definition plus_to_space :: "string \<Rightarrow> string" where
  "plus_to_space s = map (\<lambda>c. if c = CHR ''+'' then CHR '' '' else c) s"

definition percent_decode :: "string \<Rightarrow> string option" where
  "percent_decode s =
     map_option (\<lambda>out. of_bytes (utf8_lossy out)) (percent_loop (as_bytes (plus_to_space s)))"

section \<open>The query string\<close>

fun split_on :: "char \<Rightarrow> string \<Rightarrow> string list" where
  "split_on c [] = [[]]"
| "split_on c (x # xs) =
     (if x = c then [] # split_on c xs
      else case split_on c xs of
             [] \<Rightarrow> [[x]]
           | p # ps \<Rightarrow> (x # p) # ps)"

text \<open>\<open>pair.splitn(2, '=')\<close>: what stands before and after the first equals sign.\<close>

definition split_pair :: "string \<Rightarrow> string \<times> string" where
  "split_pair pair =
     (case find_char CHR ''='' pair of
        None \<Rightarrow> (pair, [])
      | Some i \<Rightarrow> (take i pair, drop (Suc i) pair))"

fun decode_pairs :: "string list \<Rightarrow> (string \<times> string) list option" where
  "decode_pairs [] = Some []"
| "decode_pairs (p # ps) =
     (case split_pair p of (k, v) \<Rightarrow>
        (case (percent_decode k, percent_decode v) of
           (Some k', Some v') \<Rightarrow> map_option (Cons (k', v')) (decode_pairs ps)
         | _ \<Rightarrow> None))"

definition form_urlencoded_parse :: "string \<Rightarrow> (string \<times> string) list option" where
  "form_urlencoded_parse q = decode_pairs (filter (\<lambda>p. p \<noteq> []) (split_on CHR ''&'' q))"

section \<open>Request metadata\<close>

text \<open>Header names and values as \<open>axum\<close> delivers them; a value that is not visible ASCII has no text
  (\<open>to_str\<close> fails).\<close>

definition to_ascii_lowercase :: "string \<Rightarrow> string" where
  "to_ascii_lowercase s =
     map (\<lambda>c. if of_char c \<in> {0x41::nat..0x5A} then char_of (of_char c + 0x20 :: nat) else c) s"

definition collect_headers :: "(string \<times> string option) list \<Rightarrow> (string \<rightharpoonup> string)" where
  "collect_headers hs =
     fold (\<lambda>(k, v) m. case v of Some val \<Rightarrow> m(to_ascii_lowercase k \<mapsto> val) | None \<Rightarrow> m) hs Map.empty"

definition collect_request ::
    "(string \<times> string option) list \<Rightarrow> string option \<Rightarrow> string \<Rightarrow> request_meta option" where
  "collect_request hs query remote =
     (let meta = default_request_meta\<lparr>headers := collect_headers hs\<rparr>
      in case query of
           None \<Rightarrow> Some (meta\<lparr>remote_ip := Some remote\<rparr>)
         | Some q \<Rightarrow>
             map_option (\<lambda>ps. meta\<lparr>parameters := fold (\<lambda>(k, v) m. m(k \<mapsto> v)) ps Map.empty,
                                   remote_ip := Some remote\<rparr>)
               (form_urlencoded_parse q))"

section \<open>Percent encoding, as clients do it\<close>

definition hex_char :: "nat \<Rightarrow> u8" where
  "hex_char n = (if n < 10 then word_of_nat (0x30 + n) else word_of_nat (0x41 + (n - 10)))"

definition percent_byte :: "u8 \<Rightarrow> bytes" where
  "percent_byte b = [0x25, hex_char (unat b div 16), hex_char (unat b mod 16)]"

definition percent_encode :: "string \<Rightarrow> string" where
  "percent_encode s = of_bytes (concat (map percent_byte (as_bytes s)))"

definition is_ascii :: "string \<Rightarrow> bool" where
  "is_ascii s \<longleftrightarrow> list_all (\<lambda>c. of_char c < (0x80::nat)) s"

fun encode_query :: "(string \<times> string) list \<Rightarrow> string" where
  "encode_query [] = []"
| "encode_query [(k, v)] = percent_encode k @ ''='' @ percent_encode v"
| "encode_query ((k, v) # kv # kvs) =
     percent_encode k @ ''='' @ percent_encode v @ ''&'' @ encode_query (kv # kvs)"

lemma hex_table:
  "list_all (\<lambda>n. hex_digit (hex_char n) = Some n \<and> hex_char n \<noteq> 0x25 \<and> hex_char n \<noteq> 0x26 \<and>
     hex_char n \<noteq> 0x2B \<and> hex_char n \<noteq> 0x3D) [0..<16]"
  by code_simp

lemma hex_digit_char: "n < 16 \<Longrightarrow> hex_digit (hex_char n) = Some n"
  using hex_table by (simp add: list_all_iff)

lemma hex_char_plain: "n < 16 \<Longrightarrow> hex_char n \<notin> {0x25, 0x26, 0x2B, 0x3D}"
  using hex_table by (simp add: list_all_iff)

lemma percent_byte_decodes:
  assumes "boundary rest"
  shows "percent_loop (percent_byte b @ rest) = map_option (Cons b) (percent_loop rest)"
proof -
  have b: "unat b < 256" using unsigned_less [of b, where ?'a = nat] by simp
  then have "unat b div 16 < 16" "unat b mod 16 < 16" by auto
  then have "from_str_radix_16 (hex_char (unat b div 16)) (hex_char (unat b mod 16)) = Some b"
    using hex_char_plain by (auto simp: from_str_radix_16_def hex_digit_char)
  then show ?thesis using assms by (simp add: percent_byte_def)
qed

lemma percent_loop_encoded: "percent_loop (concat (map percent_byte bs)) = Some bs"
proof (induction bs)
  case (Cons b bs)
  have "boundary (concat (map percent_byte bs))"
    by (cases bs) (simp_all add: boundary_def percent_byte_def is_cont_def)
  then show ?case using Cons by (simp add: percent_byte_decodes)
qed simp

lemma as_bytes_of_bytes [simp]: "as_bytes (of_bytes bs) = bs"
proof -
  have "(word_of_nat (of_char (char_of (unat b) :: char)) :: u8) = b" for b :: u8
    using unsigned_less [of b, where ?'a = nat] by simp
  then show ?thesis by (induction bs) (simp_all add: as_bytes_def of_bytes_def)
qed

lemma utf8_lossy_ascii: "list_all (\<lambda>b. b < 0x80) bs \<Longrightarrow> utf8_lossy bs = bs"
  by (induction bs) (simp_all add: utf8_step_def)

lemma as_bytes_ascii: "is_ascii s \<Longrightarrow> list_all (\<lambda>b. b < 0x80) (as_bytes s)"
  by (auto simp: is_ascii_def as_bytes_def list_all_iff word_less_nat_alt)

lemma percent_byte_no_special: "x \<in> set (percent_byte b) \<Longrightarrow> x \<notin> {0x26, 0x2B, 0x3D}"
proof -
  have "unat b < 256" using unsigned_less [of b, where ?'a = nat] by simp
  then have "unat b div 16 < 16" "unat b mod 16 < 16" by auto
  then show "x \<in> set (percent_byte b) \<Longrightarrow> x \<notin> {0x26, 0x2B, 0x3D}"
    using hex_char_plain by (auto simp: percent_byte_def)
qed

lemma percent_encode_no_special: "c \<in> set (percent_encode s) \<Longrightarrow> c \<notin> {CHR ''&'', CHR ''+'', CHR ''=''}"
proof -
  assume "c \<in> set (percent_encode s)"
  then obtain b x where x: "x \<in> set (percent_byte b)" and c: "c = char_of (unat x)"
    by (auto simp: percent_encode_def of_bytes_def)
  have "x = word_of_nat (of_char c)" using unsigned_less [of x, where ?'a = nat] by (simp add: c)
  then show ?thesis using percent_byte_no_special [OF x] by auto
qed

lemma plus_to_space_encoded: "plus_to_space (percent_encode s) = percent_encode s"
  using percent_encode_no_special by (auto simp: plus_to_space_def intro!: map_idI)

lemma percent_decode_encode: "is_ascii s \<Longrightarrow> percent_decode (percent_encode s) = Some s"
  unfolding percent_decode_def plus_to_space_encoded
  by (simp add: percent_encode_def percent_loop_encoded utf8_lossy_ascii as_bytes_ascii)

lemma split_on_none: "c \<notin> set s \<Longrightarrow> split_on c s = [s]"
  by (induction s) auto

lemma split_on_append: "c \<notin> set s \<Longrightarrow> split_on c (s @ c # t) = s # split_on c t"
  by (induction s) auto

lemma split_pair_append: "CHR ''='' \<notin> set k \<Longrightarrow> split_pair (k @ ''='' @ v) = (k, v)"
  by (simp add: split_pair_def)

lemma amp_notin: "CHR ''&'' \<notin> set (percent_encode k @ ''='' @ percent_encode v)"
  using percent_encode_no_special by auto

lemma split_query:
  "kvs \<noteq> [] \<Longrightarrow> split_on CHR ''&'' (encode_query kvs) = map (\<lambda>(k, v). percent_encode k @ ''='' @ percent_encode v) kvs"
proof (induction kvs rule: encode_query.induct)
  case (3 k v kv kvs)
  show ?case
    using split_on_append [OF amp_notin [of k v], of "encode_query (kv # kvs)"] 3 by simp
qed (simp_all add: split_on_none [OF amp_notin, simplified])

lemma decode_pairs_encoded:
  "list_all (\<lambda>(k, v). is_ascii k \<and> is_ascii v) kvs \<Longrightarrow>
     decode_pairs (map (\<lambda>(k, v). percent_encode k @ ''='' @ percent_encode v) kvs) = Some kvs"
proof (induction kvs)
  case (Cons kv kvs)
  obtain k v where "kv = (k, v)" by fastforce
  moreover have "CHR ''='' \<notin> set (percent_encode k)" using percent_encode_no_special by blast
  ultimately show ?case
    using Cons split_pair_append [of "percent_encode k" "percent_encode v"] by (simp add: percent_decode_encode)
qed simp

section \<open>Properties\<close>

text \<open>C31: The query parser inverts percent encoding. A query string built from any list of ASCII keys
  and values, percent-encoded and joined with \<open>=\<close> and \<open>&\<close>, parses back to the same list in the same
  order, whatever characters keys and values contain.\<close>

theorem query_roundtrip:
  assumes "list_all (\<lambda>(k, v). is_ascii k \<and> is_ascii v) kvs"
  shows "form_urlencoded_parse (encode_query kvs) = Some kvs"
proof (cases "kvs = []")
  case False
  have "filter (\<lambda>p. p \<noteq> []) (map (\<lambda>(k, v). percent_encode k @ ''='' @ percent_encode v) kvs) =
      map (\<lambda>(k, v). percent_encode k @ ''='' @ percent_encode v) kvs"
    by (rule filter_True) auto
  then show ?thesis
    by (simp only: form_urlencoded_parse_def split_query [OF False] decode_pairs_encoded [OF assms])
qed (simp add: form_urlencoded_parse_def)

theorem query_roundtrip_witness:
  "form_urlencoded_parse (encode_query [(''a b'', ''1&2=3''), (''t'', ''%+'')]) = Some [(''a b'', ''1&2=3''), (''t'', ''%+'')]"
  by (rule query_roundtrip) (simp add: is_ascii_def)

lemma percent_loop_ascii: "list_all (\<lambda>b. b < 0x80) bs \<Longrightarrow> percent_loop bs \<noteq> None"
proof (induction bs rule: percent_loop.induct)
  case (1 p a b rest)
  have "boundary rest" using 1(4) by (cases rest) (auto simp: boundary_def is_cont_def)
  then show ?case using 1 by (auto split: option.split)
qed simp_all

text \<open>Percent decoding never panics on ASCII input, whatever stray or truncated escapes it holds.\<close>

theorem percent_decode_ascii_total:
  assumes "is_ascii s"
  shows "\<exists>t. percent_decode s = Some t"
proof -
  have "is_ascii (plus_to_space s)" using assms by (auto simp: is_ascii_def plus_to_space_def list_all_iff)
  then show ?thesis
    using percent_loop_ascii [OF as_bytes_ascii] by (auto simp: percent_decode_def)
qed

theorem percent_decode_ascii_total_witness: "\<exists>t. percent_decode ''100%'' = Some t"
  by (rule percent_decode_ascii_total) (simp add: is_ascii_def)

lemma percent_loop_plain: "x \<noteq> 0x25 \<Longrightarrow> percent_loop (x # ys) = map_option (Cons x) (percent_loop ys)"
  by (cases ys rule: percent_loop.cases) auto

lemma percent_loop_skip: "0x25 \<notin> set xs \<Longrightarrow> percent_loop (xs @ ys) = map_option ((@) xs) (percent_loop ys)"
  by (induction xs) (auto simp: percent_loop_plain map_option_case split: option.split)

lemma percent_byte_char: "(word_of_nat (of_char c) :: u8) = 0x25 \<Longrightarrow> c = CHR ''%''"
proof -
  assume "(word_of_nat (of_char c) :: u8) = 0x25"
  then have "of_char c = (37 :: nat)" using unat_of_char [of c] by simp
  then show ?thesis by (simp add: of_char_eq_iff [of c "CHR ''%''", where ?'a = nat, simplified])
qed

text \<open>C40: Percent decoding panics when an escape is cut by a character of several bytes: whenever the
  first percent sign of a string and one more byte are followed by the first byte of such a character,
  the slice \<open>bytes[i + 1..i + 3]\<close> ends inside the character.\<close>

theorem percent_decode_panics:
  assumes "is_cont (word_of_nat (of_char b))" and "CHR ''%'' \<notin> set pre"
  shows "percent_decode (pre @ CHR ''%'' # a # l # b # rest) = None"
proof -
  let ?w = "\<lambda>s. as_bytes (plus_to_space s)"
  have "b \<noteq> CHR ''+''" using assms(1) by (auto simp: is_cont_def)
  then have w: "?w (pre @ CHR ''%'' # a # l # b # rest) = ?w pre @ 0x25 # ?w [a] @ ?w [l] @ word_of_nat (of_char b) # ?w rest"
    by (simp add: plus_to_space_def as_bytes_def)
  have "0x25 \<notin> set (?w pre)"
    using assms(2) percent_byte_char by (fastforce simp: plus_to_space_def as_bytes_def split: if_splits)
  moreover have "percent_loop (0x25 # ?w [a] @ ?w [l] @ word_of_nat (of_char b) # ?w rest) = None"
    using assms(1) by (simp add: plus_to_space_def as_bytes_def boundary_def)
  ultimately show ?thesis by (simp add: percent_decode_def w percent_loop_skip)
qed

theorem percent_decode_panics_witness:
  "percent_decode [CHR ''q'', CHR ''%'', CHR ''a'', CHR 0xC3, CHR 0xA9] = None"
  using percent_decode_panics [of "CHR 0xA9" "''q''" "CHR ''a''" "CHR 0xC3" "[]"] by (simp add: is_cont_def)

end
