(* ===== verification/Server.thy ===== *)
theory Server
  imports Document Http
begin

text \<open>
  The server around the document actors (\<open>server.rs\<close>): the registry of resident documents, the
  per-socket connection with its queue of frames that wait for authentication, the authentication
  handshake, and the life of a socket. The state \<open>net\<close> is what all tasks share. An actor is the record
  of theory \<open>Document\<close>; its mailbox is its field \<open>rx\<close>, and an actor whose task has ended is gone.
  The handlers are given from beginning to end, with a parameter for an await: what the rest of the
  system does meanwhile, and whether the acknowledgement arrives. Theory \<open>System\<close> cuts them at their
  await points, lets all tasks interleave, and shows that the two descriptions agree.
\<close>

section \<open>The client connection's state\<close>

record established =
  est_doc :: nat
  est_conn_id :: u64

record client_connection =
  socket_id :: string
  out_tx :: nat
  request :: request_meta
  establisheds :: "(string \<times> established) list"
  pending :: "(string \<times> bytes list) list"
  queued_bytes :: nat
  queued_messages :: nat
  established_at :: instant
  last_message_at :: instant
  authenticated :: bool

section \<open>Tasks that wait\<close>

text \<open>Where a caller of \<open>ServerShared::document\<close> is: before the first lookup, after it, waiting for the lock
  of the name, holding it, before and after the load, and at the three steps that end the function.\<close>

datatype pc =
    Start
  | Missed
  | Waiting nat
  | Locked nat
  | Spawning nat
  | Spawned nat nat
  | Inserted nat nat
  | Removed nat nat
  | Done nat

text \<open>Why a task wants the document: to register a connection, with the number of further attempts, or to
  apply an update. A task that has been interrupted is looking the document up, or waits for the
  acknowledgement of the command it has sent. Socket tasks are known by their outbound channel.\<close>

datatype 'j purpose = Join nat "'j conn_handle" | Edit string bytes

datatype 'j call = Looking "'j purpose" pc | Acking "'j purpose" nat nat

datatype caller = Socket nat | Job nat

section \<open>Shared state\<close>

text \<open>The fields up to \<open>n_acks\<close> are those of \<open>ServerShared\<close> and of the tasks it talks to; a lock is known by
  its name and a number, and \<open>n_acks\<close> holds the acknowledgements that have been sent. The table \<open>sockets\<close>
  holds the state of the running socket tasks, each under the number of its outbound channel, \<open>calls\<close>
  the handlers that are waiting, \<open>upgrades\<close> the requests whose socket has not been opened yet, and
  \<open>n_replies\<close> is the channel of the Redis reply publisher.\<close>

record ('d, 'v, 'a, 'j, 'w) net =
  n_clock :: instant
  n_chans :: chans
  n_world :: 'w
  documents :: "string \<rightharpoonup> nat"
  actors :: "nat \<rightharpoonup> ('d, 'v, 'a, 'j, 'w) document"
  next_actor :: nat
  next_ack :: nat
  next_conn_id :: u64
  next_socket_id :: u64
  active_connections :: nat
  n_creating :: "string \<rightharpoonup> nat"
  n_locked :: "(string \<times> nat) set"
  next_lock :: nat
  n_acks :: "nat set"
  sockets :: "nat \<rightharpoonup> client_connection"
  calls :: "caller \<rightharpoonup> 'j call"
  upgrades :: "request_meta list"
  n_replies :: "bytes list"

text \<open>\<open>UnboundedSender::send\<close> to an actor: it fails when the actor's task has ended.\<close>

definition send_command ::
    "nat \<Rightarrow> 'j doc_command \<Rightarrow> ('d, 'v, 'a, 'j, 'w) net \<Rightarrow> bool \<times> ('d, 'v, 'a, 'j, 'w) net" where
  "send_command h cmd n =
     (case actors n h of
        None \<Rightarrow> (False, n)
      | Some a \<Rightarrow> (True, n\<lparr>actors := (actors n)(h \<mapsto> a\<lparr>rx := rx a @ [cmd]\<rparr>)\<rparr>))"

section \<open>Looking up a document\<close>

text \<open>The lock of a name, made if there is none.\<close>

definition lock_entry :: "string \<Rightarrow> ('d, 'v, 'a, 'j, 'w) net \<Rightarrow> nat \<times> ('d, 'v, 'a, 'j, 'w) net" where
  "lock_entry nm n =
     (case n_creating n nm of
        Some l \<Rightarrow> (l, n)
      | None \<Rightarrow> (next_lock n, n\<lparr>n_creating := (n_creating n)(nm \<mapsto> next_lock n), next_lock := Suc (next_lock n)\<rparr>))"

text \<open>Loading the document and starting its task; the registry does not have it yet.\<close>

definition spawn_document ::
    "('d, 'v, 'u, 'a, 'p) yrs \<Rightarrow> ('d, 'j, 'w) server \<Rightarrow> string \<Rightarrow> ('d, 'v, 'a, 'j, 'w) net \<Rightarrow>
       nat \<times> ('d, 'v, 'a, 'j, 'w) net" where
  "spawn_document Y S nm n =
     (let a = spawn Y S nm (n_chans n) (n_clock n) (documents n) (n_world n);
          h = next_actor n
      in (h, n\<lparr>actors := (actors n)(h \<mapsto> a), n_world := world a, next_actor := Suc h\<rparr>))"

text \<open>\<open>ServerShared::document\<close>, one step after another: the result is \<open>None\<close> while the lock is not free, and
  when the function has returned.\<close>

fun lookup_turn ::
    "('d, 'v, 'u, 'a, 'p) yrs \<Rightarrow> ('d, 'j, 'w) server \<Rightarrow> string \<Rightarrow> pc \<Rightarrow> ('d, 'v, 'a, 'j, 'w) net \<Rightarrow>
       (pc \<times> ('d, 'v, 'a, 'j, 'w) net) option" where
  "lookup_turn Y S nm Start n = Some (case documents n nm of Some h \<Rightarrow> (Done h, n) | None \<Rightarrow> (Missed, n))"
| "lookup_turn Y S nm Missed n = Some (case lock_entry nm n of (l, n) \<Rightarrow> (Waiting l, n))"
| "lookup_turn Y S nm (Waiting l) n =
     (if (nm, l) \<in> n_locked n then None else Some (Locked l, n\<lparr>n_locked := insert (nm, l) (n_locked n)\<rparr>))"
| "lookup_turn Y S nm (Locked l) n = Some
     (case documents n nm of
        Some h \<Rightarrow> (Done h, n\<lparr>n_locked := n_locked n - {(nm, l)}\<rparr>)
      | None \<Rightarrow> (Spawning l, n))"
| "lookup_turn Y S nm (Spawning l) n = Some (case spawn_document Y S nm n of (h, n) \<Rightarrow> (Spawned l h, n))"
| "lookup_turn Y S nm (Spawned l h) n = Some (Inserted l h, n\<lparr>documents := (documents n)(nm \<mapsto> h)\<rparr>)"
| "lookup_turn Y S nm (Inserted l h) n = Some (Removed l h, n\<lparr>n_creating := (n_creating n)(nm := None)\<rparr>)"
| "lookup_turn Y S nm (Removed l h) n = Some (Done h, n\<lparr>n_locked := n_locked n - {(nm, l)}\<rparr>)"
| "lookup_turn Y S nm (Done h) n = None"

text \<open>The same function for a caller that is not interrupted.\<close>

definition get_document ::
    "('d, 'v, 'u, 'a, 'p) yrs \<Rightarrow> ('d, 'j, 'w) server \<Rightarrow> string \<Rightarrow> ('d, 'v, 'a, 'j, 'w) net \<Rightarrow>
       nat \<times> ('d, 'v, 'a, 'j, 'w) net" where
  "get_document Y S nm n =
     (case documents n nm of
        Some h \<Rightarrow> (h, n)
      | None \<Rightarrow>
          let (l, n) = lock_entry nm n;
              (h, n) = spawn_document Y S nm n
          in (h, n\<lparr>documents := (documents n)(nm \<mapsto> h), n_creating := (n_creating n)(nm := None)\<rparr>))"

definition documents_count :: "('d, 'v, 'a, 'j, 'w) net \<Rightarrow> nat" where
  "documents_count n = card (dom (documents n))"

definition active_connection_count :: "('d, 'v, 'a, 'j, 'w) net \<Rightarrow> nat" where
  "active_connection_count n = active_connections n"

type_synonym ('d, 'v, 'a, 'j, 'w) wait = "nat \<Rightarrow> ('d, 'v, 'a, 'j, 'w) net \<Rightarrow> bool \<times> ('d, 'v, 'a, 'j, 'w) net"

definition direct_apply ::
    "('d, 'v, 'u, 'a, 'p) yrs \<Rightarrow> ('d, 'j, 'w) server \<Rightarrow> ('d, 'v, 'a, 'j, 'w) wait \<Rightarrow> string \<Rightarrow> bytes \<Rightarrow>
       ('d, 'v, 'a, 'j, 'w) net \<Rightarrow> (string + unit) \<times> ('d, 'v, 'a, 'j, 'w) net" where
  "direct_apply Y S wait nm update n =
     (let (h, n) = get_document Y S nm n;
          ack = next_ack n;
          n = n\<lparr>next_ack := Suc ack\<rparr>
      in case send_command h (DirectApply update ack) n of
           (False, n) \<Rightarrow> (Inl ''document actor unavailable'', n)
         | (True, n) \<Rightarrow> (Inr (), snd (wait ack n)))"

section \<open>The client connection\<close>

definition client_new :: "string \<Rightarrow> nat \<Rightarrow> request_meta \<Rightarrow> instant \<Rightarrow> client_connection" where
  "client_new sid ch req now =
     \<lparr>socket_id = sid, out_tx = ch, request = req, establisheds = [], pending = [], queued_bytes = 0,
      queued_messages = 0, established_at = now, last_message_at = now, authenticated = False\<rparr>"

definition idle_deadline :: "('d, 'j, 'w) server \<Rightarrow> client_connection \<Rightarrow> instant" where
  "idle_deadline S c =
     (let reference = (if authenticated c then last_message_at c else established_at c)
      in reference + timeout (config S))"

definition socket_send ::
    "client_connection \<Rightarrow> out_msg \<Rightarrow> ('d, 'v, 'a, 'j, 'w) net \<Rightarrow> ('d, 'v, 'a, 'j, 'w) net" where
  "socket_send c m n = n\<lparr>n_chans := snd (chan_send (out_tx c) m (n_chans n))\<rparr>"

definition terminate ::
    "client_connection \<Rightarrow> close_event \<Rightarrow> ('d, 'v, 'a, 'j, 'w) net \<Rightarrow> ('d, 'v, 'a, 'j, 'w) net" where
  "terminate c ev n = socket_send c (Close ev) n"

definition deny ::
    "('d, 'v, 'u, 'a, 'p) yrs \<Rightarrow> client_connection \<Rightarrow> string \<Rightarrow> string \<Rightarrow> ('d, 'v, 'a, 'j, 'w) net \<Rightarrow>
       ('d, 'v, 'a, 'j, 'w) net" where
  "deny Y c raw_key why n =
     (let n = socket_send c (Frame (into_bytes (out_permission_denied (wire Y) why (out_new (wire Y) raw_key)))) n
      in terminate c FORBIDDEN n)"

definition enqueue ::
    "('d, 'j, 'w) server \<Rightarrow> string \<Rightarrow> bytes \<Rightarrow> client_connection \<times> ('d, 'v, 'a, 'j, 'w) net \<Rightarrow>
       client_connection \<times> ('d, 'v, 'a, 'j, 'w) net" where
  "enqueue S raw_key data cn =
     (case cn of (c, n) \<Rightarrow>
        let cfg = config S;
            is_new_doc = (map_of (pending c) raw_key = None)
        in if is_new_doc \<and> length (pending c) + 1 > max_pending_documents cfg then
             (c, terminate c RESET_CONNECTION n)
           else if queued_messages c + 1 > max_unauthenticated_queue_messages cfg \<or>
                   queued_bytes c + length data > max_unauthenticated_queue_size cfg then
             (c, terminate c RESET_CONNECTION n)
           else
             (c\<lparr>queued_bytes := queued_bytes c + length data,
                queued_messages := queued_messages c + 1,
                pending := AList.update raw_key
                  ((case map_of (pending c) raw_key of Some ms \<Rightarrow> ms | None \<Rightarrow> []) @ [data]) (pending c)\<rparr>, n))"

section \<open>Registering with a document\<close>

text \<open>The loop \<open>for _ in 0..2\<close>, with the number of attempts left.\<close>

fun register_connection ::
    "nat \<Rightarrow> ('d, 'v, 'u, 'a, 'p) yrs \<Rightarrow> ('d, 'j, 'w) server \<Rightarrow> ('d, 'v, 'a, 'j, 'w) wait \<Rightarrow>
       string \<Rightarrow> 'j conn_handle \<Rightarrow> ('d, 'v, 'a, 'j, 'w) net \<Rightarrow> nat option \<times> ('d, 'v, 'a, 'j, 'w) net" where
  "register_connection 0 Y S wait nm conn n = (None, n)"
| "register_connection (Suc k) Y S wait nm conn n =
     (let (h, n) = get_document Y S nm n;
          ack = next_ack n;
          n = n\<lparr>next_ack := Suc ack\<rparr>
      in case send_command h (AddConnection conn ack) n of
           (False, n) \<Rightarrow> register_connection k Y S wait nm conn (n\<lparr>documents := (documents n)(nm := None)\<rparr>)
         | (True, n) \<Rightarrow>
             (case wait ack n of
                (True, n) \<Rightarrow> (Some h, n)
              | (False, n) \<Rightarrow>
                  register_connection k Y S wait nm conn (n\<lparr>documents := (documents n)(nm := None)\<rparr>)))"

text \<open>Sending the frames that waited for the authentication.\<close>

fun drain_pending ::
    "nat \<Rightarrow> u64 \<Rightarrow> bytes list \<Rightarrow> client_connection \<times> ('d, 'v, 'a, 'j, 'w) net \<Rightarrow>
       client_connection \<times> ('d, 'v, 'a, 'j, 'w) net" where
  "drain_pending h cid [] cn = cn"
| "drain_pending h cid (msg # msgs) cn =
     (case cn of (c, n) \<Rightarrow>
        drain_pending h cid msgs
          (c\<lparr>queued_messages := queued_messages c - 1, queued_bytes := queued_bytes c - length msg\<rparr>,
           snd (send_command h (ClientFrame cid msg) n)))"

text \<open>The second half of \<open>authenticate\<close>, after both hooks have accepted the client.\<close>

definition accept_client ::
    "('d, 'v, 'u, 'a, 'p) yrs \<Rightarrow> ('d, 'j, 'w) server \<Rightarrow> ('d, 'v, 'a, 'j, 'w) wait \<Rightarrow> string \<Rightarrow>
       'j conn_cell \<Rightarrow> string option \<Rightarrow> client_connection \<times> ('d, 'v, 'a, 'j, 'w) net \<Rightarrow>
       client_connection \<times> ('d, 'v, 'a, 'j, 'w) net" where
  "accept_client Y S wait raw_key cell provider_version cn =
     (case cn of (c, n) \<Rightarrow>
        let (nm, sid) = parse_routing_key raw_key;
            cell = cell\<lparr>cell_config := set_authenticated True (cell_config cell)\<rparr>;
            c = c\<lparr>authenticated := True\<rparr>;
            read_only = cc_read_only (cell_config cell);
            n = socket_send c (Frame (into_bytes
                  (out_authenticated (wire Y) read_only (out_new (wire Y) raw_key)))) n;
            cid = next_conn_id n;
            n = n\<lparr>next_conn_id := cid + 1\<rparr>;
            conn = \<lparr>conn_id = cid, outbound = out_tx c, conn_address = raw_key,
                    conn_read_only = read_only, conn_socket_id = socket_id c,
                    conn_session_id = sid, conn_cell = cell, conn_request = request c,
                    conn_provider_version = provider_version, client_ids = []\<rparr>
        in case register_connection 2 Y S wait nm conn n of
             (None, n) \<Rightarrow> (c, terminate c RESET_CONNECTION n)
           | (Some h, n) \<Rightarrow>
               let c = c\<lparr>establisheds := AList.update raw_key
                          \<lparr>est_doc = h, est_conn_id = cid\<rparr> (establisheds c)\<rparr>
               in case map_of (pending c) raw_key of
                    None \<Rightarrow> (c, n)
                  | Some msgs \<Rightarrow>
                      drain_pending h cid msgs (c\<lparr>pending := AList.delete raw_key (pending c)\<rparr>, n))"

text \<open>What the frame carries after the opcode: the token, empty if it cannot be read, and the provider
  version, if it can. The result is \<open>None\<close> for frames \<open>authenticate\<close> ignores.\<close>

definition auth_fields :: "codec \<Rightarrow> bytes \<Rightarrow> (string \<times> string option) option" where
  "auth_fields C data =
     (case parse C data of
        Inl _ \<Rightarrow> None
      | Inr frame \<Rightarrow>
          (case dec_var C (decoder frame) of
             Inl _ \<Rightarrow> None
           | Inr (auth_type, dec) \<Rightarrow>
               if auth_type \<noteq> auth_code Token then None
               else
                 let (token, dec) = (case dec_string C dec of
                                       Inr (s, rest) \<Rightarrow> (s, rest)
                                     | Inl _ \<Rightarrow> ([], after_bad_string C dec));
                     provider_version = (case dec_string C dec of Inr (s, _) \<Rightarrow> Some s | Inl _ \<Rightarrow> None)
                 in Some (token, provider_version)))"

definition authenticate ::
    "('d, 'v, 'u, 'a, 'p) yrs \<Rightarrow> ('d, 'j, 'w) server \<Rightarrow> ('d, 'v, 'a, 'j, 'w) wait \<Rightarrow> string \<Rightarrow> bytes \<Rightarrow>
       client_connection \<times> ('d, 'v, 'a, 'j, 'w) net \<Rightarrow> client_connection \<times> ('d, 'v, 'a, 'j, 'w) net" where
  "authenticate Y S wait raw_key data cn =
     (case cn of (c, n) \<Rightarrow>
        let (nm, sid) = parse_routing_key raw_key
        in case auth_fields (wire Y) data of
             None \<Rightarrow> (c, n)
           | Some (token, provider_version) \<Rightarrow>
               let cell = \<lparr>cell_context = context_new, cell_config = default_connection_config\<rparr>;
                   cp = \<lparr>cp_document_name = nm, cp_socket_id = socket_id c,
                         cp_request = request c, cp_provider_version = provider_version\<rparr>
               in case run_until_err (map (\<lambda>e. on_connect e cp) (extensions S)) (cell, n_world n) of
                    (Inl e, (_, w)) \<Rightarrow> (c, deny Y c raw_key (message e) (n\<lparr>n_world := w\<rparr>))
                  | (Inr _, (cell, w)) \<Rightarrow>
                      let ap = \<lparr>ap_token = token, ap_document_name = nm,
                                ap_socket_id = socket_id c, ap_request = request c\<rparr>
                      in case run_until_err (map (\<lambda>e. on_authenticate e ap) (extensions S)) (cell, w) of
                           (Inl e, (_, w)) \<Rightarrow> (c, deny Y c raw_key (message e) (n\<lparr>n_world := w\<rparr>))
                         | (Inr _, (cell, w)) \<Rightarrow>
                             accept_client Y S wait raw_key cell provider_version (c, n\<lparr>n_world := w\<rparr>))"

definition handle_frame ::
    "('d, 'v, 'u, 'a, 'p) yrs \<Rightarrow> ('d, 'j, 'w) server \<Rightarrow> ('d, 'v, 'a, 'j, 'w) wait \<Rightarrow> bytes \<Rightarrow>
       client_connection \<times> ('d, 'v, 'a, 'j, 'w) net \<Rightarrow> client_connection \<times> ('d, 'v, 'a, 'j, 'w) net" where
  "handle_frame Y S wait data cn =
     (case cn of (c, n) \<Rightarrow>
        let c = c\<lparr>last_message_at := n_clock n\<rparr>
        in if length data = 1 then (c, n)
           else case parse (wire Y) data of
                  Inl _ \<Rightarrow> (c, n)
                | Inr f \<Rightarrow>
                    let raw_key = routing_key f
                    in case map_of (establisheds c) raw_key of
                         Some est \<Rightarrow>
                           (c, snd (send_command (est_doc est) (ClientFrame (est_conn_id est) data) n))
                       | None \<Rightarrow>
                           if message_type f = Auth then authenticate Y S wait raw_key data (c, n)
                           else enqueue S raw_key data (c, n))"

definition cleanup ::
    "client_connection \<times> ('d, 'v, 'a, 'j, 'w) net \<Rightarrow> client_connection \<times> ('d, 'v, 'a, 'j, 'w) net" where
  "cleanup cn =
     (case cn of (c, n) \<Rightarrow>
        (c\<lparr>establisheds := []\<rparr>,
         fold (\<lambda>(_, est) n. snd (send_command (est_doc est) (RemoveConnection (est_conn_id est)) n))
           (establisheds c) n))"

section \<open>The life of a socket\<close>

datatype ws_response = ServiceUnavailable | Upgrade request_meta | Welcome

text \<open>\<open>upgrade\<close>: whether the request asks for a WebSocket. The result is \<open>None\<close> if the handler panics.\<close>

definition ws_handler ::
    "('d, 'j, 'w) server \<Rightarrow> (string \<times> string option) list \<Rightarrow> string option \<Rightarrow> string \<Rightarrow> bool \<Rightarrow>
       ('d, 'v, 'a, 'j, 'w) net \<Rightarrow> ws_response option" where
  "ws_handler S hs query remote upgrade n =
     map_option (\<lambda>meta.
         let max = max_connections (config S)
         in if max > 0 \<and> active_connections n \<ge> max then ServiceUnavailable
            else if upgrade then Upgrade meta
            else Welcome)
       (collect_request hs query remote)"

fun show_nat :: "nat \<Rightarrow> string" where
  "show_nat k = (if k < 10 then [char_of (48 + k)] else show_nat (k div 10) @ [char_of (48 + k mod 10)])"

declare show_nat.simps [simp del]

text \<open>The start of \<open>handle_socket\<close> on a fresh channel \<open>ch\<close>.\<close>

definition open_socket ::
    "('d, 'j, 'w) server \<Rightarrow> nat \<Rightarrow> request_meta \<Rightarrow> ('d, 'v, 'a, 'j, 'w) net \<Rightarrow>
       client_connection \<times> ('d, 'v, 'a, 'j, 'w) net" where
  "open_socket S ch meta n =
     (let n = n\<lparr>active_connections := active_connections n + 1\<rparr>;
          sid = ''ws-'' @ show_nat (unat (next_socket_id n));
          n = n\<lparr>next_socket_id := next_socket_id n + 1,
                n_chans := (n_chans n)(ch := \<lparr>cap = outbound_capacity (config S), queue = [], chan_closed = False\<rparr>)\<rparr>
      in (client_new sid ch meta (n_clock n), n))"

datatype socket_event = Binary bytes | CloseFrame | StreamEnd | OtherMessage | StreamError | IdleTimeout

text \<open>One turn of the socket's loop; the flag says whether the loop goes on.\<close>

definition socket_turn ::
    "('d, 'v, 'u, 'a, 'p) yrs \<Rightarrow> ('d, 'j, 'w) server \<Rightarrow> ('d, 'v, 'a, 'j, 'w) wait \<Rightarrow> socket_event \<Rightarrow>
       client_connection \<times> ('d, 'v, 'a, 'j, 'w) net \<Rightarrow> bool \<times> client_connection \<times> ('d, 'v, 'a, 'j, 'w) net" where
  "socket_turn Y S wait ev cn =
     (case ev of
        Binary b \<Rightarrow> (True, handle_frame Y S wait b cn)
      | CloseFrame \<Rightarrow> (False, cn)
      | StreamEnd \<Rightarrow> (False, cn)
      | OtherMessage \<Rightarrow> (True, cn)
      | StreamError \<Rightarrow> (False, cn)
      | IdleTimeout \<Rightarrow> (False, (fst cn, terminate (fst cn) CONNECTION_TIMEOUT (snd cn))))"

text \<open>When a sleep that starts at \<open>now\<close> ends.\<close>

definition sleep_until :: "instant \<Rightarrow> instant \<Rightarrow> instant" where
  "sleep_until deadline now = (if deadline > now then now + (deadline - now) else now)"

text \<open>\<open>ConnectionGuard::drop\<close>.\<close>

definition drop_guard :: "('d, 'v, 'a, 'j, 'w) net \<Rightarrow> ('d, 'v, 'a, 'j, 'w) net" where
  "drop_guard n = n\<lparr>active_connections := active_connections n - 1\<rparr>"

declare drop_guard_def [simp]

text \<open>After the loop: clean up, abort the writer, and drop the guard that holds the count.\<close>

definition end_socket ::
    "client_connection \<times> ('d, 'v, 'a, 'j, 'w) net \<Rightarrow> client_connection \<times> ('d, 'v, 'a, 'j, 'w) net" where
  "end_socket cn =
     (case cleanup cn of (c, n) \<Rightarrow>
        (c, drop_guard (n\<lparr>n_chans := (n_chans n)(out_tx c := (n_chans n (out_tx c))\<lparr>chan_closed := True\<rparr>)\<rparr>)))"

text \<open>One turn of the writer task: the message it hands to the socket. It stops, and the channel is
  closed, after a \<open>Close\<close> or a failed write.\<close>

definition writer_turn :: "bool \<Rightarrow> chan \<Rightarrow> out_msg option \<times> chan" where
  "writer_turn write_ok c =
     (case queue c of
        [] \<Rightarrow> (None, c)
      | Frame b # q \<Rightarrow> (Some (Frame b), c\<lparr>queue := q, chan_closed := chan_closed c \<or> \<not> write_ok\<rparr>)
      | Close ev # q \<Rightarrow> (Some (Close ev), c\<lparr>queue := q, chan_closed := True\<rparr>))"

section \<open>Listening\<close>

text \<open>\<open>Hocuspocus::listen\<close>. Parsing a socket address, binding (which yields the port of \<open>local_addr\<close>) and
  \<open>axum::serve\<close>, which returns when the server stops, are parameters.\<close>

record 'w listen_env =
  parse_addr :: "string \<Rightarrow> string + unit"
  bind_listener :: "string \<Rightarrow> 'w \<Rightarrow> (string + u16) \<times> 'w"
  serve_app :: "'w \<Rightarrow> (string + unit) \<times> 'w"

definition listen :: "'w listen_env \<Rightarrow> ('d, 'j, 'w) server \<Rightarrow> 'w \<Rightarrow> (string + unit) \<times> 'w" where
  "listen L S w =
     (let w = prepare S w;
          addr = address (config S) @ '':'' @ show_nat (unat (port (config S)))
      in case parse_addr L addr of
           Inl e \<Rightarrow> (Inl e, w)
         | Inr _ \<Rightarrow>
             (case bind_listener L addr w of
                (Inl e, w) \<Rightarrow> (Inl e, w)
              | (Inr bound, w) \<Rightarrow>
                  let w = run_all (map (\<lambda>e. on_listen e bound) (extensions S)) w
                  in case serve_app L w of
                       (Inl e, w) \<Rightarrow> (Inl e, w)
                     | (Inr _, w) \<Rightarrow> (Inr (), run_all (map on_destroy (extensions S)) w)))"

end
