(* ===== verification/Redis.thy ===== *)
theory Redis
  imports Durability Server
begin

text \<open>
  The Redis scaling extension (\<open>extensions/redis.rs\<close>): the envelope of published messages, the
  subscriber that routes them to resident documents, the reply publisher, the replication hooks and
  the store lock. Redis itself, random identifiers and the extension's own lock table are fields of
  the record \<open>redis\<close>; publishing is fire and forget, so it returns nothing.
\<close>

section \<open>Configuration and envelope\<close>

record redis_config =
  rc_url :: string
  rc_identifier :: string
  rc_prefix :: string
  rc_lock_timeout_ms :: u64

definition redis_config_new :: "string \<Rightarrow> string \<Rightarrow> redis_config" where
  "redis_config_new uuid url =
     \<lparr>rc_url = url, rc_identifier = ''host-'' @ uuid, rc_prefix = ''hocuspocus'', rc_lock_timeout_ms = 1000\<rparr>"

definition config_identifier :: "string \<Rightarrow> redis_config \<Rightarrow> redis_config" where
  "config_identifier i c = c\<lparr>rc_identifier := i\<rparr>"

definition config_prefix :: "string \<Rightarrow> redis_config \<Rightarrow> redis_config" where
  "config_prefix p c = c\<lparr>rc_prefix := p\<rparr>"

text \<open>\<open>identifier.len() as u8\<close> keeps the low eight bits.\<close>

definition message_prefix :: "string \<Rightarrow> bytes" where
  "message_prefix identifier = word_of_nat (length identifier) # as_bytes identifier"

text \<open>What the code uses of Redis and of the extension's state: publish, \<open>SET NX PX\<close> (true if the lock
  was acquired, also false on any error), the compare-and-delete script, a fresh token, and the table
  of held locks.\<close>

record 'w redis =
  r_publish :: "string \<Rightarrow> bytes \<Rightarrow> 'w \<Rightarrow> 'w"
  r_set_nx_px :: "string \<Rightarrow> string \<Rightarrow> u64 \<Rightarrow> 'w \<Rightarrow> bool \<times> 'w"
  r_delete_if :: "string \<Rightarrow> string \<Rightarrow> 'w \<Rightarrow> 'w"
  r_new_token :: "'w \<Rightarrow> string \<times> 'w"
  r_locks :: "'w \<Rightarrow> (string \<rightharpoonup> string)"
  r_put_locks :: "(string \<rightharpoonup> string) \<Rightarrow> 'w \<Rightarrow> 'w"

definition redis_channel :: "redis_config \<Rightarrow> string \<Rightarrow> string" where
  "redis_channel cfg nm = rc_prefix cfg @ '':'' @ nm"

definition lock_key :: "redis_config \<Rightarrow> string \<Rightarrow> string" where
  "lock_key cfg nm = rc_prefix cfg @ '':'' @ nm @ '':lock''"

definition publish :: "'w redis \<Rightarrow> redis_config \<Rightarrow> string \<Rightarrow> bytes \<Rightarrow> 'w \<Rightarrow> 'w" where
  "publish R cfg nm frame w =
     r_publish R (redis_channel cfg nm) (message_prefix (rc_identifier cfg) @ frame) w"

section \<open>The subscriber\<close>

text \<open>One message of the subscription: the document it is for and the frame, unless it is skipped.\<close>

definition receive_message :: "codec \<Rightarrow> bytes \<Rightarrow> bytes \<Rightarrow> (string \<times> bytes) option" where
  "receive_message C prefix_bytes payload =
     (case payload of
        [] \<Rightarrow> None
      | b # body \<Rightarrow>
          let id_len = unat b
          in if length payload < 1 + id_len then None
             else if take id_len body = tl prefix_bytes then None
             else
               let frame = drop id_len body
               in case parse C frame of
                    Inl _ \<Rightarrow> None
                  | Inr parsed \<Rightarrow> Some (fst (parse_routing_key (routing_key parsed)), frame))"

definition subscriber_turn ::
    "codec \<Rightarrow> string \<Rightarrow> bytes \<Rightarrow> ('d, 'v, 'a, 'j, 'w) net \<Rightarrow> ('d, 'v, 'a, 'j, 'w) net" where
  "subscriber_turn C identifier payload n =
     (case receive_message C (message_prefix identifier) payload of
        None \<Rightarrow> n
      | Some (nm, frame) \<Rightarrow>
          (case documents n nm of
             None \<Rightarrow> n
           | Some h \<Rightarrow> snd (send_command h (ExternalFrame frame True) n)))"

text \<open>One reply of an actor: the channel and the payload it is published with.\<close>

definition reply_message :: "codec \<Rightarrow> redis_config \<Rightarrow> bytes \<Rightarrow> (string \<times> bytes) option" where
  "reply_message C cfg frame =
     (case parse C frame of
        Inl _ \<Rightarrow> None
      | Inr parsed \<Rightarrow>
          Some (rc_prefix cfg @ '':'' @ fst (parse_routing_key (routing_key parsed)),
                message_prefix (rc_identifier cfg) @ frame))"

text \<open>The reply publisher: it needs a connection of its own and then publishes what the actors send.\<close>

definition reply_publisher :: "codec \<Rightarrow> 'w redis \<Rightarrow> redis_config \<Rightarrow> bool \<Rightarrow> bytes list \<Rightarrow> 'w \<Rightarrow> 'w" where
  "reply_publisher C R cfg connected frames w =
     (if \<not> connected then w
      else fold (\<lambda>frame w. case reply_message C cfg frame of
                             None \<Rightarrow> w
                           | Some (ch, payload) \<Rightarrow> r_publish R ch payload w) frames w)"

text \<open>The subscriber task: it gives up if it cannot connect or subscribe, and then handles the messages of
  its channels one by one.\<close>

definition spawn_subscriber ::
    "codec \<Rightarrow> redis_config \<Rightarrow> bool \<Rightarrow> bool \<Rightarrow> bytes list \<Rightarrow> ('d, 'v, 'a, 'j, 'w) net \<Rightarrow> ('d, 'v, 'a, 'j, 'w) net" where
  "spawn_subscriber C cfg connected subscribed payloads n =
     (if \<not> connected then n
      else if \<not> subscribed then n
      else fold (subscriber_turn C (rc_identifier cfg)) payloads n)"

section \<open>The hooks\<close>

definition encode_sync_frame :: "('d, 'v, 'u, 'a, 'p) yrs \<Rightarrow> string \<Rightarrow> 'v sync_message \<Rightarrow> bytes" where
  "encode_sync_frame Y nm msg = enc_string (wire Y) nm @ enc_var (wire Y) 0 @ sync_encode Y msg"

definition redis_after_load ::
    "('d, 'v, 'u, 'a, 'p) yrs \<Rightarrow> 'w redis \<Rightarrow> redis_config \<Rightarrow> document_payload \<Rightarrow> 'd \<times> 'w \<Rightarrow> hook_result \<times> 'd \<times> 'w" where
  "redis_after_load Y R cfg p dw =
     (case dw of (doc, w) \<Rightarrow>
        let nm = dp_document_name p;
            w = publish R cfg nm (encode_sync_frame Y nm (SyncStep1 (state_vector Y doc))) w;
            w = publish R cfg nm (enc_string (wire Y) nm @ enc_var (wire Y) 3) w
        in (Inr (), doc, w))"

definition redis_on_change ::
    "('d, 'v, 'u, 'a, 'p) yrs \<Rightarrow> 'w redis \<Rightarrow> redis_config \<Rightarrow> change_payload \<Rightarrow> 'w \<Rightarrow> hook_result \<times> 'w" where
  "redis_on_change Y R cfg p w =
     (if is_redis (chp_origin p) then (Inr (), w)
      else (Inr (), publish R cfg (chp_document_name p)
              (encode_sync_frame Y (chp_document_name p) (Update (chp_update p))) w))"

definition redis_on_awareness_update ::
    "('d, 'v, 'u, 'a, 'p) yrs \<Rightarrow> 'w redis \<Rightarrow> redis_config \<Rightarrow> awareness_payload \<Rightarrow> 'w \<Rightarrow> hook_result \<times> 'w" where
  "redis_on_awareness_update Y R cfg p w =
     (if is_redis (awp_origin p) then (Inr (), w)
      else (Inr (), publish R cfg (awp_document_name p)
              (enc_string (wire Y) (awp_document_name p) @ enc_var (wire Y) 1 @ enc_buf (wire Y) (awp_update p)) w))"

definition redis_before_broadcast_stateless ::
    "('d, 'v, 'u, 'a, 'p) yrs \<Rightarrow> 'w redis \<Rightarrow> redis_config \<Rightarrow> string \<Rightarrow> string \<Rightarrow> 'w \<Rightarrow> hook_result \<times> 'w" where
  "redis_before_broadcast_stateless Y R cfg nm payload w =
     (Inr (), publish R cfg nm (enc_string (wire Y) nm @ enc_var (wire Y) 6 @ enc_string (wire Y) payload) w)"

definition redis_on_store ::
    "'w redis \<Rightarrow> redis_config \<Rightarrow> bytes \<Rightarrow> document_payload \<Rightarrow> 'w \<Rightarrow> hook_result \<times> 'w" where
  "redis_on_store R cfg state p w =
     (let key = lock_key cfg (dp_document_name p);
          (token, w) = r_new_token R w;
          (acquired, w) = r_set_nx_px R key token (rc_lock_timeout_ms cfg) w
      in if acquired then (Inr (), r_put_locks R ((r_locks R w)(key \<mapsto> token)) w)
         else (Inl (hook_error_new ''another node holds the document lock''), w))"

definition redis_after_store ::
    "'w redis \<Rightarrow> redis_config \<Rightarrow> document_payload \<Rightarrow> 'w \<Rightarrow> hook_result \<times> 'w" where
  "redis_after_store R cfg p w =
     (let key = lock_key cfg (dp_document_name p)
      in case r_locks R w key of
           None \<Rightarrow> (Inr (), w)
         | Some token \<Rightarrow>
             (Inr (), r_delete_if R key token (r_put_locks R ((r_locks R w)(key := None)) w)))"

definition redis_extension ::
    "('d, 'v, 'u, 'a, 'p) yrs \<Rightarrow> 'w redis \<Rightarrow> redis_config \<Rightarrow> ('d, 'j, 'w) extension" where
  "redis_extension Y R cfg =
     default_extension\<lparr>priority := 1000, ext_name := ''redis'',
       after_load_document := redis_after_load Y R cfg,
       on_change := redis_on_change Y R cfg,
       on_store_document := redis_on_store R cfg,
       after_store_document := redis_after_store R cfg,
       on_awareness_update := redis_on_awareness_update Y R cfg,
       before_broadcast_stateless := redis_before_broadcast_stateless Y R cfg\<rparr>"

text \<open>\<open>RedisScaling::connect\<close>: the client and the publishing connection have to be made; no lock is held.\<close>

definition redis_connect ::
    "(string \<Rightarrow> string + unit) \<Rightarrow> ('w \<Rightarrow> (string + unit) \<times> 'w) \<Rightarrow> ('d, 'v, 'u, 'a, 'p) yrs \<Rightarrow> 'w redis \<Rightarrow> redis_config \<Rightarrow>
       'w \<Rightarrow> (string + ('d, 'j, 'w) extension) \<times> 'w" where
  "redis_connect open_client get_connection Y R cfg w =
     (case open_client (rc_url cfg) of
        Inl e \<Rightarrow> (Inl e, w)
      | Inr _ \<Rightarrow>
          (case get_connection w of
             (Inl e, w) \<Rightarrow> (Inl e, w)
           | (Inr _, w) \<Rightarrow> (Inr (redis_extension Y R cfg), r_put_locks R Map.empty w)))"

section \<open>The envelope\<close>

lemma message_prefix_short: "length i < 256 \<Longrightarrow> unat (hd (message_prefix i)) = length i"
  by (simp add: message_prefix_def unat_of_nat)

lemma as_bytes_inject [simp]: "as_bytes s = as_bytes t \<longleftrightarrow> s = t"
  by (metis of_bytes_as_bytes)

text \<open>Nodes hear each other and not themselves. For identifiers of at most 255 bytes: a message a
  node published is skipped by that node, and every other node takes exactly the published frame out of
  it, for the document the frame names.\<close>

theorem envelope_roundtrip:
  assumes "length i < 256" and "length j < 256"
  shows "receive_message C (message_prefix j) (message_prefix i @ frame) =
    (if i = j then None
     else case parse C frame of
            Inl _ \<Rightarrow> None
          | Inr f \<Rightarrow> Some (fst (parse_routing_key (routing_key f)), frame))"
  using assms by (simp add: receive_message_def message_prefix_def Let_def unat_of_nat)

theorem envelope_roundtrip_witness:
  "receive_message lib0 (message_prefix ''b'') (message_prefix ''a'' @ enc_string lib0 ''doc'' @ enc_var lib0 3) =
     Some (''doc'', enc_string lib0 ''doc'' @ enc_var lib0 3)"
proof -
  have "parse lib0 (enc_string lib0 ''doc'' @ enc_var lib0 3 @ []) =
      Inr \<lparr>routing_key = ''doc'', message_type = QueryAwareness, decoder = []\<rparr>"
    by (rule l0.parse_frame) (simp_all add: from_u64_def)
  then show ?thesis
    using envelope_roundtrip [of "''a''" "''b''" lib0 "enc_string lib0 ''doc'' @ enc_var lib0 3"]
    by (simp add: parse_routing_key_def nul_def)
qed

section \<open>Replication\<close>

lemma redis_hooks:
  "on_change (redis_extension Y R cfg) = redis_on_change Y R cfg"
  "on_awareness_update (redis_extension Y R cfg) = redis_on_awareness_update Y R cfg"
  "on_store_document (redis_extension Y R cfg) = redis_on_store R cfg"
  "after_store_document (redis_extension Y R cfg) = redis_after_store R cfg"
  "priority (redis_extension Y R cfg) = 1000"
  by (simp_all add: redis_extension_def default_extension_def)

lemma track_clients_world [simp]: "world (track_clients og ids s) = world s"
  by (simp add: track_clients_def split: origin.split option.split)

text \<open>The two kinds of frames that ask for an answer.\<close>

definition asks :: "('d, 'v, 'u, 'a, 'p) yrs \<Rightarrow> bytes \<Rightarrow> bool" where
  "asks Y data \<longleftrightarrow>
     (case parse (wire Y) data of
        Inl _ \<Rightarrow> False
      | Inr frame \<Rightarrow> message_type frame = QueryAwareness \<or>
          message_type frame \<in> {Sync, SyncReply} \<and> (\<exists>sv. sync_decode Y (decoder frame) = Some (SyncStep1 sv)))"

lemma apply_replies: "replies (apply_and_broadcast Y S u og s) = replies s"
  by (simp add: apply_and_broadcast_def mark_dirty_def Let_def split: option.split prod.split bool.split)

lemma broadcast_replies: "replies (broadcast_with Y mk s) = replies s"
  using broadcast_with_shape [of Y mk s] by auto

lemma awareness_replies: "replies (handle_awareness Y S f og s) = replies s"
  by (simp add: handle_awareness_def track_clients_def broadcast_awareness_def broadcast_replies Let_def
      split: option.split prod.split bool.split sum.split origin.split)

text \<open>C28: Replication does not echo. What a node applies because a peer published it, documents and
  awareness alike, is not published again: on a server whose extension is the Redis one, handling a
  peer's frame leaves the hook state as it was, so no hook publishes anything. The only thing handed to the reply
  publisher is an answer, at most one per frame, and only to a frame that asks for the document's state or for
  the awareness states.\<close>

theorem replication_does_not_echo:
  assumes "extensions S = [redis_extension Y R cfg]"
  shows "world (handle_external_frame Y S data reply s) = world s \<and>
    (replies (handle_external_frame Y S data reply s) = replies s \<or>
     reply \<and> asks Y data \<and> (\<exists>f. replies (handle_external_frame Y S data reply s) = replies s @ [f]))"
proof
  have app: "world (apply_and_broadcast Y S u Redis t) = world t" for u t
    using assms by (simp add: apply_and_broadcast_def mark_dirty_def redis_hooks redis_on_change_def Let_def
        split: option.split prod.split bool.split)
  have aw: "world (handle_awareness Y S f Redis t) = world t" for f t
    using assms by (simp add: handle_awareness_def redis_hooks redis_on_awareness_update_def broadcast_awareness_def Let_def
        split: option.split prod.split bool.split sum.split)
  show "world (handle_external_frame Y S data reply s) = world s"
    by (simp add: handle_external_frame_def handle_external_sync_def broadcast_stateless_def app aw Let_def
        split: option.split sum.split message_type.split sync_message.split prod.split)
  show "replies (handle_external_frame Y S data reply s) = replies s \<or>
     reply \<and> asks Y data \<and> (\<exists>f. replies (handle_external_frame Y S data reply s) = replies s @ [f])"
    by (simp add: handle_external_frame_def handle_external_sync_def broadcast_stateless_def asks_def apply_replies
        awareness_replies broadcast_replies Let_def
        split: option.split sum.split message_type.split sync_message.split prod.split)
qed

context yjs
begin

lemma parse_sync_frame:
  assumes "length nm < max_len"
  shows "parse (wire Y) (encode_sync_frame Y nm m) = Inr \<lparr>routing_key = nm, message_type = Sync, decoder = sync_encode Y m\<rparr>"
  using parse_frame [OF assms from_u64_type_code, of Sync "sync_encode Y m"] by (simp add: encode_sync_frame_def)

lemma parse_sync_reply:
  assumes "length nm < max_len"
  shows "parse (wire Y) (into_bytes (write_sync_payload (encode_sync Y m) (out_sync_reply (wire Y) (out_new (wire Y) nm)))) =
    Inr \<lparr>routing_key = nm, message_type = SyncReply, decoder = sync_encode Y m\<rparr>"
  using parse_frame [OF assms from_u64_type_code, of SyncReply "sync_encode Y m"] by (simp add: out_defs encode_sync_def)

lemma external_update:
  assumes "length nm < max_len" and "length u < max_len"
  shows "handle_external_frame Y S (encode_sync_frame Y nm (Update u)) reply s = apply_and_broadcast Y S u Redis s"
  using sync_roundtrip [of "Update u"] assms(2)
  by (simp add: handle_external_frame_def parse_sync_frame [OF assms(1)] handle_external_sync_def)

lemma apply_brings_up_to_date:
  assumes "leq b (ydoc s)"
  shows "leq d (ydoc (apply_and_broadcast Y S (encode_diff_v1 Y d (state_vector Y b)) og s))"
proof (cases rule: apply_and_broadcast_cases [of Y "encode_diff_v1 Y d (state_vector Y b)" S og s])
  case undecoded
  then show ?thesis using diff_applies [OF assms, of d] by auto
next
  case (unbooked up e)
  then show ?thesis using diff_brings_up_to_date [OF assms] by simp
next
  case (booked up e w)
  then show ?thesis using diff_brings_up_to_date [OF assms, of d up] by (simp add: mark_dirty_def)
qed

end

section \<open>The store lock\<close>

lemma highest_is_first:
  assumes "sb_extensions b = xs @ r # ys" and "\<forall>e \<in> set (xs @ ys). priority e < priority r"
  shows "\<exists>es. extensions (build b) = r # es"
proof -
  let ?es = "sort_key (\<lambda>e. - priority e) (sb_extensions b)"
  have set: "set ?es = insert r (set (xs @ ys))" using assms(1) by simp
  then obtain e es where es: "?es = e # es" by (cases ?es) auto
  have "sorted (map (\<lambda>e. - priority e) ?es)" by simp
  moreover have "r \<in> set ?es" using set by simp
  ultimately have "priority r \<le> priority e" unfolding es by auto
  moreover have "e \<in> set ?es" by (simp add: es)
  ultimately have "e = r" using set assms(2) by (metis insertE linorder_not_le)
  then show ?thesis using es by (simp add: build_def)
qed

text \<open>C29: The lock guards the store. On a server built with the Redis extension, in whatever order the
  extensions were registered, if no other extension has a priority of 1000 or more: when the lock is
  not acquired, no other store hook runs, nothing runs after it, and the store counts as failed.\<close>

theorem lock_guards_store:
  assumes "sb_extensions b = xs @ redis_extension Y R cfg # ys" and "\<forall>e \<in> set (xs @ ys). priority e < 1000"
    and "r_new_token R w = (token, w1)"
    and "r_set_nx_px R (lock_key cfg (dp_document_name p)) token (rc_lock_timeout_ms cfg) w1 = (False, w2)"
  shows "store_hooks (build b) state p w = (False, w2)"
proof -
  obtain es where "extensions (build b) = redis_extension Y R cfg # es"
    using highest_is_first [OF assms(1)] assms(2) by (auto simp: redis_hooks)
  then show ?thesis
    using assms(3,4) by (simp add: store_hooks_def redis_hooks redis_on_store_def)
qed

text \<open>The lock survives a store that fails after it. When the lock was acquired but a later store hook
  fails, the after-store hook that would release the lock does not run; as long as Redis keeps the
  key, the node's own next attempt is refused by its own lock. \<open>locked\<close> says that the key exists.\<close>

theorem failed_store_keeps_lock:
  assumes "extensions S = redis_extension Y R cfg # es"
    and "r_new_token R w = (token, w1)"
    and "r_set_nx_px R (lock_key cfg (dp_document_name p)) token (rc_lock_timeout_ms cfg) w1 = (True, w2)"
    and "run_until_err (map (\<lambda>e. on_store_document e state p) es)
           (r_put_locks R ((r_locks R w2)(lock_key cfg (dp_document_name p) \<mapsto> token)) w2) = (Inl err, w3)"
    and "locked w3" and "\<forall>w. locked w \<longrightarrow> locked (snd (r_new_token R w))"
    and "\<forall>t w. locked w \<longrightarrow> \<not> fst (r_set_nx_px R (lock_key cfg (dp_document_name p)) t (rc_lock_timeout_ms cfg) w)"
  shows "store_hooks S state p w = (False, w3) \<and> fst (store_hooks S state' p w3) = False"
proof -
  obtain t w4 where t: "r_new_token R w3 = (t, w4)" by fastforce
  have "locked w4" using assms(5,6) t by (metis snd_conv)
  then obtain w5 where "r_set_nx_px R (lock_key cfg (dp_document_name p)) t (rc_lock_timeout_ms cfg) w4 = (False, w5)"
    using assms(7) by (metis prod.collapse)
  then show ?thesis
    using assms(1-4) t by (simp add: store_hooks_def redis_hooks redis_on_store_def)
qed

section \<open>Witnesses\<close>

text \<open>A Redis that is a key-value map without expiry, with the messages published so far.\<close>

record redis_world =
  keys :: "string \<rightharpoonup> string"
  published :: "(string \<times> bytes) list"
  tokens :: nat
  own_locks :: "string \<rightharpoonup> string"

definition map_redis :: "redis_world redis" where
  "map_redis = \<lparr>r_publish = (\<lambda>ch m w. w\<lparr>published := published w @ [(ch, m)]\<rparr>),
     r_set_nx_px = (\<lambda>k t _ w. if keys w k = None then (True, w\<lparr>keys := (keys w)(k \<mapsto> t)\<rparr>) else (False, w)),
     r_delete_if = (\<lambda>k t w. if keys w k = Some t then w\<lparr>keys := (keys w)(k := None)\<rparr> else w),
     r_new_token = (\<lambda>w. (''token'', w\<lparr>tokens := Suc (tokens w)\<rparr>)),
     r_locks = own_locks, r_put_locks = (\<lambda>m w. w\<lparr>own_locks := m\<rparr>)\<rparr>"

definition demo_redis_config :: redis_config where
  "demo_redis_config = config_identifier ''a'' (redis_config_new ''1'' ''redis://localhost'')"

definition redis_server :: "(bytes, string, redis_world) server" where
  "redis_server = \<lparr>config = default_configuration, extensions = [redis_extension opset map_redis demo_redis_config]\<rparr>"

definition redis_doc :: "bytes \<Rightarrow> (bytes, bytes, u64 list, string, redis_world) document" where
  "redis_doc d = \<lparr>doc_name = ''doc'', ydoc = d, awareness = [], connections = [], rx = [],
      dirty = False, first_dirty_at = None, last_change_at = None, last_origin = Local,
      storing = False, store_results = [], broadcast_base = None, broadcast_pending = False,
      clock = 0, chans = (\<lambda>_. \<lparr>cap = 8, queue = [], chan_closed = False\<rparr>),
      world = \<lparr>keys = Map.empty, published = [], tokens = 0, own_locks = Map.empty\<rparr>, registry = Map.empty,
      store_tasks = [], acks = [], replies = []\<rparr>"

theorem replication_does_not_echo_witness:
  "published (world (handle_external_frame opset redis_server (encode_sync_frame opset ''doc'' (Update [9])) True (redis_doc [1]))) = [] \<and>
   replies (handle_external_frame opset redis_server (encode_sync_frame opset ''doc'' (Update [9])) True (redis_doc [1])) = []"
proof -
  have "parse (wire opset) (encode_sync_frame opset ''doc'' (Update [9])) =
      Inr \<lparr>routing_key = ''doc'', message_type = Sync, decoder = sync_encode opset (Update [9])\<rparr>"
    by (rule ops.parse_sync_frame) simp
  moreover have "sync_decode opset (sync_encode opset (Update [9])) = Some (Update [9])"
    by (rule ops.sync_roundtrip) simp
  ultimately have "\<not> asks opset (encode_sync_frame opset ''doc'' (Update [9]))" by (simp add: asks_def)
  then show ?thesis
    using replication_does_not_echo [of redis_server opset map_redis demo_redis_config
        "encode_sync_frame opset ''doc'' (Update [9])" True "redis_doc [1]"]
    by (simp add: redis_server_def redis_doc_def)
qed

definition redis_builder :: "(bytes, string, redis_world) server_builder" where
  "redis_builder = builder_extension (redis_extension opset map_redis demo_redis_config) builder_new"

theorem lock_guards_store_witness:
  "fst (store_hooks (build redis_builder) [7]
      \<lparr>dp_document_name = ''doc'', dp_clients_count = 0\<rparr>
      \<lparr>keys = [lock_key demo_redis_config ''doc'' \<mapsto> ''other''], published = [], tokens = 0, own_locks = Map.empty\<rparr>) = False"
  using lock_guards_store [of redis_builder "[]"
      opset map_redis demo_redis_config "[]"
      "\<lparr>keys = [lock_key demo_redis_config ''doc'' \<mapsto> ''other''], published = [], tokens = 0, own_locks = Map.empty\<rparr>" "''token''"
      "\<lparr>keys = [lock_key demo_redis_config ''doc'' \<mapsto> ''other''], published = [], tokens = 1, own_locks = Map.empty\<rparr>"
      "\<lparr>dp_document_name = ''doc'', dp_clients_count = 0\<rparr>"
      "\<lparr>keys = [lock_key demo_redis_config ''doc'' \<mapsto> ''other''], published = [], tokens = 1, own_locks = Map.empty\<rparr>" "[7]"]
  by (simp add: redis_builder_def builder_extension_def builder_new_def map_redis_def)

definition failing_store :: "(bytes, string, redis_world) extension" where
  "failing_store = default_extension\<lparr>on_store_document := (\<lambda>_ _ w. (Inl (hook_error_new ''down''), w))\<rparr>"

theorem failed_store_keeps_lock_witness:
  "\<exists>w3. store_hooks (redis_server\<lparr>extensions := [redis_extension opset map_redis demo_redis_config, failing_store]\<rparr>) [7]
      \<lparr>dp_document_name = ''doc'', dp_clients_count = 0\<rparr> (world (redis_doc [])) = (False, w3) \<and>
    fst (store_hooks (redis_server\<lparr>extensions := [redis_extension opset map_redis demo_redis_config, failing_store]\<rparr>) [7]
      \<lparr>dp_document_name = ''doc'', dp_clients_count = 0\<rparr> w3) = False"
proof -
  let ?k = "lock_key demo_redis_config ''doc''"
  let ?w1 = "\<lparr>keys = Map.empty, published = [], tokens = 1, own_locks = Map.empty\<rparr>"
  let ?w2 = "\<lparr>keys = [?k \<mapsto> ''token''], published = [], tokens = 1, own_locks = Map.empty\<rparr>"
  let ?w3 = "\<lparr>keys = [?k \<mapsto> ''token''], published = [], tokens = 1, own_locks = [?k \<mapsto> ''token'']\<rparr>"
  show ?thesis
    using failed_store_keeps_lock [of "redis_server\<lparr>extensions := [redis_extension opset map_redis demo_redis_config, failing_store]\<rparr>"
        opset map_redis demo_redis_config "[failing_store]" "world (redis_doc [])" "''token''" ?w1
        "\<lparr>dp_document_name = ''doc'', dp_clients_count = 0\<rparr>" ?w2 "[7]" "hook_error_new ''down''" ?w3 "\<lambda>w. keys w ?k \<noteq> None" "[7]"]
    by (simp add: redis_doc_def map_redis_def failing_store_def)
qed

end
