(* ===== verification/Throttle.thy ===== *)
theory Throttle
  imports Extension
begin

text \<open>
  The throttle extension (\<open>extensions/throttle.rs\<close>): a sliding window of connection attempts per
  client address, and a ban once the window holds too many. The two hash maps are only looked up by
  key, hence maps. The clock reading \<open>Instant::now()\<close> is an argument.
\<close>

record throttle_inner =
  connection_times :: "string \<rightharpoonup> instant list"
  banned :: "string \<rightharpoonup> instant"

record throttle =
  limit :: nat
  considered :: duration
  ban_time :: duration

definition throttle_new :: "nat \<Rightarrow> duration \<Rightarrow> duration \<Rightarrow> throttle" where
  "throttle_new n window ban = \<lparr>limit = n, considered = window, ban_time = ban\<rparr>"

definition inner_new :: throttle_inner where
  "inner_new = \<lparr>connection_times = Map.empty, banned = Map.empty\<rparr>"

definition with_defaults :: throttle where
  "with_defaults = throttle_new 15 (from_secs 60) (from_secs (5 * 60))"

text \<open>What \<open>should_block\<close> does once it knows that the address is not banned.\<close>

definition record_attempt :: "throttle \<Rightarrow> instant \<Rightarrow> string \<Rightarrow> throttle_inner \<Rightarrow> bool \<times> throttle_inner" where
  "record_attempt T now ip inner =
     (let window = considered T;
          entry = (case connection_times inner ip of None \<Rightarrow> [] | Some ts \<Rightarrow> ts);
          entry = entry @ [now];
          entry = filter (\<lambda>t. now - t < window) entry;
          inner = inner\<lparr>connection_times := (connection_times inner)(ip \<mapsto> entry)\<rparr>
      in if length entry > limit T
         then (True, inner\<lparr>banned := (banned inner)(ip \<mapsto> now)\<rparr>)
         else (False, inner))"

definition should_block :: "throttle \<Rightarrow> instant \<Rightarrow> string \<Rightarrow> throttle_inner \<Rightarrow> bool \<times> throttle_inner" where
  "should_block T now ip inner =
     (case banned inner ip of
        Some banned_at \<Rightarrow>
          if now - banned_at < ban_time T then (True, inner)
          else record_attempt T now ip (inner\<lparr>banned := (banned inner)(ip := None)\<rparr>)
      | None \<Rightarrow> record_attempt T now ip inner)"

definition throttle_on_connect ::
    "throttle \<Rightarrow> instant \<Rightarrow> request_meta \<Rightarrow> throttle_inner \<Rightarrow> hook_result \<times> throttle_inner" where
  "throttle_on_connect T now req inner =
     (let ip = (case client_ip req of None \<Rightarrow> [] | Some ip \<Rightarrow> ip)
      in if ip \<noteq> [] then
           (case should_block T now ip inner of
              (True, inner') \<Rightarrow> (Inl forbidden, inner')
            | (False, inner') \<Rightarrow> (Inr (), inner'))
         else (Inr (), inner))"

text \<open>The extension as the server sees it. Its own state is reached in the hook state by a getter
  and a setter, its clock by a reader.\<close>

definition throttle_extension ::
    "throttle \<Rightarrow> ('w \<Rightarrow> instant) \<Rightarrow> ('w \<Rightarrow> throttle_inner) \<Rightarrow> (throttle_inner \<Rightarrow> 'w \<Rightarrow> 'w) \<Rightarrow>
       ('d, 'j, 'w) extension" where
  "throttle_extension T clock get put =
     default_extension
       \<lparr>ext_name := ''throttle'',
        on_connect := (\<lambda>p (cell, w).
          (case throttle_on_connect T (clock w) (cp_request p) (get w) of
             (r, inner) \<Rightarrow> (r, cell, put inner w)))\<rparr>"

section \<open>A run of the throttle\<close>

text \<open>The attempts that reach the throttle, one after the other, and the log of those it let pass.\<close>

type_synonym attempt = "instant \<times> string"

definition attempt_step ::
    "throttle \<Rightarrow> attempt \<Rightarrow> throttle_inner \<times> attempt list \<Rightarrow> throttle_inner \<times> attempt list" where
  "attempt_step T a st =
     (case should_block T (fst a) (snd a) (fst st) of
        (True, inner) \<Rightarrow> (inner, snd st)
      | (False, inner) \<Rightarrow> (inner, snd st @ [a]))"

definition throttle_run :: "throttle \<Rightarrow> attempt list \<Rightarrow> throttle_inner \<times> attempt list" where
  "throttle_run T atts = fold (attempt_step T) atts (inner_new, [])"

definition passed :: "throttle \<Rightarrow> attempt list \<Rightarrow> attempt list" where
  "passed T atts = snd (throttle_run T atts)"

definition times_of :: "throttle_inner \<Rightarrow> string \<Rightarrow> instant list" where
  "times_of inner ip = (case connection_times inner ip of None \<Rightarrow> [] | Some ts \<Rightarrow> ts)"

section \<open>Lemmas\<close>

lemma record_attempt_times:
  "times_of (snd (record_attempt T now ip inner)) i =
     (if i = ip then filter (\<lambda>t. now - t < considered T) (times_of inner ip @ [now]) else times_of inner i)"
  by (simp add: record_attempt_def times_of_def Let_def)

lemma record_attempt_result:
  "fst (record_attempt T now ip inner) \<longleftrightarrow>
     limit T < length (filter (\<lambda>t. now - t < considered T) (times_of inner ip @ [now]))"
  by (simp add: record_attempt_def times_of_def Let_def)

lemma times_of_unban [simp]: "times_of (inner\<lparr>banned := m\<rparr>) i = times_of inner i"
  by (simp add: times_of_def)

lemma should_block_cases:
  obtains (held) b where "banned inner ip = Some b" "now - b < ban_time T"
      "should_block T now ip inner = (True, inner)"
  | (judged) m where "should_block T now ip inner = record_attempt T now ip (inner\<lparr>banned := m\<rparr>)"
proof (cases "banned inner ip")
  case None
  then have "should_block T now ip inner = record_attempt T now ip (inner\<lparr>banned := banned inner\<rparr>)"
    by (simp add: should_block_def)
  then show ?thesis by (rule judged)
next
  case (Some b)
  then show ?thesis using held judged by (cases "now - b < ban_time T") (auto simp: should_block_def)
qed

text \<open>How many of the logged attempts of an address fall into a span of a given width.\<close>

definition span_count :: "duration \<Rightarrow> instant \<Rightarrow> string \<Rightarrow> attempt list \<Rightarrow> nat" where
  "span_count w start ip l = length (filter (\<lambda>a. snd a = ip \<and> start \<le> fst a \<and> fst a < start + w) l)"

text \<open>
  The invariant of a run. Attempts need not come in the order of their clock readings. Seen from any
  \<open>start\<close> from which no attempt so far is as far away as the window is wide, the record still has every
  attempt that has passed since.
\<close>

definition since :: "instant \<Rightarrow> string \<Rightarrow> attempt list \<Rightarrow> nat" where
  "since start ip l = length (filter (\<lambda>a. snd a = ip \<and> start \<le> fst a) l)"

definition window_inv :: "throttle \<Rightarrow> attempt list \<Rightarrow> throttle_inner \<times> attempt list \<Rightarrow> bool" where
  "window_inv T atts st \<longleftrightarrow>
     (\<forall>start ip. 0 < considered T \<and> (\<forall>a \<in> set atts. fst a < start + considered T) \<longrightarrow>
        since start ip (snd st) \<le> length (filter (\<lambda>t. start \<le> t) (times_of (fst st) ip)))"

lemma window_invD:
  assumes "window_inv T atts (inner, l)" and "0 < considered T" and "\<forall>a \<in> set atts. fst a < start + considered T"
  shows "since start ip l \<le> length (filter (\<lambda>t. start \<le> t) (times_of inner ip))"
  using assms by (simp add: window_inv_def)

lemma filter_window_keeps:
  assumes "(now :: nat) < start + w" and "0 < w"
  shows "filter (\<lambda>t. now - t < w \<and> start \<le> t) ts = filter (\<lambda>t. start \<le> t) ts"
  using assms by (auto intro!: filter_cong)

lemma attempt_step_inv:
  assumes "window_inv T atts st"
  shows "window_inv T (atts @ [(now, ip)]) (attempt_step T (now, ip) st)"
proof -
  obtain inner l where st: "st = (inner, l)" by (cases st)
  have old: "since start i l \<le> length (filter (\<lambda>t. start \<le> t) (times_of inner i))"
    if "0 < considered T" "\<forall>a \<in> set atts. fst a < start + considered T" for start i
    using window_invD assms that st by blast
  show ?thesis
  proof (cases rule: should_block_cases [of inner ip now T])
    case (held b)
    then show ?thesis using old by (simp add: st attempt_step_def window_inv_def)
  next
    case (judged m)
    then obtain blocked inner' where sb: "should_block T now ip inner = (blocked, inner')"
      and ts: "\<And>i. times_of inner' i = (if i = ip
        then filter (\<lambda>t. now - t < considered T) (times_of inner ip @ [now]) else times_of inner i)"
      using record_attempt_times [of T now ip "inner\<lparr>banned := m\<rparr>"] by (metis prod.collapse times_of_unban)
    have grow: "length (filter (\<lambda>t. start \<le> t) (times_of inner' i)) =
        length (filter (\<lambda>t. start \<le> t) (times_of inner i)) + (if i = ip \<and> start \<le> now then 1 else 0)"
      if "0 < considered T" "now < start + considered T" for start i
      using that by (auto simp: ts filter_window_keeps)
    show ?thesis
      using old by (auto simp: st attempt_step_def sb window_inv_def since_def grow split: bool.splits intro: le_SucI)
  qed
qed

lemma times_of_new [simp]: "times_of inner_new ip = []"
  by (simp add: times_of_def inner_new_def)

lemma throttle_run_snoc: "throttle_run T (atts @ [a]) = attempt_step T a (throttle_run T atts)"
  by (simp add: throttle_run_def)

lemma throttle_run_inv: "window_inv T atts (throttle_run T atts)"
proof (induction atts rule: rev_induct)
  case Nil
  then show ?case by (simp add: throttle_run_def window_inv_def since_def)
next
  case (snoc a atts)
  then show ?case using attempt_step_inv [of T atts _ "fst a" "snd a"] by (simp add: throttle_run_snoc)
qed

text \<open>An attempt that passes finds room for itself beside all that have passed since \<open>start\<close>.\<close>

lemma passed_step_window:
  assumes "window_inv T atts (inner, l)" and "\<forall>a \<in> set atts. fst a < start + considered T" and "now < start + considered T"
    and "0 < considered T" and "should_block T now ip inner = (False, inner')"
  shows "since start ip (l @ [(now, ip)]) \<le> limit T"
proof -
  from assms(5) obtain m where "record_attempt T now ip (inner\<lparr>banned := m\<rparr>) = (False, inner')"
    by (cases rule: should_block_cases [of inner ip now T]) auto
  then have "length (filter (\<lambda>t. now - t < considered T) (times_of inner ip @ [now])) \<le> limit T"
    using record_attempt_result [of T now ip "inner\<lparr>banned := m\<rparr>"] by (simp add: not_less)
  moreover have "length (filter (\<lambda>t. start \<le> t) (times_of inner ip @ [now])) \<le>
      length (filter (\<lambda>t. now - t < considered T) (times_of inner ip @ [now]))"
    using length_filter_le [of "\<lambda>t. start \<le> t" "filter (\<lambda>t. now - t < considered T) (times_of inner ip @ [now])"]
      filter_window_keeps [OF assms(3,4), of "times_of inner ip @ [now]"]
    by (simp only: filter_filter)
  moreover have "since start ip l \<le> length (filter (\<lambda>t. start \<le> t) (times_of inner ip))"
    by (rule window_invD [OF assms(1,4,2)])
  ultimately show ?thesis by (simp add: since_def split: if_splits)
qed

lemma span_le_since: "span_count w start ip l \<le> since start ip l"
proof -
  have "filter (\<lambda>a. snd a = ip \<and> start \<le> fst a \<and> fst a < start + w) l =
      filter (\<lambda>a. fst a < start + w) (filter (\<lambda>a. snd a = ip \<and> start \<le> fst a) l)"
    by (auto intro!: filter_cong)
  then show ?thesis by (simp only: span_count_def since_def length_filter_le)
qed

section \<open>Properties of the throttle\<close>

text \<open>C18: The sliding-window guarantee. \<open>should_block\<close> reads the clock before it takes the lock, so attempts may
  enter the lock out of the order of their readings. Let \<open>\<delta>\<close> bound how far: no attempt's reading is more
  than \<open>\<delta>\<close> behind that of one that entered before it. Then in any span of time that is \<open>\<delta>\<close> shorter than the
  considered window, the throttle lets at most \<open>limit\<close> attempts of one address pass. For attempts in the order of
  their readings \<open>\<delta>\<close> is zero and the span is the whole window.\<close>

theorem throttle_window_bound:
  assumes "sorted_wrt (\<lambda>a b. fst a \<le> fst b + \<delta>) atts"
  shows "span_count (considered T - \<delta>) start ip (passed T atts) \<le> limit T"
  using assms
proof (induction atts rule: rev_induct)
  case Nil
  then show ?case by (simp add: passed_def throttle_run_def span_count_def)
next
  case (snoc a atts)
  obtain inner l where run: "throttle_run T atts = (inner, l)" by (cases "throttle_run T atts")
  obtain now i where a: "a = (now, i)" by (cases a)
  have inv: "window_inv T atts (inner, l)" using throttle_run_inv [of T atts] by (simp add: run)
  have IH: "span_count (considered T - \<delta>) start ip l \<le> limit T"
    using snoc by (simp add: passed_def run sorted_wrt_append)
  have late: "\<forall>b \<in> set atts. fst b \<le> now + \<delta>" using snoc.prems a by (simp add: sorted_wrt_append)
  obtain blocked inner' where sb: "should_block T now i inner = (blocked, inner')" by fastforce
  show ?case
  proof (cases "\<not> blocked \<and> i = ip \<and> start \<le> now \<and> now < start + (considered T - \<delta>)")
    case True
    then have near: "now < start + considered T" "\<forall>b \<in> set atts. fst b < start + considered T" "0 < considered T"
      using late by fastforce+
    have "span_count (considered T - \<delta>) start ip (l @ [(now, ip)]) \<le> since start ip (l @ [(now, ip)])"
      by (rule span_le_since)
    also have "\<dots> \<le> limit T" by (rule passed_step_window [OF inv near(2,1,3)]) (use True sb in simp)
    finally show ?thesis using True sb a by (simp add: passed_def throttle_run_snoc run attempt_step_def)
  next
    case False
    then show ?thesis
      using IH sb a by (auto simp: passed_def throttle_run_snoc run attempt_step_def span_count_def split: bool.splits)
  qed
qed

text \<open>Four attempts of which the last enters the lock after one that read the clock later.\<close>

definition late_attempts :: "attempt list" where
  "late_attempts = [(0, ''ip''), (1, ''ip''), (6005, ''ip''), (5995, ''ip'')]"

theorem throttle_window_bound_witness:
  "span_count (6000 - 10) 0 ''ip'' (passed (throttle_new 2 6000 30000) late_attempts) \<le> 2"
  using throttle_window_bound [of 10 late_attempts "throttle_new 2 6000 30000" 0 "''ip''"]
  by (simp add: throttle_new_def late_attempts_def)

text \<open>The span cannot be longer: in a whole window these attempts pass three times, with a limit of two.\<close>

lemma late_entry_overruns_window:
  "span_count 6000 0 ''ip'' (passed (throttle_new 2 6000 30000) late_attempts) = 3"
  by (simp add: passed_def throttle_run_def late_attempts_def attempt_step_def should_block_def record_attempt_def
      throttle_new_def inner_new_def span_count_def Let_def)

text \<open>When an attempt is judged. A banned address is refused, without any change of state, for
  exactly \<open>ban_time\<close> after the ban. Any other attempt is refused if and only if it makes the window
  of recorded attempts exceed the limit, and then it starts a ban at this moment.\<close>

theorem should_block_decision:
  "should_block T now ip inner =
     (if \<exists>b. banned inner ip = Some b \<and> now - b < ban_time T then (True, inner)
      else (limit T < length (filter (\<lambda>t. now - t < considered T) (times_of inner ip @ [now])),
            \<lparr>connection_times = (connection_times inner)
               (ip \<mapsto> filter (\<lambda>t. now - t < considered T) (times_of inner ip @ [now])),
             banned = (banned inner)(ip := if limit T <
               length (filter (\<lambda>t. now - t < considered T) (times_of inner ip @ [now]))
               then Some now else None)\<rparr>))"
  by (cases "banned inner ip")
    (auto simp: should_block_def record_attempt_def times_of_def Let_def fun_upd_idem)

end
