(* ===== verification/Server_Props.thy ===== *)
theory Server_Props
  imports Server Document_Props
begin

text \<open>
  The properties of the connection layer: the queue of frames that wait for authentication stays
  within its configured limits, nothing a client sends reaches a document before it is authenticated,
  a rejected client is told so and closed, queued frames are delivered in order after the connection
  has been registered, and the socket's end reaches every document it joined.
\<close>

section \<open>A lookup that is not interrupted\<close>

lemma get_document_hit: "documents n nm = Some h \<Longrightarrow> get_document Y S nm n = (h, n)"
  by (simp add: get_document_def)

lemma get_document_miss:
  assumes "documents n nm = None"
  shows "get_document Y S nm n =
    (next_actor n, n\<lparr>actors := (actors n)(next_actor n \<mapsto> spawn Y S nm (n_chans n) (n_clock n) (documents n) (n_world n)),
       n_world := world (spawn Y S nm (n_chans n) (n_clock n) (documents n) (n_world n)),
       documents := (documents n)(nm \<mapsto> next_actor n), next_actor := Suc (next_actor n),
       n_creating := (n_creating n)(nm := None),
       next_lock := (if n_creating n nm = None then Suc (next_lock n) else next_lock n)\<rparr>)"
  using assms
  by (cases "n_creating n nm") (simp_all add: get_document_def lock_entry_def spawn_document_def Let_def)

section \<open>Association lists\<close>

lemma sum_update:
  fixes g :: "'b \<Rightarrow> nat"
  assumes "distinct (map fst al)"
  shows "sum_list (map (\<lambda>kv. g (snd kv)) (AList.update k v al)) + (case map_of al k of None \<Rightarrow> 0 | Some x \<Rightarrow> g x) =
    sum_list (map (\<lambda>kv. g (snd kv)) al) + g v"
  using assms by (induction al) (auto split: option.splits simp: map_of_eq_None_iff image_iff)

lemma length_update: "length (AList.update k v al) = length al + (if map_of al k = None then 1 else 0)"
  by (induction al) auto

lemma delete_fresh: "k \<notin> fst ` set al \<Longrightarrow> AList.delete k al = al"
  by (induction al) auto

lemma sum_delete:
  fixes g :: "'b \<Rightarrow> nat"
  assumes "distinct (map fst al)"
  shows "sum_list (map (\<lambda>kv. g (snd kv)) (AList.delete k al)) + (case map_of al k of None \<Rightarrow> 0 | Some x \<Rightarrow> g x) =
    sum_list (map (\<lambda>kv. g (snd kv)) al)"
  using assms by (induction al) (auto split: option.splits simp: delete_fresh)

section \<open>The limits on the waiting queue\<close>

definition queue_ok :: "configuration \<Rightarrow> client_connection \<Rightarrow> bool" where
  "queue_ok cfg c \<longleftrightarrow>
     distinct (map fst (pending c)) \<and>
     queued_messages c = sum_list (map (\<lambda>kv. length (snd kv)) (pending c)) \<and>
     queued_bytes c = sum_list (map (\<lambda>kv. sum_list (map length (snd kv))) (pending c)) \<and>
     length (pending c) \<le> max_pending_documents cfg \<and>
     queued_messages c \<le> max_unauthenticated_queue_messages cfg \<and>
     queued_bytes c \<le> max_unauthenticated_queue_size cfg"

lemma queue_ok_new: "queue_ok cfg (client_new sid ch req now)"
  by (simp add: queue_ok_def client_new_def)

lemma queue_ok_upd [simp]:
  "queue_ok cfg (c\<lparr>last_message_at := t\<rparr>) = queue_ok cfg c"
  "queue_ok cfg (c\<lparr>authenticated := b\<rparr>) = queue_ok cfg c"
  "queue_ok cfg (c\<lparr>establisheds := es\<rparr>) = queue_ok cfg c"
  by (simp_all add: queue_ok_def)

lemma queue_ok_enqueue:
  assumes "queue_ok (config S) c"
  shows "queue_ok (config S) (fst (enqueue S k data (c, n)))"
proof -
  let ?old = "case map_of (pending c) k of Some ms \<Rightarrow> ms | None \<Rightarrow> []"
  let ?p = "AList.update k (?old @ [data]) (pending c)"
  have d: "distinct (map fst (pending c))" using assms by (simp add: queue_ok_def)
  have "sum_list (map (\<lambda>kv. length (snd kv)) ?p) = queued_messages c + 1"
    using sum_update [OF d, of length k "?old @ [data]"] assms
    by (cases "map_of (pending c) k") (auto simp: queue_ok_def)
  moreover have "sum_list (map (\<lambda>kv. sum_list (map length (snd kv))) ?p) = queued_bytes c + length data"
    using sum_update [OF d, of "\<lambda>ms. sum_list (map length ms)" k "?old @ [data]"] assms
    by (cases "map_of (pending c) k") (auto simp: queue_ok_def)
  moreover have "distinct (map fst ?p)" by (rule distinct_update [OF d])
  ultimately show ?thesis
    using assms by (auto simp: enqueue_def Let_def queue_ok_def length_update)
qed

lemma drain_pending_client:
  "fst (drain_pending h cid msgs (c, n)) =
     c\<lparr>queued_messages := queued_messages c - length msgs, queued_bytes := queued_bytes c - sum_list (map length msgs)\<rparr>"
  by (induction msgs arbitrary: c n) (simp_all add: diff_diff_add)

text \<open>The ways accepting and authenticating a client can end.\<close>

lemma accept_client_elim:
  assumes "\<And>n'. P (c\<lparr>authenticated := True\<rparr>, terminate (c\<lparr>authenticated := True\<rparr>) RESET_CONNECTION n')"
    and "\<And>es n'. map_of (pending c) k = None \<Longrightarrow> P (c\<lparr>authenticated := True, establisheds := es\<rparr>, n')"
    and "\<And>h cid es msgs n'. map_of (pending c) k = Some msgs \<Longrightarrow>
      P (drain_pending h cid msgs (c\<lparr>authenticated := True, establisheds := es, pending := AList.delete k (pending c)\<rparr>, n'))"
  shows "P (accept_client Y S wait k cell pv (c, n))"
  unfolding accept_client_def Let_def by (simp add: assms split: prod.split option.split)

lemma authenticate_elim:
  assumes "P (c, n)"
    and "\<And>(e :: hook_error) w. P (c, deny Y c k (message e) (n\<lparr>n_world := w\<rparr>))"
    and "\<And>cell pv w. P (accept_client Y S wait k cell pv (c, n\<lparr>n_world := w\<rparr>))"
  shows "P (authenticate Y S wait k data (c, n))"
  unfolding authenticate_def Let_def by (simp add: assms split: prod.split option.split sum.split)

lemma handle_frame_elim:
  assumes "P (c\<lparr>last_message_at := n_clock n\<rparr>, n)"
    and "\<And>h cid. P (c\<lparr>last_message_at := n_clock n\<rparr>, snd (send_command h (ClientFrame cid data) n))"
    and "\<And>k. P (authenticate Y S wait k data (c\<lparr>last_message_at := n_clock n\<rparr>, n))"
    and "\<And>k. P (enqueue S k data (c\<lparr>last_message_at := n_clock n\<rparr>, n))"
  shows "P (handle_frame Y S wait data (c, n))"
  unfolding handle_frame_def Let_def by (simp add: assms split: prod.split option.split sum.split)

lemma queue_ok_drained:
  assumes "queue_ok cfg c" and "map_of (pending c) k = Some msgs"
  shows "queue_ok cfg (fst (drain_pending h cid msgs
    (c\<lparr>authenticated := b, establisheds := es, pending := AList.delete k (pending c)\<rparr>, n)))"
proof -
  have d: "distinct (map fst (pending c))" using assms by (simp add: queue_ok_def)
  show ?thesis
    using assms length_delete_le [of k "pending c"] sum_delete [OF d, of length k]
      sum_delete [OF d, of "\<lambda>ms. sum_list (map length ms)" k]
    by (auto simp: queue_ok_def distinct_delete drain_pending_client)
qed

lemma queue_ok_handle_frame:
  assumes "queue_ok (config S) c"
  shows "queue_ok (config S) (fst (handle_frame Y S wait data (c, n)))"
proof -
  let ?c = "c\<lparr>last_message_at := n_clock n\<rparr>"
  have ok: "queue_ok (config S) ?c" using assms by simp
  have acc: "queue_ok (config S) (fst (accept_client Y S wait k cell pv (?c, m)))" for k cell pv m
    by (rule accept_client_elim [where P = "\<lambda>r. queue_ok (config S) (fst r)"])
      (use ok queue_ok_drained [OF ok] in auto)
  have "queue_ok (config S) (fst (authenticate Y S wait k data (?c, n)))" for k
    by (rule authenticate_elim [where P = "\<lambda>r. queue_ok (config S) (fst r)"]) (use ok acc in auto)
  then show ?thesis
    by (intro handle_frame_elim [where P = "\<lambda>r. queue_ok (config S) (fst r)"]) (use ok queue_ok_enqueue [OF ok] in auto)
qed

text \<open>The frames of a socket, each handled in whatever state the server is in at that time.\<close>

fun frames_run ::
    "('d, 'v, 'u, 'a, 'p) yrs \<Rightarrow> ('d, 'j, 'w) server \<Rightarrow>
       (bytes \<times> ('d, 'v, 'a, 'j, 'w) wait \<times> ('d, 'v, 'a, 'j, 'w) net) list \<Rightarrow> client_connection \<Rightarrow> client_connection" where
  "frames_run Y S [] c = c"
| "frames_run Y S ((data, wait, n) # evs) c = frames_run Y S evs (fst (handle_frame Y S wait data (c, n)))"

text \<open>C12: What an unauthenticated client can make the server hold is bounded. Whatever frames a socket
  sends, and whatever else the server does in between, the counters equal the frames and bytes that
  really wait, and documents, frames and bytes waiting stay within the configured limits.\<close>

theorem waiting_queue_bounded:
  "queue_ok (config S) (frames_run Y S evs (client_new sid ch req now))"
proof -
  have "queue_ok (config S) c \<Longrightarrow> queue_ok (config S) (frames_run Y S evs c)" for c
    by (induction evs arbitrary: c) (auto simp: queue_ok_handle_frame)
  then show ?thesis by (simp add: queue_ok_new)
qed

section \<open>A small server for the witnesses\<close>

definition demo_net :: "(bytes, bytes, u64 list, string, unit) net" where
  "demo_net = \<lparr>n_clock = 5, n_chans = (\<lambda>_. demo_chan), n_world = (), documents = Map.empty, actors = Map.empty,
     next_actor = 0, next_ack = 0, next_conn_id = 1, next_socket_id = 1, active_connections = 1,
     n_creating = Map.empty, n_locked = {}, next_lock = 0, n_acks = {}, sockets = Map.empty, calls = Map.empty,
     upgrades = [], n_replies = []\<rparr>"

definition demo_client :: client_connection where
  "demo_client = (client_new ''ws-1'' 0 default_request_meta 3)\<lparr>pending := [(''doc'', [[5], [6]])],
     queued_messages := 2, queued_bytes := 2\<rparr>"

definition acked :: "(bytes, bytes, u64 list, string, unit) wait" where
  "acked ack n = (True, n)"

definition demo_cell :: "string conn_cell" where
  "demo_cell = \<lparr>cell_context = Map.empty, cell_config = default_connection_config\<rparr>"

lemmas demo_net_simps = demo_net_def demo_client_def acked_def demo_cell_def client_new_def

lemma spawn_rx [simp]: "rx (spawn Y S nm cs now reg w) = []"
  by (simp add: spawn_def Let_def case_prod_beta)

section \<open>Before authentication\<close>

lemma socket_send_frame [simp]:
  "actors (socket_send c m n) = actors n" "documents (socket_send c m n) = documents n"
  "n_world (socket_send c m n) = n_world n" "next_conn_id (socket_send c m n) = next_conn_id n"
  "n_clock (socket_send c m n) = n_clock n"
  by (simp_all add: socket_send_def)

lemma terminate_frame [simp]:
  "actors (terminate c e n) = actors n" "documents (terminate c e n) = documents n"
  "n_world (terminate c e n) = n_world n"
  by (simp_all add: terminate_def)

lemma deny_frame [simp]:
  "actors (deny Y c k r n) = actors n" "documents (deny Y c k r n) = documents n" "n_world (deny Y c k r n) = n_world n"
  by (simp_all add: deny_def Let_def)

lemma enqueue_frame [simp]:
  "actors (snd (enqueue S k data (c, n))) = actors n" "documents (snd (enqueue S k data (c, n))) = documents n"
  "n_world (snd (enqueue S k data (c, n))) = n_world n"
  by (simp_all add: enqueue_def Let_def)

text \<open>C14: No document is touched for a client that is not authenticated. A frame that is not an
  authentication frame, for a routing key on which the socket has not been accepted, changes no actor,
  loads no document and runs no hook: it is queued, or the socket is closed because a limit is
  reached.\<close>

theorem unauthenticated_frame_reaches_nothing:
  assumes "parse (wire Y) data = Inr f" and "message_type f \<noteq> Auth"
    and "map_of (establisheds c) (routing_key f) = None"
  shows "actors (snd (handle_frame Y S wait data (c, n))) = actors n \<and>
    documents (snd (handle_frame Y S wait data (c, n))) = documents n \<and>
    n_world (snd (handle_frame Y S wait data (c, n))) = n_world n \<and>
    establisheds (fst (handle_frame Y S wait data (c, n))) = establisheds c"
proof -
  have "establisheds (fst (enqueue S k data (c', n))) = establisheds c'" for k c'
    by (simp add: enqueue_def Let_def)
  then show ?thesis using assms by (simp add: handle_frame_def Let_def)
qed

theorem unauthenticated_frame_reaches_nothing_witness:
  "actors (snd (handle_frame opset demo_server acked demo_frame (demo_client, demo_net))) = Map.empty"
  using unauthenticated_frame_reaches_nothing [OF demo_frame_parse, of demo_client demo_server acked demo_net]
  by (simp add: demo_net_simps)

text \<open>C24: A client that a hook rejects is refused. When an \<open>on_connect\<close> hook returns an error, nothing is
  registered and no document is loaded; the client is sent \<open>PermissionDenied\<close> with the hook's message
  and then closed with \<open>FORBIDDEN\<close>, whatever close event the error carries.\<close>

theorem rejected_client_denied:
  assumes "auth_fields (wire Y) data = Some (token, pv)"
    and "run_until_err (map (\<lambda>e. on_connect e
           \<lparr>cp_document_name = fst (parse_routing_key k), cp_socket_id = socket_id c, cp_request = request c,
            cp_provider_version = pv\<rparr>) (extensions S))
         (\<lparr>cell_context = context_new, cell_config = default_connection_config\<rparr>, n_world n) = (Inl err, cell, w)"
  shows "authenticate Y S wait k data (c, n) =
    (c, n\<lparr>n_world := w, n_chans := snd (chan_send (out_tx c) (Close FORBIDDEN)
       (snd (chan_send (out_tx c) (Frame (into_bytes (out_permission_denied (wire Y) (message err) (out_new (wire Y) k)))) (n_chans n))))\<rparr>)"
  using assms
  by (simp add: authenticate_def deny_def terminate_def socket_send_def Let_def case_prod_beta)

definition closed_server :: "(bytes, string, unit) server" where
  "closed_server = \<lparr>config = default_configuration,
     extensions = [default_extension\<lparr>on_connect := (\<lambda>_ s. (Inl unauthorized, s))\<rparr>]\<rparr>"

definition token_frame :: bytes where
  "token_frame = enc_string lib0 ''doc'' @ enc_var lib0 (type_code Auth) @ enc_var lib0 (auth_code Token) @ enc_string lib0 ''secret''"

lemma token_frame_fields: "auth_fields (wire opset) token_frame = Some (''secret'', None)"
proof -
  have p: "parse lib0 token_frame = Inr \<lparr>routing_key = ''doc'', message_type = Auth,
      decoder = enc_var lib0 (auth_code Token) @ enc_string lib0 ''secret''\<rparr>"
    unfolding token_frame_def by (rule l0.parse_frame [OF _ from_u64_type_code]) simp
  have "dec_string lib0 [] = Inl DecodeError" by (simp add: lib0_def blob_dec_def)
  then show ?thesis
    by (simp add: opset_def auth_fields_def p l0.dec_var_enc)
qed

theorem rejected_client_denied_witness:
  "queue (n_chans (snd (authenticate opset closed_server acked ''doc'' token_frame (demo_client, demo_net))) 0) =
     [Frame (into_bytes (out_permission_denied (wire opset) ''Unauthorized'' (out_new (wire opset) ''doc''))), Close FORBIDDEN]"
  using rejected_client_denied [OF token_frame_fields, of "''doc''" demo_client closed_server demo_net unauthorized
      "\<lparr>cell_context = context_new, cell_config = default_connection_config\<rparr>" "()" acked]
  by (simp add: closed_server_def demo_net_simps unauthorized_def closing_def UNAUTHORIZED_def close_event_new_def
      chan_send_def try_send_def demo_chan_def)

text \<open>An unauthenticated socket cannot keep itself alive. Whatever frames it sends, as long as it has
  not been authenticated its idle deadline is the configured timeout after it was opened.\<close>

theorem unauthenticated_deadline_fixed:
  "\<not> authenticated (frames_run Y S evs (client_new sid ch req now)) \<longrightarrow>
     idle_deadline S (frames_run Y S evs (client_new sid ch req now)) = now + timeout (config S)"
proof -
  have drain: "established_at (fst (drain_pending h cid msgs (c, n))) = established_at c" for h cid msgs c n
    by (simp add: drain_pending_client)
  have acc: "established_at (fst (accept_client Y S wait k cell pv (c, m))) = established_at c" for wait k cell pv c m
    by (rule accept_client_elim [where P = "\<lambda>r. established_at (fst r) = established_at c"]) (auto simp: drain)
  have auth: "established_at (fst (authenticate Y S wait k data (c, n))) = established_at c" for wait k data c n
    by (rule authenticate_elim [where P = "\<lambda>r. established_at (fst r) = established_at c"]) (auto simp: acc)
  have step: "established_at (fst (handle_frame Y S wait data (c, n))) = established_at c" for wait data c n
    by (rule handle_frame_elim [where P = "\<lambda>r. established_at (fst r) = established_at c"])
      (auto simp: auth enqueue_def Let_def)
  have "established_at (frames_run Y S evs c) = established_at c" for c
    by (induction evs arbitrary: c) (auto simp: step)
  then show ?thesis by (simp add: idle_deadline_def client_new_def)
qed

theorem unauthenticated_deadline_fixed_witness:
  "idle_deadline demo_server (frames_run opset demo_server [([0], acked, demo_net)] (client_new ''ws-1'' 0 default_request_meta 3)) = 60003"
  using unauthenticated_deadline_fixed [of opset demo_server "[([0], acked, demo_net)]" "''ws-1''" 0 default_request_meta 3]
  by (simp add: handle_frame_def client_new_def default_configuration_def from_secs_def)

section \<open>After authentication\<close>

lemma send_command_alive:
  "actors n h = Some a \<Longrightarrow> send_command h cmd n = (True, n\<lparr>actors := (actors n)(h \<mapsto> a\<lparr>rx := rx a @ [cmd]\<rparr>)\<rparr>)"
  by (simp add: send_command_def)

lemma drain_pending_delivers:
  "actors n h = Some a \<Longrightarrow>
     snd (drain_pending h cid msgs (c, n)) =
       n\<lparr>actors := (actors n)(h \<mapsto> a\<lparr>rx := rx a @ map (ClientFrame cid) msgs\<rparr>)\<rparr>"
proof (induction msgs arbitrary: c n a)
  case Nil
  then show ?case by (simp add: fun_upd_idem)
qed (simp add: send_command_alive)

text \<open>C25: Frames that waited are delivered in order. When a client has been accepted and registered with
  the actor of its document, all frames that waited under its routing key are appended to that actor's
  mailbox in the order they arrived, under the connection id just registered, before any later frame;
  they leave the queue, and the routing key is established for direct delivery.\<close>

theorem waiting_frames_delivered:
  assumes "register_connection 2 Y S wait (fst (parse_routing_key k))
       \<lparr>conn_id = next_conn_id n, outbound = out_tx c, conn_address = k,
        conn_read_only = cc_read_only (cell_config cell), conn_socket_id = socket_id c,
        conn_session_id = snd (parse_routing_key k),
        conn_cell = cell\<lparr>cell_config := set_authenticated True (cell_config cell)\<rparr>, conn_request = request c,
        conn_provider_version = pv, client_ids = []\<rparr>
       ((socket_send c (Frame (into_bytes (out_authenticated (wire Y) (cc_read_only (cell_config cell))
          (out_new (wire Y) k)))) n)\<lparr>next_conn_id := next_conn_id n + 1\<rparr>) = (Some h, n')"
    and "actors n' h = Some a" and "map_of (pending c) k = Some msgs" and "distinct (map fst (pending c))"
  shows "let (c', m) = accept_client Y S wait k cell pv (c, n) in
    actors m h = Some (a\<lparr>rx := rx a @ map (ClientFrame (next_conn_id n)) msgs\<rparr>) \<and>
    map_of (pending c') k = None \<and>
    map_of (establisheds c') k = Some \<lparr>est_doc = h, est_conn_id = next_conn_id n\<rparr>"
proof -
  have send: "socket_send (c\<lparr>authenticated := True\<rparr>) m n = socket_send c m n" for m
    by (simp add: socket_send_def)
  let ?c = "c\<lparr>authenticated := True, establisheds := AList.update k \<lparr>est_doc = h, est_conn_id = next_conn_id n\<rparr> (establisheds c),
     pending := AList.delete k (pending c)\<rparr>"
  have "accept_client Y S wait k cell pv (c, n) = drain_pending h (next_conn_id n) msgs (?c, n')"
    using assms(1,3) by (simp add: accept_client_def Let_def case_prod_beta send set_authenticated_def)
  moreover have "snd (drain_pending h (next_conn_id n) msgs (?c, n')) =
      n'\<lparr>actors := (actors n')(h \<mapsto> a\<lparr>rx := rx a @ map (ClientFrame (next_conn_id n)) msgs\<rparr>)\<rparr>"
    by (rule drain_pending_delivers [OF assms(2)])
  ultimately show ?thesis
    by (simp add: case_prod_beta drain_pending_client update_conv delete_conv)
qed

theorem waiting_frames_delivered_witness:
  "let (c', m) = accept_client opset demo_server acked ''doc'' demo_cell None (demo_client, demo_net) in
     map_of (pending c') ''doc'' = None \<and> (\<exists>a. actors m 0 = Some a \<and> drop 1 (rx a) = [ClientFrame 1 [5], ClientFrame 1 [6]])"
proof -
  let ?conn = "\<lparr>conn_id = 1, outbound = 0, conn_address = ''doc'', conn_read_only = False, conn_socket_id = ''ws-1'',
      conn_session_id = None, conn_cell = demo_cell\<lparr>cell_config := set_authenticated True (cell_config demo_cell)\<rparr>,
      conn_request = default_request_meta, conn_provider_version = None, client_ids = []\<rparr>"
  let ?n = "(socket_send demo_client (Frame (into_bytes (out_authenticated (wire opset) False (out_new (wire opset) ''doc'')))) demo_net)
      \<lparr>next_conn_id := 2\<rparr>"
  let ?a = "spawn opset demo_server ''doc'' (n_chans ?n) 5 Map.empty ()"
  obtain n' where n': "register_connection 2 opset demo_server acked ''doc'' ?conn ?n = (Some 0, n')"
    and a: "actors n' 0 = Some (?a\<lparr>rx := [AddConnection ?conn 0]\<rparr>)"
    by (simp add: numeral_2_eq_2 get_document_miss send_command_def demo_net_simps socket_send_def Let_def)
  have k: "parse_routing_key ''doc'' = (''doc'', None)" by (simp add: parse_routing_key_def nul_def)
  show ?thesis
    using waiting_frames_delivered [of opset demo_server acked "''doc''" demo_net demo_client demo_cell None 0 n'
        "?a\<lparr>rx := [AddConnection ?conn 0]\<rparr>" "[[5], [6]]"] n' a
    by (simp add: k demo_net_simps default_connection_config_def case_prod_beta)
qed

section \<open>Registering and leaving\<close>

text \<open>A stale registry entry is recovered from. If the registry names an actor whose task has ended,
  registering a connection drops the entry, loads the document into a new actor, enters that one and
  puts the connection into its mailbox as the first command; the client is not turned away.\<close>

theorem stale_entry_recovered:
  assumes "documents n nm = Some h" and "actors n h = None" and "\<forall>ack m. fst (wait ack m)"
  shows "\<exists>m a. register_connection 2 Y S wait nm conn n = (Some (next_actor n), snd (wait (Suc (next_ack n)) m)) \<and>
    documents m nm = Some (next_actor n) \<and> actors m (next_actor n) = Some a \<and>
    rx a = [AddConnection conn (Suc (next_ack n))]"
proof -
  let ?n1 = "n\<lparr>next_ack := Suc (next_ack n), documents := (documents n)(nm := None)\<rparr>"
  let ?a = "spawn Y S nm (n_chans n) (n_clock n) ((documents n)(nm := None)) (n_world n)"
  let ?ack = "Suc (next_ack n)"
  let ?m = "?n1\<lparr>n_world := world ?a, documents := (documents n)(nm \<mapsto> next_actor n), next_actor := Suc (next_actor n),
      n_creating := (n_creating n)(nm := None), next_lock := (if n_creating n nm = None then Suc (next_lock n) else next_lock n),
      next_ack := Suc ?ack, actors := (actors n)(next_actor n \<mapsto> ?a\<lparr>rx := [AddConnection conn ?ack]\<rparr>)\<rparr>"
  have first: "register_connection (Suc 1) Y S wait nm conn n = register_connection 1 Y S wait nm conn ?n1"
    using assms(1,2) by (simp add: get_document_hit send_command_def)
  have get: "get_document Y S nm ?n1 = (next_actor n, ?n1\<lparr>actors := (actors n)(next_actor n \<mapsto> ?a), n_world := world ?a,
      documents := (documents n)(nm \<mapsto> next_actor n), next_actor := Suc (next_actor n), n_creating := (n_creating n)(nm := None),
      next_lock := (if n_creating n nm = None then Suc (next_lock n) else next_lock n)\<rparr>)"
    by (simp add: get_document_miss)
  have "register_connection (Suc 0) Y S wait nm conn ?n1 = (Some (next_actor n), snd (wait ?ack ?m))"
    using assms(3) by (simp add: get send_command_def Let_def case_prod_beta split: prod.split bool.split)
  then show ?thesis using first by (intro exI [of _ ?m] exI [of _ "?a\<lparr>rx := [AddConnection conn ?ack]\<rparr>"]) (simp add: numeral_2_eq_2)
qed

theorem stale_entry_recovered_witness:
  "fst (register_connection 2 opset demo_server acked ''doc'' (demo_conn False)
     (demo_net\<lparr>documents := [''doc'' \<mapsto> 7], next_actor := 8\<rparr>)) = Some 8"
  using stale_entry_recovered [of "demo_net\<lparr>documents := [''doc'' \<mapsto> 7], next_actor := 8\<rparr>" "''doc''" 7 acked
      opset demo_server "demo_conn False"]
  by (auto simp: demo_net_def acked_def)

text \<open>C33: A late retry can unregister the document's new actor. When the actor a client was registering
  with has ended before it acknowledged, and another task has loaded the document again meanwhile, the
  retry first removes the registry entry of that new actor, because entries are removed by name, and then
  loads the document a second time: afterwards the registry names the newest actor while the other one is
  still running under the same name.\<close>

theorem retry_unregisters_successor:
  assumes "documents n nm = Some h" and "actors n h = Some a"
    and "wait (next_ack n) (snd (send_command h (AddConnection conn (next_ack n)) (n\<lparr>next_ack := Suc (next_ack n)\<rparr>))) = (False, m)"
    and "documents m nm = Some h2" and "actors m h2 = Some b" and "h2 < next_actor m"
    and "\<forall>ack k. ack \<noteq> next_ack n \<longrightarrow> wait ack k = (True, k)" and "next_ack m \<noteq> next_ack n"
  shows "\<exists>m' a'. register_connection 2 Y S wait nm conn n = (Some (next_actor m), m') \<and>
    documents m' nm = Some (next_actor m) \<and> actors m' (next_actor m) = Some a' \<and> doc_name a' = nm \<and>
    actors m' h2 = Some b \<and> h2 \<noteq> next_actor m"
proof -
  let ?m = "m\<lparr>documents := (documents m)(nm := None)\<rparr>"
  have "register_connection (Suc 1) Y S wait nm conn n = register_connection 1 Y S wait nm conn ?m"
    using assms(1-3) by (simp add: get_document_hit send_command_def)
  moreover have "doc_name (spawn Y S nm cs t reg w) = nm" for cs t reg w
    by (simp add: spawn_def Let_def case_prod_beta)
  ultimately show ?thesis
    using assms(4-8) by (auto simp: numeral_2_eq_2 get_document_miss send_command_def Let_def)
qed

theorem retry_unregisters_successor_witness:
  "\<exists>m'. register_connection 2 opset demo_server
     (\<lambda>ack k. if ack = 0 then (False, demo_net\<lparr>documents := [''doc'' \<mapsto> 1], actors := [1 \<mapsto> demo_spawn], next_actor := 2, next_ack := 1\<rparr>)
       else (True, k)) ''doc'' (demo_conn False)
     (demo_net\<lparr>documents := [''doc'' \<mapsto> 0], actors := [0 \<mapsto> demo_spawn], next_actor := 1\<rparr>) = (Some 2, m') \<and>
     actors m' 1 = Some demo_spawn \<and> actors m' 2 \<noteq> None"
  using retry_unregisters_successor [of "demo_net\<lparr>documents := [''doc'' \<mapsto> 0], actors := [0 \<mapsto> demo_spawn], next_actor := 1\<rparr>" "''doc''" 0
      demo_spawn "\<lambda>ack k. if ack = 0 then (False, demo_net\<lparr>documents := [''doc'' \<mapsto> 1], actors := [1 \<mapsto> demo_spawn], next_actor := 2, next_ack := 1\<rparr>)
       else (True, k)" "demo_conn False"
      "demo_net\<lparr>documents := [''doc'' \<mapsto> 1], actors := [1 \<mapsto> demo_spawn], next_actor := 2, next_ack := 1\<rparr>" 1 demo_spawn opset demo_server]
  by (auto simp: demo_net_def)

lemma send_all:
  assumes "actors n h = Some a"
  shows "actors (fold (\<lambda>(_, est) n. snd (send_command (est_doc est) (RemoveConnection (est_conn_id est)) n)) es n) h =
    Some (a\<lparr>rx := rx a @ map (\<lambda>(_, est). RemoveConnection (est_conn_id est)) (filter (\<lambda>(_, est). est_doc est = h) es)\<rparr>)"
  using assms
proof (induction es arbitrary: n a)
  case (Cons e es)
  obtain k est where e: "e = (k, est)" by fastforce
  let ?n = "snd (send_command (est_doc est) (RemoveConnection (est_conn_id est)) n)"
  have "actors ?n h = Some (if est_doc est = h then a\<lparr>rx := rx a @ [RemoveConnection (est_conn_id est)]\<rparr> else a)"
    using Cons.prems by (auto simp: send_command_def split: option.split)
  then show ?case using Cons.IH by (auto simp: e)
qed simp

text \<open>C26: A socket that ends leaves every document it joined. Each actor that still runs finds exactly one
  \<open>RemoveConnection\<close> for each connection the socket had with it, after everything it had queued; the
  socket's count is released, and its channel is closed so that later sends to it cannot pile up.\<close>

theorem socket_end_leaves_documents:
  assumes "actors n h = Some a" and "end_socket (c, n) = (c', m)"
  shows "actors m h = Some (a\<lparr>rx := rx a @ map (\<lambda>(_, est). RemoveConnection (est_conn_id est))
      (filter (\<lambda>(_, est). est_doc est = h) (establisheds c))\<rparr>) \<and>
    establisheds c' = [] \<and> chan_closed (n_chans m (out_tx c)) \<and> active_connections m = active_connections n - 1"
proof -
  have act: "active_connections (fold (\<lambda>(_, est) n. snd (send_command (est_doc est) (RemoveConnection (est_conn_id est)) n)) es n') =
      active_connections n'" for es and n' :: "('a, 'b, 'c, 'd, 'e) net"
    by (induction es arbitrary: n') (auto simp: send_command_def split: option.split)
  show ?thesis
    using assms(2) send_all [OF assms(1), of "establisheds c"] by (auto simp: end_socket_def cleanup_def act)
qed

theorem socket_end_leaves_documents_witness:
  "\<exists>a. actors (snd (end_socket (demo_client\<lparr>establisheds := [(''doc'', \<lparr>est_doc = 0, est_conn_id = 4\<rparr>)]\<rparr>,
      demo_net\<lparr>actors := [0 \<mapsto> demo_spawn]\<rparr>))) 0 = Some a \<and> rx a = [RemoveConnection 4]"
  using socket_end_leaves_documents [of "demo_net\<lparr>actors := [0 \<mapsto> demo_spawn]\<rparr>" 0 demo_spawn
      "demo_client\<lparr>establisheds := [(''doc'', \<lparr>est_doc = 0, est_conn_id = 4\<rparr>)]\<rparr>"]
  by (cases "end_socket (demo_client\<lparr>establisheds := [(''doc'', \<lparr>est_doc = 0, est_conn_id = 4\<rparr>)]\<rparr>,
      demo_net\<lparr>actors := [0 \<mapsto> demo_spawn]\<rparr>)") (simp add: demo_spawn_eq)

section \<open>Capacity\<close>

text \<open>Over-capacity requests are shed before anything else happens to them. With a connection limit
  configured, an upgrade request is answered with 503 exactly when the count of open sockets has
  reached it; a request that is let in and opens its socket before the count changes again stays
  within the limit.\<close>

theorem capacity_respected:
  assumes "ws_handler S hs query remote True n = Some resp" and "0 < max_connections (config S)"
  shows "(resp = ServiceUnavailable \<longleftrightarrow> max_connections (config S) \<le> active_connections n) \<and>
    (resp = Upgrade meta \<longrightarrow> active_connections (snd (open_socket S ch meta n)) \<le> max_connections (config S))"
  using assms by (auto simp: ws_handler_def open_socket_def Let_def split: if_splits)

definition small_server :: "(bytes, string, unit) server" where
  "small_server = \<lparr>config = default_configuration\<lparr>max_connections := 2\<rparr>, extensions = []\<rparr>"

theorem capacity_respected_witness:
  "active_connections (snd (open_socket small_server 1 (default_request_meta\<lparr>remote_ip := Some ''::1''\<rparr>) demo_net)) \<le> 2"
proof -
  have "ws_handler small_server [] None ''::1'' True demo_net = Some (Upgrade (default_request_meta\<lparr>remote_ip := Some ''::1''\<rparr>))"
    by (simp add: ws_handler_def small_server_def demo_net_def collect_request_def collect_headers_def default_request_meta_def)
  from capacity_respected [OF this] show ?thesis by (simp add: small_server_def)
qed

text \<open>The limit can be overshot by requests that are checked at the same time. The check and the
  increment are separate steps: with one place left, any number of upgrade requests checked before the
  first of them opens its socket are all let in, and once they have opened, the count exceeds the
  limit.\<close>

theorem capacity_overshoot:
  assumes "max_connections (config S) = Suc (active_connections n)" and "collect_request hs query remote = Some meta"
  shows "ws_handler S hs query remote True n = Some (Upgrade meta) \<and>
    active_connections (snd (open_socket S ch2 meta (snd (open_socket S ch1 meta n)))) = Suc (max_connections (config S))"
  using assms by (simp add: ws_handler_def open_socket_def Let_def)

theorem capacity_overshoot_witness:
  "active_connections (snd (open_socket small_server 2 default_request_meta (snd (open_socket small_server 1 default_request_meta demo_net)))) = 3"
proof -
  have "collect_request [] None ''::1'' = Some (default_request_meta\<lparr>remote_ip := Some ''::1''\<rparr>)"
    by (simp add: collect_request_def collect_headers_def default_request_meta_def)
  from capacity_overshoot [OF _ this, of small_server demo_net 2 1] show ?thesis
    by (simp add: small_server_def demo_net_def open_socket_def Let_def)
qed

text \<open>\<open>direct_apply\<close> does not report a lost edit. Whatever happens to the command after it has been
  put into the mailbox, also when the acknowledgement never comes because the actor ended first, the
  caller gets \<open>Ok\<close>; it gets an error only if the actor was already gone.\<close>

theorem direct_apply_ignores_ack:
  assumes "documents n nm = Some h"
  shows "fst (direct_apply Y S wait nm u n) =
    (if actors n h = None then Inl ''document actor unavailable'' else Inr ())"
  using assms by (auto simp: direct_apply_def get_document_def send_command_def Let_def split: option.split)

theorem direct_apply_ignores_ack_witness:
  "fst (direct_apply opset demo_server (\<lambda>_ n. (False, n)) ''doc'' [7]
     (demo_net\<lparr>documents := [''doc'' \<mapsto> 0], actors := [0 \<mapsto> demo_spawn]\<rparr>)) = Inr ()"
  using direct_apply_ignores_ack [of "demo_net\<lparr>documents := [''doc'' \<mapsto> 0], actors := [0 \<mapsto> demo_spawn]\<rparr>" "''doc''" 0
      opset demo_server "\<lambda>_ n. (False, n)" "[7]"]
  by simp

end
