(* ===== verification/System.thy ===== *)
theory System
  imports Server_Props Redis Document_Routes
begin

text \<open>
  The server as a whole: sockets, document actors, the Redis subscriber and programmatic edits running
  side by side on the shared state \<open>net\<close>. Handlers of theory \<open>Server\<close> are cut at their await points: a
  handler that waits, for the lock of a document name, for the load of a document or for an
  acknowledgement, is an entry of the table \<open>calls\<close>, and between two of its steps everything else may
  happen, the steps of other waiting handlers included. The theory shows that the cut handlers put
  together are the handlers of theory \<open>Server\<close>. The locales \<open>net_effects\<close> and \<open>server_effects\<close> state when a
  relation between states of the server is kept by the handlers and by every run; the
  theories \<open>System_Inv\<close>, \<open>System_Sim\<close>, \<open>System_Registry\<close>, \<open>System_Sync\<close> and \<open>System_Durable\<close> interpret them.
\<close>

section \<open>Actors inside the server\<close>

text \<open>An actor sees the shared channels, hook state, clock and registry; after its turn they are the
  shared ones again, its acknowledgements have been sent and its replies have gone to the publisher.\<close>

definition attach :: "('d, 'v, 'a, 'j, 'w) net \<Rightarrow> ('d, 'v, 'a, 'j, 'w) document \<Rightarrow> ('d, 'v, 'a, 'j, 'w) document" where
  "attach n a = a\<lparr>chans := n_chans n, world := n_world n, clock := n_clock n, registry := documents n\<rparr>"

definition detach ::
    "nat \<Rightarrow> bool \<Rightarrow> ('d, 'v, 'a, 'j, 'w) document \<Rightarrow> ('d, 'v, 'a, 'j, 'w) net \<Rightarrow> ('d, 'v, 'a, 'j, 'w) net" where
  "detach h exit s n =
     n\<lparr>n_chans := chans s, n_world := world s, documents := registry s, n_acks := n_acks n \<union> set (acks s),
       n_replies := n_replies n @ replies s,
       actors := (actors n)(h := if exit then None else Some (s\<lparr>replies := []\<rparr>))\<rparr>"

section \<open>Handlers between their await points\<close>

text \<open>\<open>authenticate\<close> up to \<open>register_connection\<close>: the connection to register, if both hooks accept the client.\<close>

definition accept_begin ::
    "('d, 'v, 'u, 'a, 'p) yrs \<Rightarrow> string \<Rightarrow> 'j conn_cell \<Rightarrow> string option \<Rightarrow>
       client_connection \<times> ('d, 'v, 'a, 'j, 'w) net \<Rightarrow> client_connection \<times> ('d, 'v, 'a, 'j, 'w) net \<times> 'j conn_handle" where
  "accept_begin Y raw_key cell provider_version cn =
     (case cn of (c, n) \<Rightarrow>
        let cell = cell\<lparr>cell_config := set_authenticated True (cell_config cell)\<rparr>;
            c = c\<lparr>authenticated := True\<rparr>;
            read_only = cc_read_only (cell_config cell);
            n = socket_send c (Frame (into_bytes
                  (out_authenticated (wire Y) read_only (out_new (wire Y) raw_key)))) n;
            cid = next_conn_id n
        in (c, n\<lparr>next_conn_id := cid + 1\<rparr>,
            \<lparr>conn_id = cid, outbound = out_tx c, conn_address = raw_key, conn_read_only = read_only,
             conn_socket_id = socket_id c, conn_session_id = snd (parse_routing_key raw_key), conn_cell = cell,
             conn_request = request c, conn_provider_version = provider_version, client_ids = []\<rparr>))"

definition authenticate_begin ::
    "('d, 'v, 'u, 'a, 'p) yrs \<Rightarrow> ('d, 'j, 'w) server \<Rightarrow> string \<Rightarrow> bytes \<Rightarrow>
       client_connection \<times> ('d, 'v, 'a, 'j, 'w) net \<Rightarrow>
       client_connection \<times> ('d, 'v, 'a, 'j, 'w) net \<times> 'j conn_handle option" where
  "authenticate_begin Y S raw_key data cn =
     (case cn of (c, n) \<Rightarrow>
        let nm = fst (parse_routing_key raw_key)
        in case auth_fields (wire Y) data of
             None \<Rightarrow> (c, n, None)
           | Some (token, provider_version) \<Rightarrow>
               let cell = \<lparr>cell_context = context_new, cell_config = default_connection_config\<rparr>;
                   cp = \<lparr>cp_document_name = nm, cp_socket_id = socket_id c,
                         cp_request = request c, cp_provider_version = provider_version\<rparr>
               in case run_until_err (map (\<lambda>e. on_connect e cp) (extensions S)) (cell, n_world n) of
                    (Inl e, (_, w)) \<Rightarrow> (c, deny Y c raw_key (message e) (n\<lparr>n_world := w\<rparr>), None)
                  | (Inr _, (cell, w)) \<Rightarrow>
                      let ap = \<lparr>ap_token = token, ap_document_name = nm,
                                ap_socket_id = socket_id c, ap_request = request c\<rparr>
                      in case run_until_err (map (\<lambda>e. on_authenticate e ap) (extensions S)) (cell, w) of
                           (Inl e, (_, w)) \<Rightarrow> (c, deny Y c raw_key (message e) (n\<lparr>n_world := w\<rparr>), None)
                         | (Inr _, (cell, w)) \<Rightarrow>
                             (case accept_begin Y raw_key cell provider_version (c, n\<lparr>n_world := w\<rparr>) of
                                (c, n, conn) \<Rightarrow> (c, n, Some conn)))"

text \<open>\<open>handle_frame\<close> up to \<open>register_connection\<close>, if it gets there.\<close>

definition frame_begin ::
    "('d, 'v, 'u, 'a, 'p) yrs \<Rightarrow> ('d, 'j, 'w) server \<Rightarrow> bytes \<Rightarrow>
       client_connection \<times> ('d, 'v, 'a, 'j, 'w) net \<Rightarrow>
       client_connection \<times> ('d, 'v, 'a, 'j, 'w) net \<times> 'j conn_handle option" where
  "frame_begin Y S data cn =
     (case cn of (c, n) \<Rightarrow>
        let c = c\<lparr>last_message_at := n_clock n\<rparr>
        in if length data = 1 then (c, n, None)
           else case parse (wire Y) data of
                  Inl _ \<Rightarrow> (c, n, None)
                | Inr f \<Rightarrow>
                    let raw_key = routing_key f
                    in case map_of (establisheds c) raw_key of
                         Some est \<Rightarrow>
                           (c, snd (send_command (est_doc est) (ClientFrame (est_conn_id est) data) n), None)
                       | None \<Rightarrow>
                           if message_type f = Auth then authenticate_begin Y S raw_key data (c, n)
                           else (case enqueue S raw_key data (c, n) of (c, n) \<Rightarrow> (c, n, None)))"

text \<open>What \<open>authenticate\<close> does once the connection has been registered, or not.\<close>

definition accepted ::
    "string \<Rightarrow> u64 \<Rightarrow> client_connection \<Rightarrow> nat option \<times> ('d, 'v, 'a, 'j, 'w) net \<Rightarrow>
       client_connection \<times> ('d, 'v, 'a, 'j, 'w) net" where
  "accepted k cid c rp =
     (case rp of
        (None, p) \<Rightarrow> (c, terminate c RESET_CONNECTION p)
      | (Some h, p) \<Rightarrow>
          let c = c\<lparr>establisheds := AList.update k \<lparr>est_doc = h, est_conn_id = cid\<rparr> (establisheds c)\<rparr>
          in case map_of (pending c) k of
               None \<Rightarrow> (c, p)
             | Some msgs \<Rightarrow> drain_pending h cid msgs (c\<lparr>pending := AList.delete k (pending c)\<rparr>, p))"

text \<open>The part in between, \<open>register_connection\<close> and its like in \<open>direct_apply\<close>: look the document up, send the
  command, wait for the acknowledgement. If the actor is gone, a registration drops the registry entry and
  tries again as often as it may, and an edit fails; an edit does not care whether the acknowledgement
  comes. The result is the rest of the call or its end, and \<open>None\<close> while it has to wait.\<close>

fun call_name :: "'j purpose \<Rightarrow> string" where
  "call_name (Join k conn) = fst (parse_routing_key (conn_address conn))"
| "call_name (Edit nm u) = nm"

fun call_command :: "'j purpose \<Rightarrow> nat \<Rightarrow> 'j doc_command" where
  "call_command (Join k conn) ack = AddConnection conn ack"
| "call_command (Edit nm u) ack = DirectApply u ack"

fun call_gone ::
    "'j purpose \<Rightarrow> ('d, 'v, 'a, 'j, 'w) net \<Rightarrow> ('j call + nat option) \<times> ('d, 'v, 'a, 'j, 'w) net" where
  "call_gone (Join k conn) n =
     (case k of 0 \<Rightarrow> Inr None | Suc k \<Rightarrow> Inl (Looking (Join k conn) Start),
      n\<lparr>documents := (documents n)(fst (parse_routing_key (conn_address conn)) := None)\<rparr>)"
| "call_gone (Edit nm u) n = (Inr None, n)"

fun call_lost ::
    "'j purpose \<Rightarrow> nat \<Rightarrow> ('d, 'v, 'a, 'j, 'w) net \<Rightarrow> ('j call + nat option) \<times> ('d, 'v, 'a, 'j, 'w) net" where
  "call_lost (Join k conn) h n = call_gone (Join k conn) n"
| "call_lost (Edit nm u) h n = (Inr (Some h), n)"

fun call_turn ::
    "('d, 'v, 'u, 'a, 'p) yrs \<Rightarrow> ('d, 'j, 'w) server \<Rightarrow> 'j call \<Rightarrow> ('d, 'v, 'a, 'j, 'w) net \<Rightarrow>
       (('j call + nat option) \<times> ('d, 'v, 'a, 'j, 'w) net) option" where
  "call_turn Y S (Looking p pc) n =
     (case pc of
        Done h \<Rightarrow>
          let ack = next_ack n;
              n = n\<lparr>next_ack := Suc ack\<rparr>
          in Some (case send_command h (call_command p ack) n of
                     (False, n) \<Rightarrow> call_gone p n
                   | (True, n) \<Rightarrow> (Inl (Acking p h ack), n))
      | _ \<Rightarrow> map_option (\<lambda>(pc, n). (Inl (Looking p pc), n)) (lookup_turn Y S (call_name p) pc n))"
| "call_turn Y S (Acking p h ack) n =
     (if ack \<in> n_acks n then Some (Inr (Some h), n)
      else if actors n h = None then Some (call_lost p h n)
      else None)"

fun purpose_of :: "'j call \<Rightarrow> 'j purpose" where
  "purpose_of (Looking p pc) = p"
| "purpose_of (Acking p h ack) = p"

section \<open>Runs of the server\<close>

definition new_chan :: "('d, 'j, 'w) server \<Rightarrow> chan" where
  "new_chan S = \<lparr>cap = outbound_capacity (config S), queue = [], chan_closed = False\<rparr>"

text \<open>The state \<open>build\<close> creates, at time \<open>now\<close> with the hook state \<open>w\<close>.\<close>

definition server_start :: "('d, 'j, 'w) server \<Rightarrow> instant \<Rightarrow> 'w \<Rightarrow> ('d, 'v, 'a, 'j, 'w) net" where
  "server_start S now w =
     \<lparr>n_clock = now, n_chans = (\<lambda>_. new_chan S), n_world = w, documents = Map.empty, actors = Map.empty,
      next_actor = 0, next_ack = 0, next_conn_id = 1, next_socket_id = 1, active_connections = 0,
      n_creating = Map.empty, n_locked = {}, next_lock = 0, n_acks = {}, sockets = Map.empty, calls = Map.empty,
      upgrades = [], n_replies = []\<rparr>"

text \<open>
  One step of the server, labelled with the actor that took a turn and whether it ended, the message a
  writer took from its channel, or the change of the hook state by tasks of the extensions. A socket opens
  on a channel number that has not been used before. A socket whose handler waits takes no other step.
\<close>

datatype label = Acted nat bool | Wrote nat "out_msg option" | Outside | Other

inductive server_step ::
    "('d, 'v, 'u, 'a, 'p) yrs \<Rightarrow> ('d, 'j, 'w) server \<Rightarrow> label \<Rightarrow>
       ('d, 'v, 'a, 'j, 'w) net \<Rightarrow> ('d, 'v, 'a, 'j, 'w) net \<Rightarrow> bool"
  for Y :: "('d, 'v, 'u, 'a, 'p) yrs" and S :: "('d, 'j, 'w) server" where
  upgrades: "ws_handler S hs query remote True n = Some (Upgrade meta) \<Longrightarrow>
    server_step Y S Other n (n\<lparr>upgrades := upgrades n @ [meta]\<rparr>)"
| opens: "upgrades n = us @ meta # vs \<Longrightarrow> sockets n ch = None \<Longrightarrow> n_chans n ch = new_chan S \<Longrightarrow>
    open_socket S ch meta n = (c, n') \<Longrightarrow>
    server_step Y S Other n (n'\<lparr>upgrades := us @ vs, sockets := (sockets n')(ch \<mapsto> c)\<rparr>)"
| reads: "sockets n ch = Some c \<Longrightarrow> calls n (Socket ch) = None \<Longrightarrow> frame_begin Y S data (c, n) = (c', n', conn) \<Longrightarrow>
    server_step Y S Other n
      (n'\<lparr>sockets := (sockets n')(ch \<mapsto> c'),
          calls := (calls n')(Socket ch := map_option (\<lambda>conn. Looking (Join 1 conn) Start) conn)\<rparr>)"
| goes_on: "calls n t = Some k \<Longrightarrow> call_turn Y S k n = Some (Inl k', n') \<Longrightarrow>
    server_step Y S Other n (n'\<lparr>calls := (calls n')(t \<mapsto> k')\<rparr>)"
| joins: "calls n (Socket ch) = Some k \<Longrightarrow> purpose_of k = Join i conn \<Longrightarrow> sockets n ch = Some c \<Longrightarrow>
    call_turn Y S k n = Some (Inr r, n') \<Longrightarrow> accepted (conn_address conn) (conn_id conn) c (r, n') = (c', n'') \<Longrightarrow>
    server_step Y S Other n (n''\<lparr>sockets := (sockets n'')(ch \<mapsto> c'), calls := (calls n'')(Socket ch := None)\<rparr>)"
| edit_starts: "calls n (Job j) = None \<Longrightarrow>
    server_step Y S Other n (n\<lparr>calls := (calls n)(Job j \<mapsto> Looking (Edit nm u) Start)\<rparr>)"
| edit_ends: "calls n (Job j) = Some k \<Longrightarrow> call_turn Y S k n = Some (Inr r, n') \<Longrightarrow>
    server_step Y S Other n (n'\<lparr>calls := (calls n')(Job j := None)\<rparr>)"
| closes: "sockets n ch = Some c \<Longrightarrow> calls n (Socket ch) = None \<Longrightarrow>
    (ev = IdleTimeout \<Longrightarrow> sleep_until (idle_deadline S c) (n_clock n) = n_clock n) \<Longrightarrow>
    socket_turn Y S wait ev (c, n) = (False, c', n') \<Longrightarrow> end_socket (c', n') = (c'', n'') \<Longrightarrow>
    server_step Y S Other n (n''\<lparr>sockets := (sockets n'')(ch := None)\<rparr>)"
| writes: "writer_turn ok (n_chans n ch) = (msg, c) \<Longrightarrow>
    server_step Y S (Wrote ch msg) n (n\<lparr>n_chans := (n_chans n)(ch := c)\<rparr>)"
| acts: "actors n h = Some a \<Longrightarrow> actor_turn Y S (attach n a) exit s' \<Longrightarrow>
    server_step Y S (Acted h exit) n (detach h exit s' n)"
| hears: "server_step Y S Other n (subscriber_turn (wire Y) i payload n)"
| replies_go: "n_replies n = f # fs \<Longrightarrow> server_step Y S Other n (n\<lparr>n_replies := fs\<rparr>)"
| passes: "server_step Y S Other n (n\<lparr>n_clock := n_clock n + t\<rparr>)"
| outside: "server_step Y S Outside n (n\<lparr>n_world := w\<rparr>)"

text \<open>Runs; \<open>Q\<close> limits the steps that are considered.\<close>

inductive serves ::
    "('d, 'v, 'u, 'a, 'p) yrs \<Rightarrow> ('d, 'j, 'w) server \<Rightarrow>
       (label \<Rightarrow> ('d, 'v, 'a, 'j, 'w) net \<Rightarrow> ('d, 'v, 'a, 'j, 'w) net \<Rightarrow> bool) \<Rightarrow>
       ('d, 'v, 'a, 'j, 'w) net \<Rightarrow> ('d, 'v, 'a, 'j, 'w) net \<Rightarrow> bool"
  for Y :: "('d, 'v, 'u, 'a, 'p) yrs" and S :: "('d, 'j, 'w) server"
    and Q :: "label \<Rightarrow> ('d, 'v, 'a, 'j, 'w) net \<Rightarrow> ('d, 'v, 'a, 'j, 'w) net \<Rightarrow> bool"
    and n :: "('d, 'v, 'a, 'j, 'w) net" where
  stay: "serves Y S Q n n"
| on: "serves Y S Q n m \<Longrightarrow> server_step Y S l m m' \<Longrightarrow> Q l m m' \<Longrightarrow> serves Y S Q n m'"

definition any_step :: "label \<Rightarrow> ('d, 'v, 'a, 'j, 'w) net \<Rightarrow> ('d, 'v, 'a, 'j, 'w) net \<Rightarrow> bool" where
  "any_step l n n' = True"

lemma any_step [simp]: "any_step l n n'"
  by (simp add: any_step_def)

lemma serves_mono: "serves Y S Q n m \<Longrightarrow> (\<And>l k k'. Q l k k' \<Longrightarrow> Q' l k k') \<Longrightarrow> serves Y S Q' n m"
  by (induction rule: serves.induct) (auto intro: serves.intros)

lemma serves_trans: "serves Y S Q m k \<Longrightarrow> serves Y S Q n m \<Longrightarrow> serves Y S Q n k"
  by (induction rule: serves.induct) (auto intro: serves.intros)

lemma serves_then: "serves Y S Q n m \<Longrightarrow> server_step Y S Other m m' \<Longrightarrow> (\<And>k k'. Q Other k k') \<Longrightarrow> serves Y S Q n m'"
  by (rule on) simp_all

section \<open>The cut handlers are the handlers\<close>

lemma accept_client_cut:
  "accept_client Y S wait k cell pv (c, n) =
     (case accept_begin Y k cell pv (c, n) of (c', n', conn) \<Rightarrow>
        accepted k (conn_id conn) c' (register_connection 2 Y S wait (fst (parse_routing_key k)) conn n'))"
  by (cases "parse_routing_key k")
    (simp add: accept_client_def accept_begin_def accepted_def Let_def del: socket_send_frame split: option.split prod.split)

lemma accept_begin_address: "accept_begin Y k cell pv cn = (c, n, conn) \<Longrightarrow> conn_address conn = k"
  by (auto simp: accept_begin_def Let_def split: prod.splits)

lemma handle_frame_cut:
  "handle_frame Y S wait data (c, n) =
     (case frame_begin Y S data (c, n) of
        (c', n', None) \<Rightarrow> (c', n')
      | (c', n', Some conn) \<Rightarrow>
          accepted (conn_address conn) (conn_id conn) c'
            (register_connection 2 Y S wait (fst (parse_routing_key (conn_address conn))) conn n'))"
proof -
  have "authenticate Y S wait k d (c, n) =
     (case authenticate_begin Y S k d (c, n) of
        (c', n', None) \<Rightarrow> (c', n')
      | (c', n', Some conn) \<Rightarrow>
          accepted (conn_address conn) (conn_id conn) c'
            (register_connection 2 Y S wait (fst (parse_routing_key (conn_address conn))) conn n'))" for k d c n
    by (cases "parse_routing_key k")
      (simp add: authenticate_def authenticate_begin_def accept_client_cut accept_begin_address Let_def
        split: option.split prod.split sum.split)
  then show ?thesis
    by (simp add: handle_frame_def frame_begin_def Let_def split: option.split prod.split sum.split)
qed

text \<open>A socket whose handler has got to \<open>x\<close>; the handlers themselves touch neither table.\<close>

definition park ::
    "nat \<Rightarrow> client_connection \<Rightarrow> 'j call option \<Rightarrow> ('d, 'v, 'a, 'j, 'w) net \<Rightarrow> ('d, 'v, 'a, 'j, 'w) net" where
  "park ch c x n = n\<lparr>sockets := (sockets n)(ch \<mapsto> c), calls := (calls n)(Socket ch := x)\<rparr>"

lemma park_fields [simp]:
  "documents (park ch c x n) = documents n" "actors (park ch c x n) = actors n" "n_locked (park ch c x n) = n_locked n"
  "n_creating (park ch c x n) = n_creating n" "next_lock (park ch c x n) = next_lock n" "n_acks (park ch c x n) = n_acks n"
  "next_ack (park ch c x n) = next_ack n" "next_actor (park ch c x n) = next_actor n" "n_chans (park ch c x n) = n_chans n"
  "n_clock (park ch c x n) = n_clock n" "n_world (park ch c x n) = n_world n" "next_conn_id (park ch c x n) = next_conn_id n"
  "sockets (park ch c x n) ch = Some c" "calls (park ch c x n) (Socket ch) = x"
  by (simp_all add: park_def)

lemma park_again [simp]:
  "(park ch c x n)\<lparr>calls := (calls (park ch c x n))(Socket ch := y)\<rparr> = park ch c y n"
  "(park ch c x n)\<lparr>sockets := (sockets (park ch c x n))(ch \<mapsto> c'), calls := (calls (park ch c x n))(Socket ch := y)\<rparr> = park ch c' y n"
  by (simp_all add: park_def)

lemma park_effects:
  "(park ch c x n)\<lparr>documents := ds\<rparr> = park ch c x (n\<lparr>documents := ds\<rparr>)"
  "(park ch c x n)\<lparr>next_ack := i\<rparr> = park ch c x (n\<lparr>next_ack := i\<rparr>)"
  "(park ch c x n)\<lparr>actors := as\<rparr> = park ch c x (n\<lparr>actors := as\<rparr>)"
  "(park ch c x n)\<lparr>n_chans := cs\<rparr> = park ch c x (n\<lparr>n_chans := cs\<rparr>)"
  "(park ch c x n)\<lparr>n_world := w\<rparr> = park ch c x (n\<lparr>n_world := w\<rparr>)"
  "(park ch c x n)\<lparr>n_locked := ls\<rparr> = park ch c x (n\<lparr>n_locked := ls\<rparr>)"
  "(park ch c x n)\<lparr>n_creating := cr\<rparr> = park ch c x (n\<lparr>n_creating := cr\<rparr>)"
  "(park ch c x n)\<lparr>next_lock := l\<rparr> = park ch c x (n\<lparr>next_lock := l\<rparr>)"
  "(park ch c x n)\<lparr>next_conn_id := cid\<rparr> = park ch c x (n\<lparr>next_conn_id := cid\<rparr>)"
  "(park ch c x n)\<lparr>next_actor := h\<rparr> = park ch c x (n\<lparr>next_actor := h\<rparr>)"
  by (simp_all add: park_def)

lemma send_command_park: "send_command h cmd (park ch c x n) = map_prod id (park ch c x) (send_command h cmd n)"
  by (simp add: send_command_def park_effects split: option.split)

lemma lookup_turn_park: "lookup_turn Y S nm pc (park ch c x n) = map_option (map_prod id (park ch c x)) (lookup_turn Y S nm pc n)"
  by (cases pc) (simp_all add: lock_entry_def spawn_document_def park_effects Let_def split: option.split)

lemma call_gone_park: "call_gone p (park ch c x n) = map_prod id (park ch c x) (call_gone p n)"
  by (cases p) (simp_all add: park_effects)

lemma call_turn_park: "call_turn Y S k (park ch c x n) = map_option (map_prod id (park ch c x)) (call_turn Y S k n)"
proof (cases k)
  case (Looking p pc)
  have "map_option (\<lambda>(pc, n). (Inl (Looking p pc), n)) (map_option (map_prod id (park ch c x)) r) =
      map_option (map_prod id (park ch c x)) (map_option (\<lambda>(pc, n). (Inl (Looking p pc), n)) r)" for r
    by (cases r) auto
  then show ?thesis
    by (simp add: Looking send_command_park lookup_turn_park call_gone_park park_effects Let_def split: pc.split prod.split bool.split)
next
  case (Acking p h ack)
  have "call_lost p h (park ch c x n) = map_prod id (park ch c x) (call_lost p h n)"
    by (cases p) (simp_all add: park_effects)
  then show ?thesis by (simp add: Acking)
qed

lemma drain_pending_park:
  "drain_pending h cid msgs (c', n) = (c'', n') \<Longrightarrow>
     drain_pending h cid msgs (c', park ch c x n) = (c'', park ch c x n')"
  by (induction msgs arbitrary: c' n) (auto simp: send_command_park)

lemma accepted_park:
  assumes "accepted k cid c (r, n) = (c', n')"
  shows "accepted k cid c (r, park ch c x n) = (c', park ch c x n')"
  using assms
  by (auto simp: accepted_def terminate_def socket_send_def park_effects Let_def intro: drain_pending_park split: option.splits)

lemma call_goes_on:
  assumes "call_turn Y S k n = Some (Inl k', n')"
  shows "server_step Y S Other (park ch c (Some k) n) (park ch c (Some k') n')"
proof -
  have "call_turn Y S k (park ch c (Some k) n) = Some (Inl k', park ch c (Some k) n')" by (simp add: call_turn_park assms)
  from goes_on [OF _ this, of "Socket ch"] show ?thesis by simp
qed

lemma looks_on:
  assumes "lookup_turn Y S (call_name p) pc n = Some (pc', n')"
  shows "server_step Y S Other (park ch c (Some (Looking p pc)) n) (park ch c (Some (Looking p pc')) n')"
  by (rule call_goes_on) (use assms in \<open>cases pc; simp\<close>)

text \<open>A lookup that nobody disturbs and whose lock is free, as a run.\<close>

lemma lookup_alone:
  assumes "get_document Y S (call_name p) n = (h, m)" and free: "\<And>l. (call_name p, l) \<notin> n_locked n"
    and q: "\<And>k k'. Q Other k k'"
  shows "serves Y S Q (park ch c (Some (Looking p Start)) n) (park ch c (Some (Looking p (Done h))) m)"
proof (cases "documents n (call_name p)")
  case (Some h')
  then have "h' = h" "m = n" using assms(1) by (simp_all add: get_document_def)
  then show ?thesis using Some by (intro serves_then [where Q = Q, OF stay looks_on q]) simp
next
  case None
  let ?nm = "call_name p"
  obtain l k where l: "lock_entry ?nm n = (l, k)" by fastforce
  obtain h' j where j: "spawn_document Y S ?nm k = (h', j)" by fastforce
  have hm: "h' = h" "m = j\<lparr>documents := (documents j)(?nm \<mapsto> h), n_creating := (n_creating j)(?nm := None)\<rparr>"
    using assms(1) None l j by (auto simp: get_document_def)
  let ?k1 = "k\<lparr>n_locked := insert (?nm, l) (n_locked k)\<rparr>"
  let ?j1 = "j\<lparr>n_locked := insert (?nm, l) (n_locked j)\<rparr>"
  let ?st = "\<lambda>pc n. park ch c (Some (Looking p pc)) n"
  have k: "documents k ?nm = None" "n_locked k = n_locked n" using l None by (auto simp: lock_entry_def split: option.splits)
  have "n_locked (snd (spawn_document Y S ?nm k)) = n_locked k" by (simp add: spawn_document_def Let_def)
  then have nl: "n_locked j = n_locked n" by (simp add: j k(2))
  have sp: "spawn_document Y S ?nm ?k1 = (h, ?j1)" using j hm(1) by (auto simp: spawn_document_def Let_def)
  have "serves Y S Q (?st Start n) (?st Missed n)" by (rule serves_then [where Q = Q, OF stay looks_on q]) (simp add: None)
  then have "serves Y S Q (?st Start n) (?st (Waiting l) k)" by (rule serves_then [where Q = Q, OF _ looks_on q]) (simp add: l)
  then have "serves Y S Q (?st Start n) (?st (Locked l) ?k1)" by (rule serves_then [where Q = Q, OF _ looks_on q]) (simp add: k free)
  then have "serves Y S Q (?st Start n) (?st (Spawning l) ?k1)" by (rule serves_then [where Q = Q, OF _ looks_on q]) (simp add: k)
  then have "serves Y S Q (?st Start n) (?st (Spawned l h) ?j1)" by (rule serves_then [where Q = Q, OF _ looks_on q]) (simp add: sp)
  then have "serves Y S Q (?st Start n) (?st (Inserted l h) (?j1\<lparr>documents := (documents ?j1)(?nm \<mapsto> h)\<rparr>))"
    by (rule serves_then [where Q = Q, OF _ looks_on q]) simp
  then have r: "serves Y S Q (?st Start n) (?st (Removed l h) (m\<lparr>n_locked := insert (?nm, l) (n_locked m)\<rparr>))"
    by (rule serves_then [where Q = Q, OF _ looks_on q]) (simp add: hm)
  have "m\<lparr>n_locked := insert (?nm, l) (n_locked m) - {(?nm, l)}\<rparr> = m" using free [of l] nl by (simp add: hm)
  then have "lookup_turn Y S ?nm (Removed l h) (m\<lparr>n_locked := insert (?nm, l) (n_locked m)\<rparr>) = Some (Done h, m)" by simp
  from serves_then [where Q = Q, OF r looks_on [OF this] q] show ?thesis .
qed

text \<open>The whole handler as a run, if the first attempt succeeds.\<close>

lemma handler_runs:
  assumes idle: "sockets n ch = Some c" "calls n (Socket ch) = None"
    and b: "frame_begin Y S data (c, n) = (c1, n1, Some conn)" and nm: "nm = fst (parse_routing_key (conn_address conn))"
    and free: "\<And>l. (nm, l) \<notin> n_locked n1" and g: "get_document Y S nm n1 = (h, m)"
    and sent: "send_command h (AddConnection conn (next_ack m)) (m\<lparr>next_ack := Suc (next_ack m)\<rparr>) = (True, m1)"
    and meanwhile: "serves Y S Q (park ch c1 (Some (Acking (Join 1 conn) h (next_ack m))) m1)
      (park ch c1 (Some (Acking (Join 1 conn) h (next_ack m))) m2)"
    and ack: "next_ack m \<in> n_acks m2" and q: "\<And>k k'. Q Other k k'"
    and res: "handle_frame Y S (\<lambda>_ _. (True, m2)) data (c, n) = (c', n')"
  shows "serves Y S Q n (park ch c' None n')"
proof -
  let ?p = "Join 1 conn"
  have begun: "server_step Y S Other n (park ch c1 (Some (Looking ?p Start)) n1)"
    using reads [OF idle b] by (simp add: park_def)
  have fin: "accepted (conn_address conn) (conn_id conn) c1 (Some h, m2) = (c', n')"
    using res b g sent by (simp add: handle_frame_cut nm numeral_2_eq_2)
  have "serves Y S Q n (park ch c1 (Some (Looking ?p (Done h))) m)"
    using serves_trans [OF lookup_alone serves_then [where Q = Q, OF stay begun q]] g free q by (simp add: nm)
  moreover have "server_step Y S Other (park ch c1 (Some (Looking ?p (Done h))) m) (park ch c1 (Some (Acking ?p h (next_ack m))) m1)"
    by (rule call_goes_on) (simp add: sent Let_def)
  ultimately have "serves Y S Q n (park ch c1 (Some (Acking ?p h (next_ack m))) m2)"
    using serves_trans [OF meanwhile serves_then] q by blast
  moreover have "server_step Y S Other (park ch c1 (Some (Acking ?p h (next_ack m))) m2) (park ch c' None n')"
    using joins [of "park ch c1 (Some (Acking ?p h (next_ack m))) m2" ch "Acking ?p h (next_ack m)" 1 conn c1 Y S "Some h", OF _ _ _ _
        accepted_park [OF fin, of ch "Some (Acking ?p h (next_ack m))"]] ack
    by simp
  ultimately show ?thesis using q by (rule serves_then)
qed

section \<open>What holds of the primitive effects holds of the handlers\<close>

text \<open>Between two await points the handlers of a connection change the shared state only through a few
  primitive effects. A relation that each of them keeps is kept by the handlers.\<close>

locale net_effects =
  fixes Y :: "('d, 'v, 'u, 'a, 'p) yrs" and S :: "('d, 'j, 'w) server"
    and R :: "('d, 'v, 'a, 'j, 'w) net \<Rightarrow> ('d, 'v, 'a, 'j, 'w) net \<Rightarrow> bool"
  assumes rel_refl: "R n n"
    and rel_trans: "R n m \<Longrightarrow> R m k \<Longrightarrow> R n k"
    and send: "R n (n\<lparr>n_chans := snd (chan_send ch msg (n_chans n))\<rparr>)"
    and command: "(\<And>conn ack. cmd \<noteq> AddConnection conn ack) \<Longrightarrow> R n (snd (send_command h cmd n))"
    and next_conn: "R n (n\<lparr>next_conn_id := j\<rparr>)"
    and connect_hooks: "run_until_err (map (\<lambda>e. on_connect e cp) (extensions S)) (cell, n_world n) = (r, cell', w) \<Longrightarrow> R n (n\<lparr>n_world := w\<rparr>)"
    and authenticate_hooks: "run_until_err (map (\<lambda>e. on_authenticate e ap) (extensions S)) (cell, n_world n) = (r, cell', w) \<Longrightarrow> R n (n\<lparr>n_world := w\<rparr>)"
begin

lemma socket_send: "R n (socket_send c m n)"
  by (simp add: socket_send_def send)

lemma deny: "R n (deny Y c k why n)"
  by (simp add: deny_def terminate_def Let_def rel_trans [OF socket_send socket_send])

lemma enqueue: "R n (snd (enqueue S k data (c, n)))"
  by (simp add: enqueue_def terminate_def Let_def rel_refl socket_send)

lemma accept: "accept_begin Y k cell pv (c, n) = (c', n', conn) \<Longrightarrow> R n n'"
  using rel_trans [OF socket_send next_conn] by (auto simp: accept_begin_def Let_def)

lemma authenticate:
  assumes "authenticate_begin Y S k data (c, n) = (c', n', conn)"
  shows "R n n'"
proof (cases "auth_fields (wire Y) data")
  case None
  then show ?thesis using assms by (simp add: authenticate_begin_def rel_refl)
next
  case (Some tp)
  obtain token pv where tp: "tp = (token, pv)" by fastforce
  let ?cell = "\<lparr>cell_context = context_new, cell_config = default_connection_config\<rparr>"
  let ?cp = "\<lparr>cp_document_name = fst (parse_routing_key k), cp_socket_id = socket_id c, cp_request = request c, cp_provider_version = pv\<rparr>"
  let ?ap = "\<lparr>ap_token = token, ap_document_name = fst (parse_routing_key k), ap_socket_id = socket_id c, ap_request = request c\<rparr>"
  obtain r cell w where c: "run_until_err (map (\<lambda>e. on_connect e ?cp) (extensions S)) (?cell, n_world n) = (r, cell, w)"
    by (metis prod_cases3)
  obtain r' cell' w' where a: "run_until_err (map (\<lambda>e. on_authenticate e ?ap) (extensions S)) (cell, w) = (r', cell', w')"
    by (metis prod_cases3)
  have w: "R n (n\<lparr>n_world := w\<rparr>)" by (rule connect_hooks [OF c])
  have "run_until_err (map (\<lambda>e. on_authenticate e ?ap) (extensions S)) (cell, n_world (n\<lparr>n_world := w\<rparr>)) = (r', cell', w')"
    using a by simp
  from authenticate_hooks [OF this] w have w': "R n (n\<lparr>n_world := w'\<rparr>)" using rel_trans by fastforce
  obtain c2 n2 conn2 where b: "accept_begin Y k cell' pv (c, n\<lparr>n_world := w'\<rparr>) = (c2, n2, conn2)" by (metis prod_cases3)
  show ?thesis
    using assms Some tp c a b rel_trans [OF w deny] rel_trans [OF w' deny] rel_trans [OF w' accept [OF b]]
    by (auto simp: authenticate_begin_def Let_def split: sum.splits)
qed

lemma frame:
  assumes "frame_begin Y S data (c, n) = (c', n', conn)"
  shows "R n n'"
proof -
  have "R n (snd (send_command h (ClientFrame cid data) n))" for h cid by (rule command) simp
  then show ?thesis
    using assms rel_refl enqueue authenticate
    by (auto simp: frame_begin_def Let_def split: if_splits sum.splits option.splits prod.splits) (metis snd_conv)+
qed

lemma drain: "R n m \<Longrightarrow> R n (snd (drain_pending h cid msgs (c, m)))"
proof (induction msgs arbitrary: c m)
  case (Cons msg msgs)
  have "R m (snd (send_command h (ClientFrame cid msg) m))" by (rule command) simp
  then show ?case using Cons rel_trans by auto
qed simp

lemma accepted: "accepted k cid c (r, n) = (c', n') \<Longrightarrow> R n n'"
  using drain [OF rel_refl, of n] socket_send
  by (auto simp: accepted_def terminate_def Let_def rel_refl split: option.splits) (metis snd_conv)

lemma cleanup: "R n (snd (cleanup (c, n)))"
proof -
  have "R n m \<Longrightarrow> R n (fold (\<lambda>(_, est) n. snd (send_command (est_doc est) (RemoveConnection (est_conn_id est)) n)) es m)" for es m
  proof (induction es arbitrary: m)
    case (Cons e es)
    have "R m (snd (send_command h (RemoveConnection i) m))" for h i by (rule command) simp
    then show ?case using Cons rel_trans by (cases e) fastforce
  qed simp
  from this [OF rel_refl] show ?thesis by (simp add: cleanup_def)
qed

lemma hear: "R n (subscriber_turn C i payload n)"
  by (auto simp: subscriber_turn_def rel_refl intro: command split: option.split)

end

section \<open>Waiting handlers\<close>

text \<open>The handle \<open>h\<close> has been given out, and the actor behind it, if it is still running, is that of the
  document \<open>nm\<close>.\<close>

definition named :: "('d, 'v, 'a, 'j, 'w) net \<Rightarrow> nat \<Rightarrow> string \<Rightarrow> bool" where
  "named n h nm \<longleftrightarrow> h < next_actor n \<and> (\<forall>a. actors n h = Some a \<longrightarrow> doc_name a = nm)"

text \<open>The handle a waiting handler has got, if any.\<close>

fun pc_handle :: "pc \<Rightarrow> nat option" where
  "pc_handle (Spawned l h) = Some h"
| "pc_handle (Inserted l h) = Some h"
| "pc_handle (Removed l h) = Some h"
| "pc_handle (Done h) = Some h"
| "pc_handle _ = None"

fun call_handle :: "'j call \<Rightarrow> nat option" where
  "call_handle (Looking p pc) = pc_handle pc"
| "call_handle (Acking p h ack) = Some h"

definition call_ok :: "('d, 'v, 'a, 'j, 'w) net \<Rightarrow> 'j call \<Rightarrow> bool" where
  "call_ok n k \<longleftrightarrow> (\<forall>h. call_handle k = Some h \<longrightarrow> named n h (call_name (purpose_of k)))"

text \<open>What a turn of a waiting handler is, and what it does.\<close>

lemma call_turn_cases:
  assumes "call_turn Y S k n = Some (r, n')"
  obtains (look) p pc pc' where "k = Looking p pc" "lookup_turn Y S (call_name p) pc n = Some (pc', n')" "r = Inl (Looking p pc')"
  | (sent) p h a where "k = Looking p (Done h)" "actors n h = Some a"
      "n' = snd (send_command h (call_command p (next_ack n)) (n\<lparr>next_ack := Suc (next_ack n)\<rparr>))" "r = Inl (Acking p h (next_ack n))"
  | (gone) p h where "k = Looking p (Done h)" "actors n h = None" "call_gone p (n\<lparr>next_ack := Suc (next_ack n)\<rparr>) = (r, n')"
  | (acked) p h ack where "k = Acking p h ack" "ack \<in> n_acks n" "r = Inr (Some h)" "n' = n"
  | (lost) p h ack where "k = Acking p h ack" "actors n h = None" "ack \<notin> n_acks n" "call_lost p h n = (r, n')"
proof (cases k)
  case (Looking p pc)
  show ?thesis
  proof (cases "\<exists>h. pc = Done h")
    case True
    then obtain h where h: "pc = Done h" by blast
    show ?thesis
    proof (cases "actors n h")
      case None
      then show ?thesis using assms gone [of p h] by (simp add: Looking h send_command_def Let_def)
    next
      case (Some a)
      then show ?thesis using assms sent [of p h a] by (simp add: Looking h send_command_def Let_def)
    qed
  next
    case False
    then have "map_option (\<lambda>(pc, n). (Inl (Looking p pc), n)) (lookup_turn Y S (call_name p) pc n) = Some (r, n')"
      using assms Looking by (cases pc) (simp_all del: lookup_turn.simps)
    then show ?thesis using look [of p pc] Looking by (auto simp del: lookup_turn.simps)
  qed
next
  case (Acking p h ack)
  then show ?thesis using assms acked [of p h ack] lost [of p h ack] by (auto split: if_splits)
qed

lemma call_gone_shape:
  "call_gone p n = (r, n') \<Longrightarrow> (n' = n \<or> n' = n\<lparr>documents := (documents n)(call_name p := None)\<rparr>) \<and>
     (\<forall>k. r = Inl k \<longrightarrow> (\<exists>i j conn. p = Join i conn \<and> k = Looking (Join j conn) Start)) \<and> (\<forall>h. r \<noteq> Inr (Some h))"
  by (cases p) (auto split: nat.splits)

text \<open>What lookups and waiting handlers do to the shared state, besides the primitive effects.\<close>

locale call_effects = net_effects Y S R
  for Y :: "('d, 'v, 'u, 'a, 'p) yrs" and S :: "('d, 'j, 'w) server"
    and R :: "('d, 'v, 'a, 'j, 'w) net \<Rightarrow> ('d, 'v, 'a, 'j, 'w) net \<Rightarrow> bool" +
  assumes forget: "R n (n\<lparr>documents := (documents n)(nm := None)\<rparr>)"
    and enter: "named n h nm \<Longrightarrow> R n (n\<lparr>documents := (documents n)(nm \<mapsto> h)\<rparr>)"
    and loads: "R n (snd (spawn_document Y S nm n))"
    and join: "named n h (fst (parse_routing_key (conn_address conn))) \<Longrightarrow> R n (snd (send_command h (AddConnection conn ack) n))"
    and next_ack: "R n (n\<lparr>next_ack := i\<rparr>)"
    and locks: "R n (n\<lparr>n_locked := ls\<rparr>)"
    and lock_entries: "R n (n\<lparr>n_creating := cr\<rparr>)" "R n (n\<lparr>n_creating := cr, next_lock := l\<rparr>)"
begin

lemma lookup:
  assumes "lookup_turn Y S nm pc n = Some (pc', n')" and "\<And>h. pc_handle pc = Some h \<Longrightarrow> named n h nm"
  shows "R n n'"
proof (cases pc)
  case Missed
  then show ?thesis using assms(1) by (auto simp: lock_entry_def rel_refl lock_entries split: option.splits)
next
  case (Spawning l)
  then show ?thesis using assms(1) loads [of n nm] by (auto split: prod.splits)
next
  case (Spawned l h)
  then show ?thesis using assms by (auto intro: enter)
qed (use assms(1) in \<open>auto simp: rel_refl locks lock_entries split: option.splits if_splits\<close>)

lemma call:
  assumes "call_turn Y S k n = Some (r, n')" and "call_ok n k"
  shows "R n n'"
  using assms(1)
proof (cases rule: call_turn_cases)
  case (look p pc pc')
  then show ?thesis using assms(2) by (intro lookup) (auto simp: call_ok_def)
next
  case (sent p h a)
  let ?n = "n\<lparr>next_ack := Suc (next_ack n)\<rparr>"
  have "named ?n h (call_name p)" using assms(2) sent(1) by (simp add: call_ok_def named_def)
  then have "R ?n (snd (send_command h (call_command p ack) ?n))" for ack
    by (cases p) (auto intro: join command)
  then show ?thesis unfolding sent(3) by (rule rel_trans [OF next_ack])
next
  case (gone p h)
  then show ?thesis using call_gone_shape [OF gone(3)] next_ack rel_trans [OF next_ack forget] by auto
next
  case (acked p h ack)
  then show ?thesis by (simp add: rel_refl)
next
  case (lost p h ack)
  then show ?thesis
    using call_gone_shape [of p n r n'] by (cases p) (auto simp del: call_gone.simps intro: rel_refl forget)
qed

end

section \<open>Relations kept by every run\<close>

text \<open>A relation that the steps of sockets, waiting handlers, writers and actors keep besides the primitive
  effects holds between the ends of every run.\<close>

locale server_effects = net_effects Y S R
  for Y :: "('d, 'v, 'u, 'a, 'p) yrs" and S :: "('d, 'j, 'w) server"
    and R :: "('d, 'v, 'a, 'j, 'w) net \<Rightarrow> ('d, 'v, 'a, 'j, 'w) net \<Rightarrow> bool" +
  fixes Q :: "label \<Rightarrow> ('d, 'v, 'a, 'j, 'w) net \<Rightarrow> ('d, 'v, 'a, 'j, 'w) net \<Rightarrow> bool"
  assumes upgrade_accepted: "R n (n\<lparr>upgrades := us\<rparr>)"
    and socket_opens: "sockets n ch = None \<Longrightarrow> n_chans n ch = new_chan S \<Longrightarrow>
      open_socket S ch meta n = (c, n') \<Longrightarrow> R n (n'\<lparr>upgrades := us, sockets := (sockets n')(ch \<mapsto> c)\<rparr>)"
    and socket_reads: "sockets n ch = Some c \<Longrightarrow> calls n (Socket ch) = None \<Longrightarrow> frame_begin Y S data (c, n) = (c', n', x) \<Longrightarrow>
      R n (n'\<lparr>sockets := (sockets n')(ch \<mapsto> c'),
          calls := (calls n')(Socket ch := map_option (\<lambda>conn. Looking (Join 1 conn) Start) x)\<rparr>)"
    and call_continues: "calls n t = Some k \<Longrightarrow> call_turn Y S k n = Some (Inl k', n') \<Longrightarrow> R n (n'\<lparr>calls := (calls n')(t \<mapsto> k')\<rparr>)"
    and socket_joins: "calls n (Socket ch) = Some k \<Longrightarrow> purpose_of k = Join i conn \<Longrightarrow> sockets n ch = Some c \<Longrightarrow>
      call_turn Y S k n = Some (Inr r, n') \<Longrightarrow> accepted (conn_address conn) (conn_id conn) c (r, n') = (c', n'') \<Longrightarrow>
      R n (n''\<lparr>sockets := (sockets n'')(ch \<mapsto> c'), calls := (calls n'')(Socket ch := None)\<rparr>)"
    and job_starts: "calls n (Job j) = None \<Longrightarrow> R n (n\<lparr>calls := (calls n)(Job j \<mapsto> Looking (Edit nm u) Start)\<rparr>)"
    and job_ends: "calls n (Job j) = Some k \<Longrightarrow> call_turn Y S k n = Some (Inr r, n') \<Longrightarrow> R n (n'\<lparr>calls := (calls n')(Job j := None)\<rparr>)"
    and socket_closes: "sockets n ch = Some c \<Longrightarrow> calls n (Socket ch) = None \<Longrightarrow> socket_turn Y S wait ev (c, n) = (False, c', n') \<Longrightarrow>
      end_socket (c', n') = (c'', n'') \<Longrightarrow> R n (n''\<lparr>sockets := (sockets n'')(ch := None)\<rparr>)"
    and writer_writes: "writer_turn ok (n_chans n ch) = (msg, d) \<Longrightarrow>
      Q (Wrote ch msg) n (n\<lparr>n_chans := (n_chans n)(ch := d)\<rparr>) \<Longrightarrow> R n (n\<lparr>n_chans := (n_chans n)(ch := d)\<rparr>)"
    and actor_acts: "actors n h = Some a \<Longrightarrow> actor_turn Y S (attach n a) exit s' \<Longrightarrow>
      Q (Acted h exit) n (detach h exit s' n) \<Longrightarrow> R n (detach h exit s' n)"
    and replies_leave: "R n (n\<lparr>n_replies := fs\<rparr>)"
    and time_passes: "R n (n\<lparr>n_clock := n_clock n + dt\<rparr>)"
    and extensions_work: "Q Outside n (n\<lparr>n_world := w\<rparr>) \<Longrightarrow> R n (n\<lparr>n_world := w\<rparr>)"
begin

lemma every_step: "server_step Y S l n n' \<Longrightarrow> Q l n n' \<Longrightarrow> R n n'"
  by (induction rule: server_step.induct)
    (assumption | rule upgrade_accepted hear replies_leave time_passes extensions_work writer_writes actor_acts job_starts |
     erule (2) socket_opens socket_reads | erule (1) call_continues job_ends | erule (4) socket_joins | erule (3) socket_closes)+

lemma every_run: "serves Y S Q n n' \<Longrightarrow> R n n'"
  by (induction rule: serves.induct) (blast intro: rel_refl rel_trans every_step)+

end

end
