(* ===== verification/System_Demo.thy ===== *)
theory System_Demo
  imports System
begin

text \<open>
  A short run of the server, used by the witnesses of the properties of runs: a request is upgraded, its
  socket opens, the client authenticates for the document \<open>doc\<close>, which is loaded, and its connection is
  registered. Along the way the theory proves that the handlers of theory \<open>Server\<close> are runs,
  that a programmatic edit loads its document, and that a burst of requests overruns the connection limit.
\<close>

section \<open>Handlers are runs\<close>

text \<open>The handlers and the interleaving steps agree. Suppose the handler of a frame gets to the
  registration of a connection, nobody holds the lock of the document, and the lookup is not interrupted. Cut at its await points it makes
  a run of the server: looking the document up, sending the connection to its actor, waiting while the rest
  of the server makes any run that ends with the acknowledgement sent, and going on. The state in which
  this run ends is the one the uninterrupted handler \<open>handle_frame\<close> computes, given what happened while it waited.\<close>

theorem handler_is_run:
  assumes "sockets n ch = Some c" and "calls n (Socket ch) = None"
    and "frame_begin Y S data (c, n) = (c1, n1, Some conn)"
    and "\<forall>l. (fst (parse_routing_key (conn_address conn)), l) \<notin> n_locked n1"
    and "get_document Y S (fst (parse_routing_key (conn_address conn))) n1 = (h, m)"
    and "send_command h (AddConnection conn (next_ack m)) (m\<lparr>next_ack := Suc (next_ack m)\<rparr>) = (True, m1)"
    and "serves Y S any_step (park ch c1 (Some (Acking (Join 1 conn) h (next_ack m))) m1)
      (park ch c1 (Some (Acking (Join 1 conn) h (next_ack m))) m2)"
    and "next_ack m \<in> n_acks m2"
    and "handle_frame Y S (\<lambda>_ _. (True, m2)) data (c, n) = (c', n')"
  shows "serves Y S any_step n (park ch c' None n')"
  using handler_runs [OF assms(1-3) refl _ assms(5-8) _ assms(9)] assms(4) by simp

section \<open>Programmatic edits that load a document\<close>

text \<open>The server with programmatic edits that are looking their document up, the first one holding the lock.\<close>

definition jobs_net ::
    "('d, 'j, 'w) server \<Rightarrow> instant \<Rightarrow> 'w \<Rightarrow> string \<Rightarrow> (caller \<rightharpoonup> 'j call) \<Rightarrow> ('d, 'v, 'a, 'j, 'w) net" where
  "jobs_net S now w nm cs = (server_start S now w)\<lparr>calls := cs, n_creating := [nm \<mapsto> 0], next_lock := 1, n_locked := {(nm, 0)}\<rparr>"

lemma job_looks:
  assumes "lookup_turn Y S nm pc n = Some (pc', n')" and "calls n (Job j) = Some (Looking (Edit nm u) pc)"
  shows "server_step Y S Other n (n'\<lparr>calls := (calls n')(Job j \<mapsto> Looking (Edit nm u) pc')\<rparr>)"
  by (rule goes_on [OF assms(2)]) (use assms(1) in \<open>cases pc; simp\<close>)

lemma job_locks:
  fixes Y :: "('d, 'v, 'u, 'a, 'p) yrs" and S :: "('d, 'j, 'w) server"
  assumes q: "\<And>k k'. Q Other k k'"
  shows "serves Y S Q (server_start S now w) (jobs_net S now w nm [Job 0 \<mapsto> Looking (Edit nm u) (Locked 0)])"
proof -
  let ?s = "server_start S now w :: ('d, 'v, 'a, 'j, 'w) net"
  let ?n = "\<lambda>pc. ?s\<lparr>calls := [Job 0 \<mapsto> Looking (Edit nm u) pc]\<rparr>"
  let ?l = "\<lambda>pc. (?n pc)\<lparr>n_creating := [nm \<mapsto> 0], next_lock := 1\<rparr>"
  note on_then = serves_then [where Q = Q, OF _ _ q]
  have "server_step Y S Other ?s (?n Start)"
    using edit_starts [of ?s 0 Y S nm u] by (simp add: server_start_def)
  from on_then [OF stay this] have "serves Y S Q ?s (?n Start)" .
  moreover have "server_step Y S Other (?n Start) (?n Missed)"
    using job_looks [of Y S nm Start "?n Start" Missed "?n Start" 0 u] by (simp add: server_start_def)
  ultimately have "serves Y S Q ?s (?n Missed)" by (rule on_then)
  moreover have "server_step Y S Other (?n Missed) (?l (Waiting 0))"
    using job_looks [of Y S nm Missed "?n Missed" "Waiting 0" "?l Missed" 0 u] by (simp add: server_start_def lock_entry_def)
  ultimately have "serves Y S Q ?s (?l (Waiting 0))" by (rule on_then)
  moreover have "server_step Y S Other (?l (Waiting 0)) (jobs_net S now w nm [Job 0 \<mapsto> Looking (Edit nm u) (Locked 0)])"
    using job_looks [of Y S nm "Waiting 0" "?l (Waiting 0)" "Locked 0" "(?l (Waiting 0))\<lparr>n_locked := {(nm, 0)}\<rparr>" 0 u]
    by (simp add: server_start_def jobs_net_def)
  ultimately show ?thesis by (rule on_then)
qed

text \<open>The document is in memory, and the registry does not have it yet.\<close>

definition loaded_start ::
    "('d, 'v, 'u, 'a, 'p) yrs \<Rightarrow> ('d, 'j, 'w) server \<Rightarrow> instant \<Rightarrow> 'w \<Rightarrow> string \<Rightarrow> bytes \<Rightarrow> ('d, 'v, 'a, 'j, 'w) net" where
  "loaded_start Y S now w nm u =
     snd (spawn_document Y S nm (jobs_net S now w nm [Job 0 \<mapsto> Looking (Edit nm u) (Spawned 0 0)]))"

lemma job_loads:
  fixes Y :: "('d, 'v, 'u, 'a, 'p) yrs" and S :: "('d, 'j, 'w) server"
  assumes q: "\<And>k k'. Q Other k k'"
  shows "serves Y S Q (server_start S now w) (loaded_start Y S now w nm u)"
proof -
  let ?k = "\<lambda>pc. jobs_net S now w nm [Job 0 \<mapsto> Looking (Edit nm u) pc] :: ('d, 'v, 'a, 'j, 'w) net"
  note on_then = serves_then [where Q = Q, OF _ _ q]
  have "server_step Y S Other (?k (Locked 0)) (?k (Spawning 0))"
    using job_looks [of Y S nm "Locked 0" "?k (Locked 0)" "Spawning 0" "?k (Locked 0)" 0 u] by (simp add: jobs_net_def server_start_def)
  from on_then [OF job_locks [where Q = Q, OF q] this] have "serves Y S Q (server_start S now w) (?k (Spawning 0))" .
  moreover have "server_step Y S Other (?k (Spawning 0)) (loaded_start Y S now w nm u)"
    using job_looks [of Y S nm "Spawning 0" "?k (Spawning 0)" "Spawned 0 0" "snd (spawn_document Y S nm (?k (Spawning 0)))" 0 u]
    by (simp add: jobs_net_def loaded_start_def server_start_def spawn_document_def Let_def)
  ultimately show ?thesis by (rule on_then)
qed

lemma loaded_start_actor:
  "actors (loaded_start Y S now w nm u) = [0 \<mapsto> spawn Y S nm (\<lambda>_. new_chan S) now Map.empty w]"
  "n_world (loaded_start Y S now w nm u) = world (spawn Y S nm (\<lambda>_. new_chan S) now Map.empty w)"
  by (simp_all add: loaded_start_def jobs_net_def server_start_def spawn_document_def Let_def)

section \<open>The limit on connections\<close>

text \<open>Requests that are let in, and the sockets that open for them.\<close>

lemma requests_pile_up:
  assumes "collect_request hs query remote = Some meta" and "max_connections (config S) > active_connections n"
  shows "serves Y S any_step n (n\<lparr>upgrades := upgrades n @ replicate k meta\<rparr>)"
proof (induction k)
  case 0
  then show ?case by (simp add: stay)
next
  case (Suc k)
  let ?n = "n\<lparr>upgrades := upgrades n @ replicate k meta\<rparr>"
  have "ws_handler S hs query remote True ?n = Some (Upgrade meta)" using assms by (simp add: ws_handler_def)
  from serves_then [OF Suc upgrades [OF this]] show ?case by (simp add: replicate_append_same)
qed

lemma sockets_open:
  assumes "upgrades n = replicate k meta" and "\<forall>ch \<ge> j. sockets n ch = None \<and> n_chans n ch = new_chan S"
  shows "\<exists>n'. serves Y S any_step n n' \<and> active_connections n' = active_connections n + k"
  using assms
proof (induction k arbitrary: n j)
  case 0
  then show ?case using stay by fastforce
next
  case (Suc k)
  obtain c m where o: "open_socket S j meta n = (c, m)" by fastforce
  let ?m = "m\<lparr>upgrades := [] @ replicate k meta, sockets := (sockets m)(j \<mapsto> c)\<rparr>"
  have step: "server_step Y S Other n ?m"
    by (rule opens [OF _ _ _ o]) (use Suc.prems in simp_all)
  have m: "active_connections ?m = Suc (active_connections n)" "\<forall>ch \<ge> Suc j. sockets ?m ch = None \<and> n_chans ?m ch = new_chan S"
    using Suc.prems(2) o by (auto simp: open_socket_def Let_def)
  have "upgrades ?m = replicate k meta" by simp
  from Suc.IH [OF this m(2)] obtain n' where n': "serves Y S any_step ?m n'" "active_connections n' = active_connections ?m + k"
    by blast
  moreover have "serves Y S any_step n ?m" by (rule serves_then [OF stay step]) simp
  ultimately show ?case using m serves_trans by fastforce
qed

text \<open>C36: The limit on connections can be overrun by any number. \<open>ws_handler\<close> compares the count of open
  sockets with the limit, and \<open>handle_socket\<close> increments it later, once the upgrade is complete. In a burst of
  requests that are all checked before the first socket opens, every one is let in: whatever the limit
  is, the server can reach a state in which the count exceeds it by \<open>k\<close>, for every \<open>k\<close>.\<close>

theorem connection_limit_overrun:
  fixes Y :: "('d, 'v, 'u, 'a, 'p) yrs" and S :: "('d, 'j, 'w) server"
  assumes "collect_request hs query remote = Some meta" and "0 < max_connections (config S)"
  shows "\<exists>n. serves Y S any_step (server_start S now w) n \<and> active_connections n = max_connections (config S) + k"
proof -
  let ?n = "server_start S now w :: ('d, 'v, 'a, 'j, 'w) net"
  let ?m = "?n\<lparr>upgrades := upgrades ?n @ replicate (max_connections (config S) + k) meta\<rparr>"
  have "serves Y S any_step ?n ?m" by (rule requests_pile_up [OF assms(1)]) (use assms(2) in \<open>simp add: server_start_def\<close>)
  moreover obtain n' where "serves Y S any_step ?m n'" "active_connections n' = active_connections ?m + (max_connections (config S) + k)"
    using sockets_open [of ?m "max_connections (config S) + k" meta 0 S Y] by (fastforce simp: server_start_def)
  moreover have "active_connections ?m = 0" by (simp add: server_start_def)
  ultimately show ?thesis using serves_trans by fastforce
qed

theorem connection_limit_overrun_witness:
  "\<exists>n. serves opset small_server any_step (server_start small_server 0 ()) n \<and> active_connections n = 2 + 7"
proof -
  have "collect_request [] None ''::1'' = Some (default_request_meta\<lparr>remote_ip := Some ''::1''\<rparr>)"
    by (simp add: collect_request_def collect_headers_def default_request_meta_def)
  from connection_limit_overrun [OF this, of small_server opset 0 "()" 7] show ?thesis by (simp add: small_server_def)
qed

section \<open>The run\<close>

definition demo_meta :: request_meta where
  "demo_meta = default_request_meta\<lparr>headers := Map.empty, remote_ip := Some ''::1''\<rparr>"

definition opened_client :: client_connection where
  "opened_client = client_new (''ws-'' @ show_nat 1) 0 demo_meta 5"

definition opened_net :: "(bytes, bytes, u64 list, string, unit) net" where
  "opened_net = (server_start demo_server 5 ())\<lparr>active_connections := 1, next_socket_id := 2, sockets := [0 \<mapsto> opened_client]\<rparr>"

definition demo_join :: "string conn_handle" where
  "demo_join = \<lparr>conn_id = 1, outbound = 0, conn_address = ''doc'', conn_read_only = False,
     conn_socket_id = ''ws-'' @ show_nat 1, conn_session_id = None,
     conn_cell = \<lparr>cell_context = context_new, cell_config = set_authenticated True default_connection_config\<rparr>,
     conn_request = demo_meta, conn_provider_version = None, client_ids = []\<rparr>"

definition auth_reply :: bytes where
  "auth_reply = into_bytes (out_authenticated (wire opset) False (out_new (wire opset) ''doc''))"

text \<open>The stations of the handler: the client is accepted, the document is loaded and has the connection
  in its mailbox, the actor has taken it.\<close>

definition welcomed_client :: client_connection where
  "welcomed_client = opened_client\<lparr>authenticated := True\<rparr>"

definition welcomed_net :: "(bytes, bytes, u64 list, string, unit) net" where
  "welcomed_net = opened_net\<lparr>n_chans := snd (chan_send 0 (Frame auth_reply) (n_chans opened_net)), next_conn_id := 2\<rparr>"

definition loaded_net :: "(bytes, bytes, u64 list, string, unit) net" where
  "loaded_net = snd (get_document opset demo_server ''doc'' welcomed_net)"

definition doc_actor :: "(bytes, bytes, u64 list, string, unit) document" where
  "doc_actor = spawn opset demo_server ''doc'' (n_chans welcomed_net) 5 Map.empty ()"

definition asked_net :: "(bytes, bytes, u64 list, string, unit) net" where
  "asked_net = loaded_net\<lparr>next_ack := 1, actors := [0 \<mapsto> doc_actor\<lparr>rx := [AddConnection demo_join 0]\<rparr>]\<rparr>"

definition acked_doc :: "(bytes, bytes, u64 list, string, unit) document" where
  "acked_doc = doc_actor\<lparr>connections := [(1, demo_join)], acks := [0], registry := [''doc'' \<mapsto> 0]\<rparr>"

definition acked_net :: "(bytes, bytes, u64 list, string, unit) net" where
  "acked_net = detach 0 False acked_doc asked_net"

definition joined_client :: client_connection where
  "joined_client = welcomed_client\<lparr>establisheds := [(''doc'', \<lparr>est_doc = 0, est_conn_id = 1\<rparr>)]\<rparr>"

definition joined_net :: "(bytes, bytes, u64 list, string, unit) net" where
  "joined_net = park 0 joined_client None acked_net"

text \<open>The steps of the run: no actor ends, and only the document's actor takes a turn.\<close>

definition demo_steps :: "label \<Rightarrow> ('d, 'v, 'a, 'j, 'w) net \<Rightarrow> ('d, 'v, 'a, 'j, 'w) net \<Rightarrow> bool" where
  "demo_steps l n n' \<longleftrightarrow> l = Other \<or> l = Acted 0 False"

lemma demo_steps_other: "demo_steps Other n n'"
  by (simp add: demo_steps_def)

lemma serves_opened: "serves opset demo_server demo_steps (server_start demo_server 5 ()) opened_net"
proof -
  let ?n = "server_start demo_server 5 () :: (bytes, bytes, u64 list, string, unit) net"
  have "ws_handler demo_server [] None ''::1'' True ?n = Some (Upgrade demo_meta)"
    by (simp add: ws_handler_def collect_request_def collect_headers_def demo_meta_def default_configuration_def server_start_def)
  then have 1: "server_step opset demo_server Other ?n (?n\<lparr>upgrades := upgrades ?n @ [demo_meta]\<rparr>)" by (rule upgrades)
  let ?m = "?n\<lparr>upgrades := [demo_meta]\<rparr>"
  have "open_socket demo_server 0 demo_meta ?m =
      (opened_client, ?m\<lparr>active_connections := 1, next_socket_id := 2\<rparr>)"
    by (simp add: open_socket_def server_start_def opened_client_def new_chan_def fun_upd_idem Let_def)
  from opens [OF _ _ _ this, of "[]" "[]" opset]
  have "server_step opset demo_server Other ?m opened_net"
    by (simp add: server_start_def opened_net_def)
  with 1 show ?thesis by (intro serves_then [OF serves_then [OF stay]]) (simp_all add: server_start_def demo_steps_other)
qed

lemma doc_key: "parse_routing_key ''doc'' = (''doc'', None)"
  by (simp add: parse_routing_key_def nul_def)

lemma doc_prefix_long: "3 \<le> length (enc_string lib0 ''doc'')"
  by (simp add: lib0_def blob_enc_def)

lemma token_frame_begin: "frame_begin opset demo_server token_frame (opened_client, opened_net) = (welcomed_client, welcomed_net, Some demo_join)"
proof -
  have p: "parse lib0 token_frame = Inr \<lparr>routing_key = ''doc'', message_type = Auth,
      decoder = enc_var lib0 (auth_code Token) @ enc_string lib0 ''secret''\<rparr>"
    unfolding token_frame_def by (rule l0.parse_frame [OF _ from_u64_type_code]) simp
  have len: "length token_frame \<noteq> Suc 0" using doc_prefix_long by (simp add: token_frame_def)
  have w: "wire opset = lib0" by (simp add: opset_def)
  show ?thesis
    using p len token_frame_fields unfolding w
    by (simp add: frame_begin_def authenticate_begin_def accept_begin_def w doc_key opened_client_def client_new_def opened_net_def
        server_start_def welcomed_client_def welcomed_net_def demo_join_def auth_reply_def socket_send_def
        default_connection_config_def set_authenticated_def Let_def)
qed

lemma loaded_net_eq: "get_document opset demo_server ''doc'' welcomed_net = (0, loaded_net)"
  "loaded_net = welcomed_net\<lparr>actors := [0 \<mapsto> doc_actor], documents := [''doc'' \<mapsto> 0], next_actor := 1, next_lock := 1\<rparr>"
  by (simp_all add: loaded_net_def get_document_miss welcomed_net_def opened_net_def server_start_def doc_actor_def)

lemma doc_actor_turn: "actor_turn opset demo_server (attach asked_net (doc_actor\<lparr>rx := [AddConnection demo_join 0]\<rparr>)) False acked_doc"
  by (rule turn_commands)
    (simp_all add: attach_def asked_net_def loaded_net_eq(2) doc_actor_def spawn_def acked_doc_def welcomed_net_def opened_net_def
      server_start_def on_commands_def handle_command_def add_connection_def awareness_has_states_def opset_def
      flush_broadcast_def demo_join_def Let_def)

lemma joined_frame: "handle_frame opset demo_server (\<lambda>_ _. (True, acked_net)) token_frame (opened_client, opened_net) = (joined_client, acked_net)"
  by (simp add: handle_frame_cut token_frame_begin numeral_2_eq_2 loaded_net_eq)
    (simp add: demo_join_def doc_key send_command_def loaded_net_eq accepted_def joined_client_def welcomed_client_def opened_client_def client_new_def)

lemma asked_net_eq: "send_command 0 (AddConnection demo_join (next_ack loaded_net)) (loaded_net\<lparr>next_ack := Suc (next_ack loaded_net)\<rparr>) = (True, asked_net)"
  by (simp add: asked_net_def send_command_def loaded_net_eq welcomed_net_def opened_net_def server_start_def doc_actor_def spawn_def
      opset_def Let_def)

lemma joined_conditions:
  "sockets opened_net 0 = Some opened_client" "calls opened_net (Socket 0) = None" "(nm, l) \<notin> n_locked welcomed_net"
  "next_ack loaded_net = 0" "next_ack loaded_net \<in> n_acks acked_net"
  by (simp_all add: loaded_net_eq welcomed_net_def opened_net_def server_start_def acked_net_def detach_def acked_doc_def)

lemma demo_waits:
  "serves opset demo_server demo_steps (park 0 welcomed_client (Some (Acking (Join 1 demo_join) 0 i)) asked_net)
     (park 0 welcomed_client (Some (Acking (Join 1 demo_join) 0 i)) acked_net)"
proof -
  let ?k = "Some (Acking (Join 1 demo_join) 0 i)"
  have a: "actors asked_net 0 = Some (doc_actor\<lparr>rx := [AddConnection demo_join 0]\<rparr>)" by (simp add: asked_net_def)
  have "attach (park ch c x n) d = attach n d" "detach h e d (park ch c x n) = park ch c x (detach h e d n)" for ch c x h e
    and n :: "(bytes, bytes, u64 list, string, unit) net" and d
    by (simp_all add: attach_def detach_def park_def)
  then have "server_step opset demo_server (Acted 0 False) (park 0 welcomed_client ?k asked_net) (park 0 welcomed_client ?k acked_net)"
    using acts [of "park 0 welcomed_client ?k asked_net" 0 _ opset demo_server False acked_doc] a doc_actor_turn
    by (simp add: acked_net_def)
  then show ?thesis by (rule on [OF stay]) (simp add: demo_steps_def)
qed

lemma demo_join_name: "fst (parse_routing_key (conn_address demo_join)) = ''doc''"
  by (simp add: demo_join_def doc_key)

lemma serves_joined_steps: "serves opset demo_server demo_steps (server_start demo_server 5 ()) joined_net"
  unfolding joined_net_def
  by (rule serves_trans [OF handler_runs [OF joined_conditions(1,2) token_frame_begin refl, unfolded demo_join_name,
        OF joined_conditions(3) loaded_net_eq(1) asked_net_eq demo_waits joined_conditions(5) demo_steps_other joined_frame] serves_opened])

lemma serves_joined: "serves opset demo_server any_step (server_start demo_server 5 ()) joined_net"
  by (rule serves_mono [OF serves_joined_steps]) simp

theorem handler_is_run_witness: "serves opset demo_server any_step opened_net (park 0 joined_client None acked_net)"
  using handler_is_run [OF joined_conditions(1,2) token_frame_begin, unfolded demo_join_name, OF _ loaded_net_eq(1) asked_net_eq
      serves_mono [OF demo_waits] joined_conditions(5) joined_frame] joined_conditions(3) by simp

text \<open>What the run has established.\<close>

lemma joined_facts:
  "sockets joined_net 0 = Some joined_client" "map_of (establisheds joined_client) ''doc'' = Some \<lparr>est_doc = 0, est_conn_id = 1\<rparr>"
  "actors joined_net 0 = Some (acked_doc\<lparr>replies := []\<rparr>)" "calls joined_net (Socket 0) = None" "doc_name acked_doc = ''doc''"
  by (simp_all add: joined_net_def joined_client_def acked_net_def detach_def acked_doc_def doc_actor_def spawn_def Let_def opset_def)

end
