(* ===== verification/System_Inv.thy ===== *)
theory System_Inv
  imports System_Demo
begin

text \<open>
  The server's tables stay consistent in every run: handles are never reused, the registry, the
  established routes of the sockets and the connections of the actors always belong to the document
  their name or routing key says, every actor keeps its bookkeeping invariant, the waiting queues and the
  outbound channels keep their bounds, and the count of open sockets is exact.
\<close>

section \<open>Consistency\<close>

definition actor_ok :: "instant \<Rightarrow> ('d, 'v, 'a, 'j, 'w) document \<Rightarrow> bool" where
  "actor_ok now a \<longleftrightarrow> actor_inv (a\<lparr>clock := now\<rparr>) \<and> (\<forall>k \<in> addresses a. fst (parse_routing_key k) = doc_name a)"

definition actors_ok :: "('d, 'v, 'a, 'j, 'w) net \<Rightarrow> bool" where
  "actors_ok n \<longleftrightarrow> (\<forall>h a. actors n h = Some a \<longrightarrow> h < next_actor n \<and> actor_ok (n_clock n) a)"

definition registry_ok :: "('d, 'v, 'a, 'j, 'w) net \<Rightarrow> bool" where
  "registry_ok n \<longleftrightarrow> (\<forall>nm h. documents n nm = Some h \<longrightarrow> named n h nm)"

definition routes_ok :: "('d, 'v, 'a, 'j, 'w) net \<Rightarrow> client_connection \<Rightarrow> bool" where
  "routes_ok n c \<longleftrightarrow> (\<forall>ke \<in> set (establisheds c). named n (est_doc (snd ke)) (fst (parse_routing_key (fst ke))))"

definition sockets_ok :: "('d, 'j, 'w) server \<Rightarrow> ('d, 'v, 'a, 'j, 'w) net \<Rightarrow> bool" where
  "sockets_ok S n \<longleftrightarrow> (\<forall>ch c. sockets n ch = Some c \<longrightarrow> queue_ok (config S) c \<and> routes_ok n c)"

definition count_ok :: "('d, 'v, 'a, 'j, 'w) net \<Rightarrow> bool" where
  "count_ok n \<longleftrightarrow> finite (dom (sockets n)) \<and> active_connections n = card (dom (sockets n))"

text \<open>Socket tasks register connections, all others apply edits.\<close>

fun suits :: "caller \<Rightarrow> 'j purpose \<Rightarrow> bool" where
  "suits (Socket ch) (Join i conn) = True"
| "suits (Job j) (Edit nm u) = True"
| "suits _ _ = False"

definition calls_ok :: "('d, 'v, 'a, 'j, 'w) net \<Rightarrow> bool" where
  "calls_ok n \<longleftrightarrow> (\<forall>t k. calls n t = Some k \<longrightarrow> call_ok n k \<and> suits t (purpose_of k)) \<and>
     (\<forall>ch. sockets n ch = None \<longrightarrow> calls n (Socket ch) = None)"

definition net_ok :: "('d, 'j, 'w) server \<Rightarrow> ('d, 'v, 'a, 'j, 'w) net \<Rightarrow> bool" where
  "net_ok S n \<longleftrightarrow> actors_ok n \<and> registry_ok n \<and> sockets_ok S n \<and> calls_ok n \<and> count_ok n \<and> queues_bounded (n_chans n)"

text \<open>Handles are not reused and documents keep their names.\<close>

definition persists :: "('d, 'v, 'a, 'j, 'w) net \<Rightarrow> ('d, 'v, 'a, 'j, 'w) net \<Rightarrow> bool" where
  "persists n n' \<longleftrightarrow> next_actor n \<le> next_actor n' \<and>
     (\<forall>h < next_actor n. \<forall>a'. actors n' h = Some a' \<longrightarrow> (\<exists>a. actors n h = Some a \<and> doc_name a' = doc_name a))"

definition preserves :: "('d, 'j, 'w) server \<Rightarrow> ('d, 'v, 'a, 'j, 'w) net \<Rightarrow> ('d, 'v, 'a, 'j, 'w) net \<Rightarrow> bool" where
  "preserves S n n' \<longleftrightarrow> (net_ok S n \<longrightarrow> net_ok S n' \<and> persists n n')"

text \<open>A step that leaves the two tables of tasks alone.\<close>

definition quietly :: "('d, 'j, 'w) server \<Rightarrow> ('d, 'v, 'a, 'j, 'w) net \<Rightarrow> ('d, 'v, 'a, 'j, 'w) net \<Rightarrow> bool" where
  "quietly S n n' \<longleftrightarrow> preserves S n n' \<and> sockets n' = sockets n \<and> calls n' = calls n"

lemma persists_named: "persists n n' \<Longrightarrow> named n h nm \<Longrightarrow> named n' h nm"
  by (fastforce simp: persists_def named_def)

lemma persists_routes: "persists n n' \<Longrightarrow> routes_ok n c \<Longrightarrow> routes_ok n' c"
  using persists_named by (fastforce simp: routes_ok_def)

lemma persists_call: "persists n n' \<Longrightarrow> call_ok n k \<Longrightarrow> call_ok n' k"
  using persists_named by (fastforce simp: call_ok_def)

lemma persistsD:
  assumes "persists n n'"
  shows "next_actor n \<le> next_actor n'"
    and "h < next_actor n \<Longrightarrow> actors n' h = Some a' \<Longrightarrow> \<exists>a. actors n h = Some a \<and> doc_name a' = doc_name a"
  using assms by (simp_all add: persists_def)

lemma persists_trans:
  assumes "persists a b" and "persists b c"
  shows "persists a c"
proof -
  have "\<exists>x. actors a h = Some x \<and> doc_name z = doc_name x" if h: "h < next_actor a" "actors c h = Some z" for h z
  proof -
    obtain y where "actors b h = Some y" "doc_name z = doc_name y"
      using persistsD(2) [OF assms(2) _ h(2)] persistsD(1) [OF assms(1)] h(1) by fastforce
    then show ?thesis using persistsD(2) [OF assms(1) h(1)] by fastforce
  qed
  then show ?thesis using persistsD(1) [OF assms(1)] persistsD(1) [OF assms(2)] by (simp add: persists_def)
qed

lemma map_leD: "m \<subseteq>\<^sub>m m' \<Longrightarrow> m x = Some y \<Longrightarrow> m' x = Some y"
  by (metis domI map_le_def)

lemma actor_ok_later: "actor_ok now a \<Longrightarrow> now \<le> later \<Longrightarrow> actor_ok later a"
  by (auto simp: actor_ok_def actor_inv_defs conns_ok_def)

lemma preserves_refl: "preserves S n n"
  by (simp add: preserves_def persists_def)

lemma preserves_trans: "preserves S n m \<Longrightarrow> preserves S m k \<Longrightarrow> preserves S n k"
  by (auto simp: preserves_def intro: persists_trans)

lemma quietly_refl: "quietly S n n"
  by (simp add: quietly_def preserves_refl)

lemma quietly_trans: "quietly S n m \<Longrightarrow> quietly S m k \<Longrightarrow> quietly S n k"
  by (auto simp: quietly_def intro: preserves_trans)

lemma quietly_preserves: "quietly S n n' \<Longrightarrow> preserves S n n'"
  by (simp add: quietly_def)

text \<open>What the tables need of a step that does not touch them.\<close>

lemma quietlyI:
  assumes p: "net_ok S n \<Longrightarrow> persists n n'" and same: "sockets n' = sockets n" "calls n' = calls n" "active_connections n' = active_connections n"
    and ok: "net_ok S n \<Longrightarrow> actors_ok n' \<and> registry_ok n' \<and> queues_bounded (n_chans n')"
  shows "quietly S n n'"
proof -
  have "net_ok S n'" if n: "net_ok S n"
  proof -
    have "sockets_ok S n'" using n persists_routes [OF p [OF n]] by (simp add: net_ok_def sockets_ok_def same)
    moreover have "calls_ok n'" using n persists_call [OF p [OF n]] by (simp add: net_ok_def calls_ok_def same)
    moreover have "count_ok n'" using n by (simp add: net_ok_def count_ok_def same)
    ultimately show ?thesis using ok [OF n] by (simp add: net_ok_def)
  qed
  then show ?thesis using p same by (simp add: quietly_def preserves_def)
qed

text \<open>Steps that touch no actor.\<close>

lemma quietly_shared:
  assumes "actors n' = actors n" "next_actor n' = next_actor n" "documents n' \<subseteq>\<^sub>m documents n"
    and "sockets n' = sockets n" "calls n' = calls n" "active_connections n' = active_connections n" "n_clock n \<le> n_clock n'"
    and "queues_bounded (n_chans n) \<Longrightarrow> queues_bounded (n_chans n')"
  shows "quietly S n n'"
proof (rule quietlyI)
  show "persists n n'" by (simp add: persists_def assms(1,2))
  have named: "named n' h nm = named n h nm" for h nm using assms by (simp add: named_def)
  assume "net_ok S n"
  moreover have "actors_ok n \<Longrightarrow> actors_ok n'" using assms(1,2,7) actor_ok_later by (fastforce simp: actors_ok_def)
  moreover have "registry_ok n \<Longrightarrow> registry_ok n'"
    using map_leD [OF assms(3)] by (simp add: registry_ok_def named)
  ultimately show "actors_ok n' \<and> registry_ok n' \<and> queues_bounded (n_chans n')" using assms(8) by (simp add: net_ok_def)
qed (use assms in simp_all)

text \<open>Steps that replace or end one actor.\<close>

lemma quietly_actor:
  assumes "actors n h = Some a" and "\<And>b. x = Some b \<Longrightarrow> doc_name b = doc_name a \<and> (actor_ok (n_clock n) a \<longrightarrow> actor_ok (n_clock n) b)"
    and "actors n' = (actors n)(h := x)" "next_actor n' = next_actor n" "documents n' \<subseteq>\<^sub>m documents n"
    and "sockets n' = sockets n" "calls n' = calls n" "active_connections n' = active_connections n" "n_clock n' = n_clock n"
    and "net_ok S n \<Longrightarrow> queues_bounded (n_chans n')"
  shows "quietly S n n'"
proof (rule quietlyI)
  have other: "actors n' h' = Some b \<Longrightarrow> h' \<noteq> h \<Longrightarrow> actors n h' = Some b"
    and self: "actors n' h = Some b \<Longrightarrow> x = Some b" for h' b by (simp_all add: assms(3))
  show persists: "persists n n'"
    unfolding persists_def assms(4) using assms(1) other assms(2) [OF self] by (metis order_refl)
  assume ok: "net_ok S n"
  have "actors_ok n \<Longrightarrow> actors_ok n'"
    unfolding actors_ok_def assms(4,9) using assms(1) other assms(2) [OF self] by metis
  moreover have "registry_ok n \<Longrightarrow> registry_ok n'"
    unfolding registry_ok_def using map_leD [OF assms(5)] persists_named [OF persists] by blast
  ultimately show "actors_ok n' \<and> registry_ok n' \<and> queues_bounded (n_chans n')" using ok assms(10) by (simp add: net_ok_def)
qed (use assms in simp_all)

lemma quietly_send: "quietly S n (n\<lparr>n_chans := snd (chan_send ch msg (n_chans n))\<rparr>)"
  by (rule quietly_shared) (auto intro: chans_grow_bounded [OF chan_send_grow])

lemma quietly_command:
  assumes "\<And>a. actors n h = Some a \<Longrightarrow> net_ok S n \<Longrightarrow> \<forall>k \<in> add_addrs cmd. fst (parse_routing_key k) = doc_name a"
  shows "quietly S n (snd (send_command h cmd n))"
proof (cases "net_ok S n \<and> actors n h \<noteq> None")
  case True
  then obtain a where a: "actors n h = Some a" by auto
  have "addresses (a\<lparr>rx := rx a @ [cmd]\<rparr>) = addresses a \<union> add_addrs cmd" by (simp add: addresses_def) blast
  moreover have "actor_inv (a\<lparr>rx := q, clock := t\<rparr>) = actor_inv (a\<lparr>clock := t\<rparr>)" for q t
    by (simp add: actor_inv_defs conns_ok_def)
  ultimately have "actor_ok (n_clock n) a \<longrightarrow> actor_ok (n_clock n) (a\<lparr>rx := rx a @ [cmd]\<rparr>)"
    using assms [OF a] True by (auto simp: actor_ok_def)
  then show ?thesis
    using a by (intro quietly_actor [OF a, of "Some (a\<lparr>rx := rx a @ [cmd]\<rparr>)"]) (auto simp: send_command_def net_ok_def)
next
  case False
  then show ?thesis
    by (cases "actors n h") (auto simp: send_command_def quietly_refl, simp add: quietly_def preserves_def)
qed

lemma spawn_clock: "(spawn Y S nm cs now reg w)\<lparr>clock := now\<rparr> = spawn Y S nm cs now reg w"
  by (simp add: spawn_def Let_def case_prod_beta)

lemma actor_ok_spawn: "actor_ok now (spawn Y S nm cs now reg w)"
  unfolding actor_ok_def spawn_clock by (simp add: addresses_def conn_addrs_def spawn_frames inv_spawn)

lemma quietly_spawn: "quietly S n (snd (spawn_document Y S nm n))"
proof (rule quietlyI)
  let ?n = "snd (spawn_document Y S nm n)"
  show persists: "persists n ?n" by (simp add: persists_def spawn_document_def Let_def)
  assume ok: "net_ok S n"
  have "actors_ok n \<Longrightarrow> actors_ok ?n" by (auto simp: actors_ok_def actor_ok_spawn spawn_document_def Let_def intro: less_SucI)
  moreover have "registry_ok n \<Longrightarrow> registry_ok ?n"
    using persists_named [OF persists] by (auto simp: registry_ok_def spawn_document_def Let_def)
  ultimately show "actors_ok ?n \<and> registry_ok ?n \<and> queues_bounded (n_chans ?n)"
    using ok by (simp add: net_ok_def) (simp add: spawn_document_def Let_def)
qed (simp_all add: spawn_document_def Let_def)

lemma spawn_named: "spawn_document Y S nm n = (h, n') \<Longrightarrow> named n' h nm"
  by (auto simp: spawn_document_def named_def spawn_frames Let_def)

lemma quietly_enter:
  assumes "named n h nm"
  shows "quietly S n (n\<lparr>documents := (documents n)(nm \<mapsto> h)\<rparr>)"
proof (rule quietlyI)
  have "named (n\<lparr>documents := ds\<rparr>) h' nm' = named n h' nm'" for ds h' nm' by (simp add: named_def)
  then show "actors_ok (n\<lparr>documents := (documents n)(nm \<mapsto> h)\<rparr>) \<and> registry_ok (n\<lparr>documents := (documents n)(nm \<mapsto> h)\<rparr>) \<and>
      queues_bounded (n_chans (n\<lparr>documents := (documents n)(nm \<mapsto> h)\<rparr>))" if "net_ok S n"
    using that assms by (simp add: net_ok_def registry_ok_def actors_ok_def)
qed (simp_all add: persists_def)

lemma quietly_other_command:
  assumes "\<And>conn ack. cmd \<noteq> AddConnection conn ack"
  shows "quietly S n (snd (send_command h cmd n))"
proof -
  have "add_addrs cmd = {}" using assms by (cases cmd) auto
  then show ?thesis by (intro quietly_command) simp
qed

lemma quietly_fields:
  "quietly S n (n\<lparr>n_world := w\<rparr>)" "quietly S n (n\<lparr>documents := (documents n)(nm := None)\<rparr>)"
  "quietly S n (n\<lparr>next_ack := i\<rparr>)" "quietly S n (n\<lparr>next_conn_id := j\<rparr>)"
  "quietly S n (n\<lparr>n_replies := rs\<rparr>)" "quietly S n (n\<lparr>n_clock := n_clock n + t\<rparr>)"
  "quietly S n (n\<lparr>n_locked := ls\<rparr>)" "quietly S n (n\<lparr>n_creating := cr\<rparr>)" "quietly S n (n\<lparr>n_creating := cr, next_lock := l\<rparr>)"
  "quietly S n (n\<lparr>upgrades := us\<rparr>)"
  by (rule quietly_shared; simp add: map_le_def)+

lemma quietly_join:
  "named n h (fst (parse_routing_key (conn_address conn))) \<Longrightarrow> quietly S n (snd (send_command h (AddConnection conn ack) n))"
  by (rule quietly_command) (auto simp: named_def)

interpretation ok: call_effects Y S "quietly S" for Y S
  by unfold_locales
    (rule quietly_refl | erule (1) quietly_trans | rule quietly_send | rule quietly_other_command, blast |
     rule quietly_spawn | erule quietly_enter quietly_join | rule quietly_fields)+

section \<open>Steps of sockets and actors\<close>

lemma attach_frame [simp]:
  "doc_name (attach n a) = doc_name a" "rx (attach n a) = rx a" "connections (attach n a) = connections a"
  "chans (attach n a) = n_chans n" "clock (attach n a) = n_clock n" "registry (attach n a) = documents n"
  "world (attach n a) = n_world n"
  by (simp_all add: attach_def)

lemma attach_inv: "actor_inv (attach n a) = actor_inv (a\<lparr>clock := n_clock n\<rparr>)"
  by (simp add: attach_def actor_inv_defs conns_ok_def)

lemma attach_addresses: "addresses (attach n a) = addresses a"
  by (simp add: addresses_def conn_addrs_def)

lemma quietly_act:
  assumes a: "actors n h = Some a" and t: "actor_turn Y S (attach n a) exit s'"
  shows "quietly S n (detach h exit s' n)"
proof -
  note f = turn_frame [OF t]
  have clock: "s'\<lparr>replies := [], clock := n_clock n\<rparr> = s'\<lparr>replies := []\<rparr>" using f by simp
  have "actor_ok (n_clock n) (s'\<lparr>replies := []\<rparr>)" if "actor_ok (n_clock n) a"
  proof -
    have "actor_inv (attach n a)" using that by (simp add: actor_ok_def attach_inv)
    then have "actor_inv s'" by (rule turn_inv [OF t])
    moreover have "addresses (s'\<lparr>replies := []\<rparr>) = addresses s'" by (simp add: addresses_def)
    then have "addresses (s'\<lparr>replies := []\<rparr>) \<subseteq> addresses a" using f by (simp add: attach_addresses)
    ultimately show ?thesis using that f unfolding actor_ok_def clock by auto
  qed
  moreover have "queues_bounded (chans s')" if "net_ok S n"
    using that a chans_grow_bounded [OF turn_chans [OF t]] by (auto simp: net_ok_def actors_ok_def actor_ok_def attach_inv)
  ultimately show ?thesis
    using f by (intro quietly_actor [OF a, of "if exit then None else Some (s'\<lparr>replies := []\<rparr>)"])
      (auto simp: detach_def split: if_splits)
qed

lemma writer_bounded:
  assumes "writer_turn ok (cs ch) = (msg, c)" and "queues_bounded cs"
  shows "queues_bounded (cs(ch := c))"
proof -
  have "length (queue c) \<le> length (queue (cs ch)) \<and> cap c = cap (cs ch)"
    using assms(1) by (auto simp: writer_turn_def split: list.splits out_msg.splits)
  then show ?thesis using assms(2) by (auto simp: queues_bounded_def intro: order_trans)
qed

lemma quietly_write: "writer_turn ok (n_chans n ch) = (msg, c) \<Longrightarrow> quietly S n (n\<lparr>n_chans := (n_chans n)(ch := c)\<rparr>)"
  by (rule quietly_shared) (auto intro: writer_bounded)

lemma quietly_hang_up: "quietly S n (n\<lparr>n_chans := (n_chans n)(ch := (n_chans n ch)\<lparr>chan_closed := True\<rparr>)\<rparr>)"
  by (rule quietly_shared) (auto simp: queues_bounded_def)

section \<open>Steps of waiting handlers\<close>

lemma lookup_named:
  assumes "lookup_turn Y S nm pc n = Some (pc', n')" and "\<And>h. pc_handle pc = Some h \<Longrightarrow> named n h nm"
    and "net_ok S n" and "pc_handle pc' = Some h"
  shows "named n' h nm"
proof (cases "pc_handle pc")
  case None
  have "registry_ok n" using assms(3) by (simp add: net_ok_def)
  then have "documents n nm = Some h' \<Longrightarrow> named n h' nm" for h' by (simp add: registry_ok_def)
  moreover have "named (n\<lparr>n_locked := ls\<rparr>) h' nm = named n h' nm" for ls h' by (simp add: named_def)
  ultimately show ?thesis
    using assms(1,4) None spawn_named [of Y S nm n] by (cases pc) (auto split: option.splits prod.splits if_splits)
next
  case (Some h')
  then have "h = h'" using assms(1,4) by (cases pc) auto
  moreover have "named n' h' nm"
    using ok.lookup [OF assms(1,2)] assms(2,3) Some persists_named by (auto simp: quietly_def preserves_def)
  ultimately show ?thesis by simp
qed

lemma call_next:
  assumes "call_turn Y S k n = Some (Inl k', n')" and "call_ok n k" and "net_ok S n"
  shows "call_ok n' k' \<and> (suits t (purpose_of k) \<longrightarrow> suits t (purpose_of k'))"
  using assms(1)
proof (cases rule: call_turn_cases)
  case (look p pc pc')
  then show ?thesis using assms(2,3) lookup_named [OF look(2) _ assms(3)] by (auto simp: call_ok_def)
next
  case (sent p h a)
  have "named n h (call_name p)" using assms(2) sent(1) by (simp add: call_ok_def)
  then have "named n' h (call_name p)"
    using ok.call [OF assms(1,2)] assms(3) persists_named by (auto simp: quietly_def preserves_def)
  then show ?thesis using sent by (simp add: call_ok_def)
next
  case (gone p h)
  then show ?thesis using call_gone_shape [OF gone(3)] by (cases t) (auto simp: call_ok_def)
next
  case (lost p h ack)
  then show ?thesis using call_gone_shape [of p n "Inl k'" n'] by (cases p; cases t) (auto simp: call_ok_def simp del: call_gone.simps)
qed simp

lemma call_ends:
  assumes "call_turn Y S k n = Some (Inr (Some h), n')" and "call_ok n k"
  shows "named n' h (call_name (purpose_of k))"
  using assms(1)
proof (cases rule: call_turn_cases)
  case (gone p h')
  then show ?thesis using call_gone_shape [OF gone(3)] by auto
next
  case (lost p h' ack)
  then show ?thesis
    using assms(2) call_gone_shape [of p n "Inr (Some h)" n'] by (cases p) (auto simp: call_ok_def simp del: call_gone.simps)
qed (use assms(2) in \<open>auto simp: call_ok_def\<close>)

section \<open>Steps of sockets\<close>

text \<open>The tables change at one socket at a time.\<close>

lemma net_ok_socket:
  assumes ok: "net_ok S n" and x: "\<And>c. x = Some c \<Longrightarrow> queue_ok (config S) c \<and> routes_ok n c"
    and y: "\<And>k. y = Some k \<Longrightarrow> x \<noteq> None \<and> call_ok n k \<and> suits (Socket ch) (purpose_of k)"
    and count: "active_connections n' + (if sockets n ch = None then 0 else 1) =
      active_connections n + (if x = None then 0 else 1)"
    and same: "actors n' = actors n" "next_actor n' = next_actor n" "documents n' = documents n" "n_clock n' = n_clock n"
      "sockets n' = (sockets n)(ch := x)" "calls n' = (calls n)(Socket ch := y)" "queues_bounded (n_chans n')"
  shows "net_ok S n'"
proof -
  have named: "named n' h nm = named n h nm" for h nm by (simp add: named_def same)
  have old: "sockets n' ch' = Some c \<Longrightarrow> ch' \<noteq> ch \<Longrightarrow> sockets n ch' = Some c"
    and new: "sockets n' ch = Some c \<Longrightarrow> x = Some c" for ch' c by (simp_all add: same)
  have "sockets_ok S n'"
    using ok old x [OF new] unfolding sockets_ok_def net_ok_def routes_ok_def named by metis
  moreover have "calls_ok n'"
    using ok y by (cases y) (auto simp: net_ok_def calls_ok_def call_ok_def named same)
  moreover have "count_ok n'"
  proof -
    have fin: "finite (dom (sockets n))" and card: "active_connections n = card (dom (sockets n))"
      using ok by (simp_all add: net_ok_def count_ok_def)
    have dom: "dom (sockets n') = (if x = None then dom (sockets n) - {ch} else insert ch (dom (sockets n)))"
      by (auto simp: same)
    have "card (dom (sockets n')) + (if sockets n ch = None then 0 else 1) =
        card (dom (sockets n)) + (if x = None then 0 else 1)"
      unfolding dom using fin card_Suc_Diff1 [OF fin, of ch] by (auto simp: card_insert_if insert_absorb domIff)
    then show ?thesis using fin count card by (auto simp: count_ok_def dom)
  qed
  moreover have "actors_ok n' = actors_ok n" "registry_ok n' = registry_ok n"
    by (simp_all add: actors_ok_def registry_ok_def same named)
  ultimately show ?thesis using ok same by (simp add: net_ok_def)
qed

lemma net_ok_call:
  assumes ok: "net_ok S n" and "\<And>k. y = Some k \<Longrightarrow> call_ok n k \<and> suits t (purpose_of k)"
    and "\<And>ch. t = Socket ch \<Longrightarrow> y \<noteq> None \<Longrightarrow> sockets n ch \<noteq> None"
  shows "net_ok S (n\<lparr>calls := (calls n)(t := y)\<rparr>)"
proof -
  have "named (n\<lparr>calls := cs\<rparr>) h nm = named n h nm" for h nm cs by (simp add: named_def)
  then show ?thesis
    using assms
    by (cases y) (auto simp: net_ok_def calls_ok_def call_ok_def actors_ok_def registry_ok_def sockets_ok_def routes_ok_def count_ok_def)
qed

lemma preserves_table:
  assumes "quietly S n m"
    and "net_ok S n \<Longrightarrow> net_ok S m \<Longrightarrow> persists n m \<Longrightarrow> net_ok S n'"
    and "actors n' = actors m" "next_actor n' = next_actor m"
  shows "preserves S n n'"
proof -
  have "persists n m \<Longrightarrow> persists n n'" by (simp add: persists_def assms(3,4))
  then show ?thesis using assms(1,2) unfolding quietly_def preserves_def by blast
qed

lemma preserves_open:
  assumes "sockets n ch = None" and "n_chans n ch = new_chan S" and "open_socket S ch meta n = (c, n')"
  shows "preserves S n (n'\<lparr>upgrades := us, sockets := (sockets n')(ch \<mapsto> c)\<rparr>)"
proof -
  have o: "n' = n\<lparr>active_connections := active_connections n + 1, next_socket_id := next_socket_id n + 1\<rparr>"
    and c: "establisheds c = []" "queue_ok (config S) c"
    using assms by (auto simp: open_socket_def new_chan_def Let_def client_new_def queue_ok_new [unfolded client_new_def] fun_upd_idem)
  have "net_ok S (n'\<lparr>upgrades := us, sockets := (sockets n')(ch \<mapsto> c)\<rparr>)" if "net_ok S n"
    by (rule net_ok_socket [OF that, of "Some c" None ch])
      (use assms(1) that c in \<open>auto simp: o routes_ok_def net_ok_def calls_ok_def fun_upd_idem\<close>)
  then show ?thesis by (auto simp: preserves_def o persists_def)
qed

text \<open>What the handlers leave in their connection.\<close>

lemma authenticate_begin_client:
  "authenticate_begin Y S k data (c, n) = (c', n', x) \<Longrightarrow> c' = c \<or> c' = c\<lparr>authenticated := True\<rparr>"
  by (auto simp: authenticate_begin_def accept_begin_def Let_def split: option.splits prod.splits sum.splits)

lemma frame_begin_client:
  assumes "frame_begin Y S data (c, n) = (c', n', x)"
  shows "establisheds c' = establisheds c \<and> (queue_ok (config S) c \<longrightarrow> queue_ok (config S) c')"
proof -
  let ?c = "c\<lparr>last_message_at := n_clock n\<rparr>"
  have "c' = ?c \<or> c' = ?c\<lparr>authenticated := True\<rparr> \<or> (\<exists>k. c' = fst (enqueue S k data (?c, n)))"
    using assms
    by (auto simp: frame_begin_def Let_def dest: authenticate_begin_client split: if_splits sum.splits option.splits prod.splits)
      (metis fst_conv)+
  moreover have "establisheds (fst (enqueue S k data (?c, n))) = establisheds c" for k by (simp add: enqueue_def Let_def)
  moreover have "queue_ok (config S) c \<Longrightarrow> queue_ok (config S) (fst (enqueue S k data (?c, n)))" for k
    by (rule queue_ok_enqueue) (simp add: queue_ok_def)
  ultimately show ?thesis by (auto simp: queue_ok_def)
qed

lemma preserves_read:
  assumes c: "sockets n ch = Some c" and k: "calls n (Socket ch) = None" and b: "frame_begin Y S data (c, n) = (c', n', x)"
  shows "preserves S n (n'\<lparr>sockets := (sockets n')(ch \<mapsto> c'),
      calls := (calls n')(Socket ch := map_option (\<lambda>conn. Looking (Join 1 conn) Start) x)\<rparr>)"
proof (rule preserves_table [OF ok.frame [OF b]])
  assume ok: "net_ok S n" "net_ok S n'" "persists n n'"
  have same: "sockets n' = sockets n" using ok.frame [OF b] by (simp add: quietly_def)
  have "queue_ok (config S) c" "routes_ok n c" using ok(1) c by (auto simp: net_ok_def sockets_ok_def)
  then have "queue_ok (config S) c'" "routes_ok n' c'"
    using frame_begin_client [OF b] persists_routes [OF ok(3)] by (auto simp: routes_ok_def)
  then show "net_ok S (n'\<lparr>sockets := (sockets n')(ch \<mapsto> c'),
      calls := (calls n')(Socket ch := map_option (\<lambda>conn. Looking (Join 1 conn) Start) x)\<rparr>)"
    using c same ok(2)
    by (intro net_ok_socket [OF ok(2), of "Some c'" "map_option (\<lambda>conn. Looking (Join 1 conn) Start) x" ch])
      (auto simp: call_ok_def net_ok_def)
qed simp_all

lemma preserves_call:
  assumes "calls n t = Some k" and t: "call_turn Y S k n = Some (Inl k', n')"
  shows "preserves S n (n'\<lparr>calls := (calls n')(t \<mapsto> k')\<rparr>)"
proof (cases "net_ok S n")
  case True
  then have k: "call_ok n k" "suits t (purpose_of k)" "\<And>ch. t = Socket ch \<Longrightarrow> sockets n ch \<noteq> None"
    using assms(1) by (auto simp: net_ok_def calls_ok_def)
  note q = ok.call [OF t k(1)]
  have same: "sockets n' = sockets n" using q by (simp add: quietly_def)
  show ?thesis
    by (rule preserves_table [OF q]) (use call_next [OF t k(1) True] k(2,3) in \<open>auto simp: same intro!: net_ok_call\<close>)
qed (simp add: preserves_def)

lemma preserves_job_starts: "preserves S n (n\<lparr>calls := (calls n)(Job j \<mapsto> Looking (Edit nm u) Start)\<rparr>)"
  by (rule preserves_table [OF quietly_refl]) (auto simp: call_ok_def intro!: net_ok_call)

lemma preserves_job_ends:
  assumes "calls n (Job j) = Some k" and t: "call_turn Y S k n = Some (Inr r, n')"
  shows "preserves S n (n'\<lparr>calls := (calls n')(Job j := None)\<rparr>)"
proof (cases "net_ok S n")
  case True
  then have "call_ok n k" using assms(1) by (auto simp: net_ok_def calls_ok_def)
  from ok.call [OF t this] show ?thesis by (rule preserves_table) (auto intro!: net_ok_call)
qed (simp add: preserves_def)

lemma accepted_client:
  assumes "accepted k cid c (r, n) = (c', n')"
  shows "(queue_ok (config S) c \<longrightarrow> queue_ok (config S) c') \<and>
    (\<forall>ke \<in> set (establisheds c'). ke \<in> set (establisheds c) \<or> r = Some (est_doc (snd ke)) \<and> fst ke = k)"
proof (cases r)
  case None
  then show ?thesis using assms by (auto simp: accepted_def)
next
  case (Some h)
  let ?c = "c\<lparr>establisheds := AList.update k \<lparr>est_doc = h, est_conn_id = cid\<rparr> (establisheds c)\<rparr>"
  have u: "\<forall>ke \<in> set (establisheds ?c). ke \<in> set (establisheds c) \<or> h = est_doc (snd ke) \<and> fst ke = k"
    using set_AList_update [of k "\<lparr>est_doc = h, est_conn_id = cid\<rparr>" "establisheds c"] by auto
  show ?thesis
  proof (cases "map_of (pending c) k")
    case None
    then show ?thesis using assms Some u by (auto simp: accepted_def queue_ok_def)
  next
    case (Some msgs)
    then have c': "c' = fst (drain_pending h cid msgs (?c\<lparr>pending := AList.delete k (pending c)\<rparr>, n))"
      using assms \<open>r = Some h\<close> by (simp add: accepted_def)
    have "queue_ok (config S) c \<Longrightarrow> queue_ok (config S) c'"
      using queue_ok_drained [where cfg = "config S" and c = c and k = k and msgs = msgs and h = h and cid = cid and b = "authenticated c"
          and es = "establisheds ?c" and n = n] Some by (simp add: c')
    moreover have "establisheds c' = establisheds ?c" by (simp add: c' drain_pending_client)
    ultimately show ?thesis using u \<open>r = Some h\<close> by auto
  qed
qed

lemma preserves_join:
  assumes k: "calls n (Socket ch) = Some k" and p: "purpose_of k = Join i conn" and c: "sockets n ch = Some c"
    and t: "call_turn Y S k n = Some (Inr r, n')"
    and a: "accepted (conn_address conn) (conn_id conn) c (r, n') = (c', n'')"
  shows "preserves S n (n''\<lparr>sockets := (sockets n'')(ch \<mapsto> c'), calls := (calls n'')(Socket ch := None)\<rparr>)"
proof (cases "net_ok S n")
  case True
  then have kok: "call_ok n k" using k by (auto simp: net_ok_def calls_ok_def)
  have q1: "quietly S n n'" by (rule ok.call [OF t kok])
  have q2: "quietly S n' n''" by (rule ok.accepted [OF a])
  have ok: "net_ok S n'" "persists n n'" "net_ok S n''" "persists n' n''"
    using q1 q2 True by (auto simp: quietly_def preserves_def)
  have "named n' h (fst (parse_routing_key (conn_address conn)))" if "r = Some h" for h
    using call_ends [of Y S k n h n'] t kok that p by simp
  moreover have c0: "queue_ok (config S) c" "routes_ok n c" using True c by (auto simp: net_ok_def sockets_ok_def)
  ultimately have "routes_ok n' c'"
    using accepted_client [OF a, of S] persists_routes [OF ok(2) c0(2)] by (fastforce simp: routes_ok_def)
  then have "routes_ok n'' c'" by (rule persists_routes [OF ok(4)])
  moreover have "queue_ok (config S) c'" using accepted_client [OF a, of S] c0(1) by blast
  ultimately have "net_ok S (n''\<lparr>sockets := (sockets n'')(ch \<mapsto> c'), calls := (calls n'')(Socket ch := None)\<rparr>)"
    using q1 q2 c ok(3)
    by (intro net_ok_socket [OF ok(3), of "Some c'" None ch]) (auto simp: quietly_def net_ok_def)
  then show ?thesis by (intro preserves_table [OF quietly_trans [OF q1 q2]]) simp_all
qed (simp add: preserves_def)

lemma closing_turn: "socket_turn Y S wait ev (c, n) = (False, c', n') \<Longrightarrow> c' = c \<and> (n' = n \<or> n' = terminate c CONNECTION_TIMEOUT n)"
  by (auto simp: socket_turn_def split: socket_event.splits)

text \<open>The end of a socket, as the clean-up and one more step.\<close>

lemma end_socket_shape:
  "end_socket (c, n) = (c', n') \<Longrightarrow>
     n' = (snd (cleanup (c, n)))\<lparr>n_chans := (n_chans (snd (cleanup (c, n))))(out_tx c := (n_chans (snd (cleanup (c, n))) (out_tx c))\<lparr>chan_closed := True\<rparr>),
       active_connections := active_connections (snd (cleanup (c, n))) - 1\<rparr>"
  by (auto simp: end_socket_def cleanup_def)

lemma preserves_close:
  assumes c: "sockets n ch = Some c" and k: "calls n (Socket ch) = None" and t: "socket_turn Y S wait ev (c, n) = (False, c', n')"
    and e: "end_socket (c', n') = (c'', n'')"
  shows "preserves S n (n''\<lparr>sockets := (sockets n'')(ch := None)\<rparr>)"
proof -
  let ?m = "snd (cleanup (c, n'))"
  have c': "c' = c" using closing_turn [OF t] by simp
  have "quietly S n n'"
    using closing_turn [OF t] quietly_refl ok.socket_send by (auto simp: terminate_def)
  then have m: "quietly S n ?m" by (rule quietly_trans [OF _ ok.cleanup])
  note n'' = end_socket_shape [OF e [unfolded c']]
  have same: "sockets ?m = sockets n" "calls ?m = calls n" using m by (simp_all add: quietly_def)
  show ?thesis
  proof (rule preserves_table [OF m])
    assume ok: "net_ok S n" "net_ok S ?m" "persists n ?m"
    have "active_connections ?m = card (dom (sockets ?m))" "finite (dom (sockets ?m))" "ch \<in> dom (sockets ?m)"
      using ok(2) c by (auto simp: net_ok_def count_ok_def same)
    then have "0 < active_connections ?m" by (auto simp: card_gt_0_iff)
    then show "net_ok S (n''\<lparr>sockets := (sockets n'')(ch := None)\<rparr>)"
      using ok(2) c k same
      by (intro net_ok_socket [OF ok(2), of None None ch]) (auto simp: n'' net_ok_def queues_bounded_def fun_upd_idem)
  qed (simp_all add: n'')
qed

section \<open>Every run keeps the server consistent\<close>

interpretation okr: server_effects Y S "preserves S" Q for Y S Q
  by unfold_locales
    (rule preserves_refl | erule (1) preserves_trans | rule preserves_job_starts |
     rule quietly_preserves, (rule quietly_send quietly_fields | rule quietly_other_command, blast | erule quietly_write | erule (1) quietly_act) |
     erule (2) preserves_open preserves_read | erule (1) preserves_call preserves_job_ends | erule (4) preserves_join | erule (3) preserves_close)+

section \<open>Relations that do not depend on the tables of tasks\<close>

text \<open>A relation that is kept by the primitive effects and by the steps of waiting handlers, and that does not
  depend on the tables of sockets and waiting handlers, is kept by every step of a socket.\<close>

definition alike :: "('d, 'v, 'a, 'j, 'w) net \<Rightarrow> ('d, 'v, 'a, 'j, 'w) net \<Rightarrow> bool" where
  "alike n n' \<longleftrightarrow> n_clock n' = n_clock n \<and> n_chans n' = n_chans n \<and> n_world n' = n_world n \<and> documents n' = documents n \<and>
     actors n' = actors n \<and> next_actor n' = next_actor n"

locale task_effects = call_effects Y S R
  for Y :: "('d, 'v, 'u, 'a, 'p) yrs" and S :: "('d, 'j, 'w) server"
    and R :: "('d, 'v, 'a, 'j, 'w) net \<Rightarrow> ('d, 'v, 'a, 'j, 'w) net \<Rightarrow> bool" +
  fixes Q :: "label \<Rightarrow> ('d, 'v, 'a, 'j, 'w) net \<Rightarrow> ('d, 'v, 'a, 'j, 'w) net \<Rightarrow> bool"
  assumes vacuous: "\<not> net_ok S n \<Longrightarrow> R n n'"
    and retable: "R n m \<Longrightarrow> preserves S n n' \<Longrightarrow> alike m n' \<Longrightarrow> R n n'"
    and hang_up: "R n (n\<lparr>n_chans := (n_chans n)(ch := (n_chans n ch)\<lparr>chan_closed := True\<rparr>)\<rparr>)"
    and writes: "writer_turn ok (n_chans n ch) = (msg, d) \<Longrightarrow>
      Q (Wrote ch msg) n (n\<lparr>n_chans := (n_chans n)(ch := d)\<rparr>) \<Longrightarrow> R n (n\<lparr>n_chans := (n_chans n)(ch := d)\<rparr>)"
    and acts: "actors n h = Some a \<Longrightarrow> actor_turn Y S (attach n a) exit s' \<Longrightarrow>
      Q (Acted h exit) n (detach h exit s' n) \<Longrightarrow> R n (detach h exit s' n)"
    and takes: "R n (n\<lparr>n_replies := fs\<rparr>)"
    and waits: "R n (n\<lparr>n_clock := n_clock n + dt\<rparr>)"
    and works: "Q Outside n (n\<lparr>n_world := w\<rparr>) \<Longrightarrow> R n (n\<lparr>n_world := w\<rparr>)"
begin

lemma waiting: "calls n t = Some k \<Longrightarrow> (call_ok n k \<Longrightarrow> R n n') \<Longrightarrow> R n n'"
  using vacuous [of n n'] by (auto simp: net_ok_def calls_ok_def)

lemma socket_begins:
  assumes "sockets n ch = None" and "n_chans n ch = new_chan S" and "open_socket S ch meta n = (c, n')"
  shows "R n (n'\<lparr>upgrades := us, sockets := (sockets n')(ch \<mapsto> c)\<rparr>)"
proof -
  have "alike n n'" using assms(2,3) by (auto simp: open_socket_def new_chan_def alike_def Let_def fun_upd_idem)
  then show ?thesis by (intro retable [OF rel_refl preserves_open [OF assms]]) (simp add: alike_def)
qed

lemma socket_finishes:
  assumes c: "sockets n ch = Some c" and "calls n (Socket ch) = None" and t: "socket_turn Y S wait ev (c, n) = (False, c', n')"
    and e: "end_socket (c', n') = (c'', n'')"
  shows "R n (n''\<lparr>sockets := (sockets n'')(ch := None)\<rparr>)"
proof -
  let ?m = "snd (cleanup (c, n'))"
  have c': "c' = c" using closing_turn [OF t] by simp
  note n'' = end_socket_shape [OF e [unfolded c']]
  have "R n n'" using closing_turn [OF t] rel_refl socket_send by (auto simp: terminate_def)
  then have "R n ?m" by (rule rel_trans [OF _ cleanup])
  from retable [OF rel_trans [OF this hang_up, of "out_tx c"] preserves_close [OF assms]]
  show ?thesis by (simp add: n'' alike_def)
qed

end

sublocale task_effects \<subseteq> server_effects Y S R Q
proof (unfold_locales, goal_cases)
  case (1 n us)
  show ?case by (rule retable [OF rel_refl quietly_preserves [OF quietly_fields(10)]]) (simp add: alike_def)
next
  case (2 n ch meta c n' us)
  then show ?case by (rule socket_begins)
next
  case (3 n ch c data c' n' x)
  show ?case by (rule retable [OF frame [OF 3(3)] preserves_read [OF 3]]) (simp add: alike_def)
next
  case (4 n t k k' n')
  show ?case by (rule waiting [OF 4(1)], rule retable [OF call [OF 4(2)] preserves_call [OF 4]]) (simp_all add: alike_def)
next
  case (5 n ch k i conn c r n' c' n'')
  show ?case
    by (rule waiting [OF 5(1)], rule retable [OF rel_trans [OF call [OF 5(4)] accepted [OF 5(5)]] preserves_join [OF 5]]) (simp_all add: alike_def)
next
  case (6 n j nm u)
  show ?case by (rule retable [OF rel_refl preserves_job_starts]) (simp add: alike_def)
next
  case (7 n j k r n')
  show ?case by (rule waiting [OF 7(1)], rule retable [OF call [OF 7(2)] preserves_job_ends [OF 7]]) (simp_all add: alike_def)
next
  case (8 n ch c wait ev c' n' c'' n'')
  then show ?case by (rule socket_finishes)
qed (erule (1) writes | erule (2) acts | rule takes | rule waits | erule works)+

section \<open>The start\<close>

lemma net_ok_start: "net_ok S (server_start S now w)"
  by (simp add: net_ok_def server_start_def actors_ok_def registry_ok_def sockets_ok_def calls_ok_def count_ok_def queues_bounded_def new_chan_def)

section \<open>Properties\<close>

text \<open>C6: The state of the running server is well formed. From its start, through every interleaving of
  sockets, actors, the Redis subscriber and programmatic edits: handles are given out once, the registry
  maps names to actors of that name, every established route of a socket and every connection an actor
  has or is about to add belongs to the document its routing key names, each actor's bookkeeping is in
  order, waiting queues and outbound channels are within their limits, and the number of active
  connections is the number of open sockets.\<close>

theorem server_state_well_formed:
  assumes "serves Y S any_step (server_start S now w) n"
  shows "net_ok S n"
  using okr.every_run [OF assms] by (simp add: preserves_def net_ok_start)

theorem server_state_well_formed_witness: "net_ok demo_server joined_net"
  by (rule server_state_well_formed [OF serves_joined])

text \<open>C9: Frames reach the document they are addressed to, and no other. In every reachable state of the
  server, a frame on a routing key the socket has been accepted for goes to the end of the mailbox of one
  actor; if that actor is still running, it is the actor of the document the routing key names, and
  nothing else changes but the time of the socket's last message.\<close>

theorem frames_reach_their_document:
  assumes "serves Y S any_step (server_start S now w) n" and "sockets n ch = Some c"
    and "parse (wire Y) data = Inr f" and "length data \<noteq> 1"
    and "map_of (establisheds c) (routing_key f) = Some est" and "actors n (est_doc est) = Some a"
  shows "doc_name a = fst (parse_routing_key (routing_key f)) \<and>
    handle_frame Y S wait data (c, n) =
      (c\<lparr>last_message_at := n_clock n\<rparr>,
       n\<lparr>actors := (actors n)(est_doc est \<mapsto> a\<lparr>rx := rx a @ [ClientFrame (est_conn_id est) data]\<rparr>)\<rparr>)"
proof -
  have "net_ok S n" using okr.every_run [OF assms(1)] by (simp add: preserves_def net_ok_start)
  then have "routes_ok n c" using assms(2) by (simp add: net_ok_def sockets_ok_def)
  then have "named n (est_doc est) (fst (parse_routing_key (routing_key f)))"
    using map_of_SomeD [OF assms(5)] by (fastforce simp: routes_ok_def)
  then show ?thesis
    using assms(3-6) by (simp add: named_def handle_frame_def Let_def send_command_def)
qed

theorem frames_reach_their_document_witness:
  "doc_name (acked_doc\<lparr>replies := []\<rparr>) = ''doc'' \<and>
     rx (the (actors (snd (handle_frame opset demo_server acked demo_frame (joined_client, joined_net))) 0)) =
       rx acked_doc @ [ClientFrame 1 demo_frame]"
proof -
  have "wire opset = lib0" by (simp add: opset_def)
  then have "length demo_frame \<noteq> 1" using doc_prefix_long by (simp add: demo_frame_def out_defs)
  then show ?thesis
    using frames_reach_their_document [OF serves_joined joined_facts(1), of demo_frame _ "\<lparr>est_doc = 0, est_conn_id = 1\<rparr>" _ acked]
      demo_frame_parse joined_facts
    by (simp add: doc_key)
qed

end
