(* ===== verification/System_Sim.thy ===== *)
theory System_Sim
  imports System_Inv
begin

text \<open>
  The server refines its actors: seen from any one document actor, every run of the whole server is a
  run of the step relation of theory \<open>Document_Inv\<close>, and every actor begins with the load of its
  document. What is proved of an actor for all runs of that relation therefore holds inside the server.
\<close>

section \<open>Every actor inside the server is the actor of the step relation\<close>

text \<open>What happens to an actor between two states of the server, seen from the actor.\<close>

definition tracks ::
    "('d, 'v, 'u, 'a, 'p) yrs \<Rightarrow> ('d, 'j, 'w) server \<Rightarrow> ('d, 'v, 'a, 'j, 'w) net \<Rightarrow> ('d, 'v, 'a, 'j, 'w) net \<Rightarrow> bool" where
  "tracks Y S n n' \<longleftrightarrow>
     (\<forall>h < next_actor n. \<forall>a'. actors n' h = Some a' \<longrightarrow>
        (\<exists>a. actors n h = Some a \<and> actor_reach Y S (\<lambda>_ _. True) (attach n a) (attach n' a')))"

text \<open>Every running actor has come from loading its document.\<close>

definition born :: "('d, 'v, 'u, 'a, 'p) yrs \<Rightarrow> ('d, 'j, 'w) server \<Rightarrow> ('d, 'v, 'a, 'j, 'w) net \<Rightarrow> bool" where
  "born Y S n \<longleftrightarrow>
     (\<forall>h a. actors n h = Some a \<longrightarrow>
        (\<exists>cs t reg w. actor_reach Y S (\<lambda>_ _. True) (spawn Y S (doc_name a) cs t reg w) (attach n a)))"

definition refines ::
    "('d, 'v, 'u, 'a, 'p) yrs \<Rightarrow> ('d, 'j, 'w) server \<Rightarrow> ('d, 'v, 'a, 'j, 'w) net \<Rightarrow> ('d, 'v, 'a, 'j, 'w) net \<Rightarrow> bool" where
  "refines Y S n n' \<longleftrightarrow> preserves S n n' \<and> (net_ok S n \<longrightarrow> tracks Y S n n' \<and> (born Y S n \<longrightarrow> born Y S n'))"

lemma actor_reach_trans: "actor_reach Y S E b c \<Longrightarrow> actor_reach Y S E a b \<Longrightarrow> actor_reach Y S E a c"
  by (induction rule: actor_reach.induct) (auto intro: reach_step)

lemma reach_one: "actor_step Y S E a b \<Longrightarrow> actor_reach Y S E a b"
  by (rule reach_step [OF reach_refl])

lemma tracks_trans:
  assumes "tracks Y S a b" and "tracks Y S b c" and "next_actor a \<le> next_actor b"
  shows "tracks Y S a c"
  unfolding tracks_def
proof (intro allI impI)
  fix h z
  assume h: "h < next_actor a" "actors c h = Some z"
  then obtain y where "actors b h = Some y" "actor_reach Y S (\<lambda>_ _. True) (attach b y) (attach c z)"
    using assms(2,3) unfolding tracks_def by (meson less_le_trans)
  moreover obtain x where "actors a h = Some x" "actor_reach Y S (\<lambda>_ _. True) (attach a x) (attach b y)"
    using assms(1) h(1) calculation(1) by (auto simp: tracks_def)
  ultimately show "\<exists>x. actors a h = Some x \<and> actor_reach Y S (\<lambda>_ _. True) (attach a x) (attach c z)"
    using actor_reach_trans by blast
qed

lemma refinesI:
  assumes p: "preserves S n n'" and t: "net_ok S n \<Longrightarrow> tracks Y S n n'"
    and same: "next_actor n' = next_actor n"
  shows "refines Y S n n'"
proof -
  have "born Y S n'" if ok: "net_ok S n" and b: "born Y S n"
    unfolding born_def
  proof (intro allI impI)
    fix h a'
    assume a': "actors n' h = Some a'"
    then have h: "h < next_actor n" using p ok same by (auto simp: preserves_def net_ok_def actors_ok_def)
    then obtain a where a: "actors n h = Some a" and r: "actor_reach Y S (\<lambda>_ _. True) (attach n a) (attach n' a')"
      using t [OF ok] a' by (auto simp: tracks_def)
    have "doc_name a' = doc_name a" using p ok h a a' by (fastforce simp: preserves_def persists_def)
    moreover obtain cs tm reg w where "actor_reach Y S (\<lambda>_ _. True) (spawn Y S (doc_name a) cs tm reg w) (attach n a)"
      using b a unfolding born_def by blast
    ultimately show "\<exists>cs t reg w. actor_reach Y S (\<lambda>_ _. True) (spawn Y S (doc_name a') cs t reg w) (attach n' a')"
      using actor_reach_trans [OF r] by metis
  qed
  then show ?thesis using p t by (simp add: refines_def)
qed

lemma tracks_refl: "tracks Y S n n"
  by (auto simp: tracks_def intro: reach_refl)

lemma refines_refl: "refines Y S n n"
  by (simp add: refinesI preserves_refl tracks_refl)

lemma refines_trans:
  assumes "refines Y S n m" and "refines Y S m k"
  shows "refines Y S n k"
proof -
  have "net_ok S n \<Longrightarrow> tracks Y S n k"
    using assms by (auto simp: refines_def preserves_def persists_def intro: tracks_trans)
  moreover have "net_ok S n \<Longrightarrow> net_ok S m" using assms(1) by (simp add: refines_def preserves_def)
  ultimately show ?thesis using assms preserves_trans [of S n m k] by (auto simp: refines_def)
qed

text \<open>Other tasks at work: they send, run hooks, change the registry.\<close>

lemma reach_shared:
  assumes "chans_grow (n_chans n) (n_chans n')" and "n_clock n' = n_clock n"
  shows "actor_reach Y S (\<lambda>_ _. True) (attach n a) (attach n' a)"
proof -
  let ?s1 = "(attach n a)\<lparr>chans := n_chans n'\<rparr>"
  let ?s2 = "?s1\<lparr>world := n_world n'\<rparr>"
  have "actor_reach Y S (\<lambda>_ _. True) (attach n a) ?s1" by (rule reach_one [OF other_send]) (simp add: assms(1))
  then have "actor_reach Y S (\<lambda>_ _. True) (attach n a) ?s2" by (rule reach_step [OF _ other_hooks]) simp
  then have "actor_reach Y S (\<lambda>_ _. True) (attach n a) (?s2\<lparr>registry := documents n'\<rparr>)"
    by (rule reach_step [OF _ other_entries])
  moreover have "?s2\<lparr>registry := documents n'\<rparr> = attach n' a" by (simp add: attach_def assms(2))
  ultimately show ?thesis by simp
qed

lemma refines_other:
  assumes "preserves S n n'" and "\<And>h. h < next_actor n \<Longrightarrow> actors n' h = actors n h"
    and "\<And>a. actor_reach Y S (\<lambda>_ _. True) (attach n a) (attach n' a)" and "next_actor n' = next_actor n"
  shows "refines Y S n n'"
  using assms by (intro refinesI) (auto simp: tracks_def)

lemma refines_shared:
  "preserves S n n' \<Longrightarrow> (\<And>h. h < next_actor n \<Longrightarrow> actors n' h = actors n h) \<Longrightarrow>
     chans_grow (n_chans n) (n_chans n') \<Longrightarrow> n_clock n' = n_clock n \<Longrightarrow> next_actor n' = next_actor n \<Longrightarrow> refines Y S n n'"
  by (rule refines_other) (auto intro: reach_shared)

lemma refines_command:
  assumes p: "preserves S n (snd (send_command h cmd n))"
  shows "refines Y S n (snd (send_command h cmd n))"
proof -
  have "actor_reach Y S (\<lambda>_ _. True) (attach n a) (attach n (a\<lparr>rx := rx a @ [cmd]\<rparr>))" for a
  proof -
    have "attach n (a\<lparr>rx := rx a @ [cmd]\<rparr>) = (attach n a)\<lparr>rx := rx (attach n a) @ [cmd]\<rparr>" by (simp add: attach_def)
    then show ?thesis by (simp only: reach_one [OF arrive])
  qed
  moreover have "attach (n\<lparr>actors := x\<rparr>) a = attach n a" for x a by (simp add: attach_def)
  ultimately have "tracks Y S n (snd (send_command h cmd n))"
    by (auto simp: tracks_def send_command_def intro: reach_refl split: option.split)
  then show ?thesis by (intro refinesI [OF p]) (auto simp: send_command_def split: option.split)
qed

lemma refines_spawn: "refines Y S n (snd (spawn_document Y S nm n))"
proof -
  let ?a = "spawn Y S nm (n_chans n) (n_clock n) (documents n) (n_world n)"
  let ?n = "snd (spawn_document Y S nm n)"
  have n: "?n = n\<lparr>actors := (actors n)(next_actor n \<mapsto> ?a), n_world := world ?a, next_actor := Suc (next_actor n)\<rparr>"
    by (simp add: spawn_document_def Let_def)
  have reach: "actor_reach Y S (\<lambda>_ _. True) (attach n a) (attach ?n a)" for a
    by (rule reach_shared) (simp_all add: n)
  have tracks: "tracks Y S n ?n" using reach by (auto simp: tracks_def n)
  have "attach ?n ?a = ?a" by (simp add: attach_def n) (simp add: spawn_def Let_def case_prod_beta)
  then have new: "actor_reach Y S (\<lambda>_ _. True) ?a (attach ?n ?a)" by (simp only: reach_refl)
  have "born Y S ?n" if ok: "net_ok S n" and b: "born Y S n"
    unfolding born_def
  proof (intro allI impI)
    fix h a
    assume a: "actors ?n h = Some a"
    show "\<exists>cs t reg w. actor_reach Y S (\<lambda>_ _. True) (spawn Y S (doc_name a) cs t reg w) (attach ?n a)"
    proof (cases "h = next_actor n")
      case True
      then have "a = ?a" using a by (simp add: n)
      then show ?thesis using new by (auto simp: spawn_frames)
    next
      case False
      then have "actors n h = Some a" using a by (simp add: n)
      then show ?thesis using b reach actor_reach_trans unfolding born_def by blast
    qed
  qed
  then show ?thesis using tracks quietly_preserves [OF quietly_spawn] by (simp add: refines_def)
qed

lemma refines_fields:
  "refines Y S n (n\<lparr>n_world := w\<rparr>)" "refines Y S n (n\<lparr>documents := (documents n)(nm := None)\<rparr>)"
  "refines Y S n (n\<lparr>next_ack := i\<rparr>)" "refines Y S n (n\<lparr>next_conn_id := j\<rparr>)"
  "refines Y S n (n\<lparr>n_replies := rs\<rparr>)" "refines Y S n (n\<lparr>n_locked := ls\<rparr>)" "refines Y S n (n\<lparr>n_creating := cr\<rparr>)"
  "refines Y S n (n\<lparr>n_creating := cr, next_lock := l\<rparr>)" "refines Y S n (n\<lparr>upgrades := us\<rparr>)"
  by (rule refines_shared; (rule quietly_preserves, rule quietly_fields | simp))+

lemma refines_send: "refines Y S n (n\<lparr>n_chans := snd (chan_send ch msg (n_chans n))\<rparr>)"
  by (rule refines_shared [OF quietly_preserves [OF quietly_send]]) (simp_all add: chan_send_grow)

lemma refines_enter: "named n h nm \<Longrightarrow> refines Y S n (n\<lparr>documents := (documents n)(nm \<mapsto> h)\<rparr>)"
  by (rule refines_shared [OF quietly_preserves [OF quietly_enter]]) simp_all

interpretation rf: call_effects Y S "refines Y S" for Y S
  by unfold_locales
    (rule refines_refl | erule (1) refines_trans | rule refines_send | rule refines_spawn | erule refines_enter |
     rule refines_command, rule quietly_preserves, (rule quietly_other_command, blast | erule quietly_join) | rule refines_fields)+

section \<open>Writers, actors and sockets\<close>

lemma refines_write:
  assumes "writer_turn ok (n_chans n ch) = (msg, d)"
  shows "refines Y S n (n\<lparr>n_chans := (n_chans n)(ch := d)\<rparr>)"
proof (rule refines_other [OF quietly_preserves [OF quietly_write [OF assms]]])
  fix a
  let ?s = "attach n a" and ?n = "n\<lparr>n_chans := (n_chans n)(ch := d)\<rparr>"
  show "actor_reach Y S (\<lambda>_ _. True) ?s (attach ?n a)"
  proof (cases "queue (n_chans n ch)")
    case Nil
    then have "(n_chans n)(ch := d) = n_chans n" using assms by (simp add: writer_turn_def fun_upd_idem)
    then have "attach ?n a = ?s" by (simp add: attach_def)
    then show ?thesis by (simp add: reach_refl)
  next
    case (Cons m q)
    let ?t = "?s\<lparr>chans := (chans ?s)(ch := (chans ?s ch)\<lparr>queue := q\<rparr>)\<rparr>"
    have t: "actor_reach Y S (\<lambda>_ _. True) ?s ?t" by (rule reach_one [OF deliver]) (simp add: Cons)
    let ?c = "n_chans n ch"
    have "d = ?c\<lparr>queue := q\<rparr> \<or> d = ?c\<lparr>queue := q, chan_closed := True\<rparr>"
      using assms Cons by (cases ?c; cases m; cases ok) (auto simp: writer_turn_def)
    then show ?thesis
    proof
      assume "d = ?c\<lparr>queue := q\<rparr>"
      then have "attach ?n a = ?t" by (simp add: attach_def)
      then show ?thesis by (simp only: t)
    next
      assume "d = ?c\<lparr>queue := q, chan_closed := True\<rparr>"
      then have "attach ?n a = ?t\<lparr>chans := (chans ?t)(ch := (chans ?t ch)\<lparr>chan_closed := True\<rparr>)\<rparr>" by (simp add: attach_def)
      then show ?thesis by (simp only: reach_step [OF t hang_up])
    qed
  qed
qed simp_all

lemma refines_pass: "refines Y S n (n\<lparr>n_clock := n_clock n + t\<rparr>)"
proof (rule refines_other [OF quietly_preserves [OF quietly_fields(6)]])
  fix a
  have "attach (n\<lparr>n_clock := n_clock n + t\<rparr>) a = (attach n a)\<lparr>clock := clock (attach n a) + t\<rparr>" by (simp add: attach_def)
  then show "actor_reach Y S (\<lambda>_ _. True) (attach n a) (attach (n\<lparr>n_clock := n_clock n + t\<rparr>) a)"
    by (simp only: reach_one [OF tick])
qed simp_all

lemma refines_act:
  assumes a: "actors n h = Some a" and t: "actor_turn Y S (attach n a) exit s'"
  shows "refines Y S n (detach h exit s' n)"
proof -
  let ?n = "detach h exit s' n"
  note p = quietly_preserves [OF quietly_act [OF a t]]
  have "tracks Y S n ?n" if ok: "net_ok S n"
    unfolding tracks_def
  proof (intro allI impI)
    fix h' a'
    assume a': "actors ?n h' = Some a'"
    have grow: "chans_grow (n_chans n) (n_chans ?n)"
      using turn_chans [OF t] ok a by (auto simp: detach_def net_ok_def actors_ok_def actor_ok_def attach_inv)
    show "\<exists>b. actors n h' = Some b \<and> actor_reach Y S (\<lambda>_ _. True) (attach n b) (attach ?n a')"
    proof (cases "h' = h")
      case True
      then have e: "\<not> exit" "a' = s'\<lparr>replies := []\<rparr>" using a' by (auto simp: detach_def split: if_splits)
      have "actor_reach Y S (\<lambda>_ _. True) (attach n a) (s'\<lparr>replies := []\<rparr>)"
        using t e(1) by (intro reach_step [OF reach_one [OF turn_is_step] replies_taken]) simp
      moreover have "attach ?n a' = s'\<lparr>replies := []\<rparr>" using turn_frame [OF t] by (simp add: e attach_def detach_def)
      ultimately show ?thesis using a True by auto
    next
      case False
      then have "actors n h' = Some a'" using a' by (simp add: detach_def)
      then show ?thesis using reach_shared [OF grow] by (auto simp: detach_def)
    qed
  qed
  then show ?thesis by (intro refinesI [OF p]) (simp_all add: detach_def)
qed

lemma refines_then:
  assumes "refines Y S n m" and "preserves S n n'" and "actors n' = actors m" "next_actor n' = next_actor m"
    and step: "\<And>a. actor_reach Y S (\<lambda>_ _. True) (attach m a) (attach n' a)"
  shows "refines Y S n n'"
proof -
  have "tracks Y S n m \<Longrightarrow> tracks Y S n n'"
    using actor_reach_trans [OF step] unfolding tracks_def assms(3) by meson
  moreover have "born Y S m \<Longrightarrow> born Y S n'"
    using actor_reach_trans [OF step] unfolding born_def assms(3) by meson
  ultimately show ?thesis using assms(1,2) by (auto simp: refines_def)
qed

lemma refines_retable:
  assumes "refines Y S n m" and "preserves S n n'" and "alike m n'"
  shows "refines Y S n n'"
proof (rule refines_then [OF assms(1,2)])
  fix a
  have "attach n' a = attach m a" using assms(3) by (simp add: attach_def alike_def)
  then show "actor_reach Y S (\<lambda>_ _. True) (attach m a) (attach n' a)" by (simp only: reach_refl)
qed (use assms(3) in \<open>simp_all add: alike_def\<close>)

lemma refines_vacuous: "\<not> net_ok S n \<Longrightarrow> refines Y S n n'"
  by (simp add: refines_def preserves_def)

lemma refines_hang_up: "refines Y S n (n\<lparr>n_chans := (n_chans n)(ch := (n_chans n ch)\<lparr>chan_closed := True\<rparr>)\<rparr>)"
proof (rule refines_other [OF quietly_preserves [OF quietly_hang_up]])
  fix a
  have "attach (n\<lparr>n_chans := (n_chans n)(ch := (n_chans n ch)\<lparr>chan_closed := True\<rparr>)\<rparr>) a =
      (attach n a)\<lparr>chans := (chans (attach n a))(ch := (chans (attach n a) ch)\<lparr>chan_closed := True\<rparr>)\<rparr>"
    by (simp add: attach_def)
  then show "actor_reach Y S (\<lambda>_ _. True) (attach n a) (attach (n\<lparr>n_chans := (n_chans n)(ch := (n_chans n ch)\<lparr>chan_closed := True\<rparr>)\<rparr>) a)"
    by (simp only: reach_one [OF actor_step.hang_up])
qed simp_all

interpretation rfr: task_effects Y S "refines Y S" Q for Y S Q
  by unfold_locales
    (erule refines_vacuous | erule (2) refines_retable | rule refines_hang_up | erule refines_write |
     erule (1) refines_act | rule refines_fields refines_pass)+

section \<open>Properties\<close>

text \<open>C3: The server refines the actor specification. Every document actor that runs in a reachable state of
  the server has been created by loading the document of its name and has since made a run of the actor's
  step relation; and from any reachable state on, whatever sockets, other actors, Redis and programmatic
  edits do, what becomes of the actor as long as it runs is again a run of that relation.\<close>

theorem server_refines_actors:
  assumes "serves Y S any_step (server_start S now w) n" and "actors n h = Some a"
  shows "(\<exists>cs t reg w'. actor_reach Y S (\<lambda>_ _. True) (spawn Y S (doc_name a) cs t reg w') (attach n a)) \<and>
    (\<forall>n' a'. serves Y S any_step n n' \<and> actors n' h = Some a' \<longrightarrow>
       actor_reach Y S (\<lambda>_ _. True) (attach n a) (attach n' a'))"
proof -
  have r: "refines Y S (server_start S now w) n" by (rule rfr.every_run [OF assms(1)])
  have ok: "net_ok S n" using r by (simp add: refines_def preserves_def net_ok_start)
  have "born Y S n" using r by (simp add: refines_def net_ok_start) (simp add: born_def server_start_def)
  moreover have "h < next_actor n" using ok assms(2) by (auto simp: net_ok_def actors_ok_def)
  then have "actor_reach Y S (\<lambda>_ _. True) (attach n a) (attach n' a')"
    if "serves Y S any_step n n'" "actors n' h = Some a'" for n' a'
    using rfr.every_run [OF that(1)] ok that(2) assms(2) by (fastforce simp: refines_def tracks_def)
  ultimately show ?thesis using assms(2) unfolding born_def by blast
qed

theorem server_refines_actors_witness:
  "\<exists>cs t reg w'. actor_reach opset demo_server (\<lambda>_ _. True) (spawn opset demo_server ''doc'' cs t reg w') (attach joined_net (acked_doc\<lparr>replies := []\<rparr>))"
  using server_refines_actors [OF serves_joined joined_facts(3)] by (simp add: joined_facts)

end
