(* ===== verification/Registry.thy ===== *)
theory Registry
  imports Server
begin

text \<open>
  \<open>ServerShared::document\<close> called by many tasks at once, for one document name. The function looks the
  name up, takes a per-name lock from the map \<open>creating\<close>, looks the name up again, spawns the actor,
  registers it and drops the lock entry. Each await point and each map operation is a step of its own,
  so that all interleavings of the callers are covered. The actor's exit is a further step, which
  removes the registry entry of its name as \<open>maybe_unload\<close> does, and so is the removal of the entry by a
  registration that found its actor gone. Theory \<open>System_Registry\<close> shows that the running server follows
  this protocol.
\<close>

section \<open>Callers and shared state\<close>

record 't reg =
  entry :: "nat option"
  creating :: "nat option"
  held :: "nat \<Rightarrow> bool"
  pcs :: "'t \<Rightarrow> pc"
  live :: "nat set"
  fresh_lock :: nat
  fresh_actor :: nat

definition reg_init :: "'t reg" where
  "reg_init = \<lparr>entry = None, creating = None, held = (\<lambda>_. False), pcs = (\<lambda>_. Start), live = {},
     fresh_lock = 0, fresh_actor = 0\<rparr>"

definition goto :: "'t \<Rightarrow> pc \<Rightarrow> 't reg \<Rightarrow> 't reg" where
  "goto t p s = s\<lparr>pcs := (pcs s)(t := p)\<rparr>"

text \<open>One step of caller \<open>t\<close>, or, if \<open>unloads\<close> allows it, the exit of an actor.\<close>

inductive reg_step :: "bool \<Rightarrow> 't reg \<Rightarrow> 't reg \<Rightarrow> bool" for unloads :: bool where
  hit: "pcs s t = Start \<Longrightarrow> entry s = Some h \<Longrightarrow> reg_step unloads s (goto t (Done h) s)"
| miss: "pcs s t = Start \<Longrightarrow> entry s = None \<Longrightarrow> reg_step unloads s (goto t Missed s)"
| clone_old: "pcs s t = Missed \<Longrightarrow> creating s = Some l \<Longrightarrow> reg_step unloads s (goto t (Waiting l) s)"
| clone_new: "pcs s t = Missed \<Longrightarrow> creating s = None \<Longrightarrow>
    reg_step unloads s (goto t (Waiting (fresh_lock s)) (s\<lparr>creating := Some (fresh_lock s), fresh_lock := Suc (fresh_lock s)\<rparr>))"
| acquire: "pcs s t = Waiting l \<Longrightarrow> \<not> held s l \<Longrightarrow> reg_step unloads s (goto t (Locked l) (s\<lparr>held := (held s)(l := True)\<rparr>))"
| recheck_hit: "pcs s t = Locked l \<Longrightarrow> entry s = Some h \<Longrightarrow>
    reg_step unloads s (goto t (Done h) (s\<lparr>held := (held s)(l := False)\<rparr>))"
| recheck_miss: "pcs s t = Locked l \<Longrightarrow> entry s = None \<Longrightarrow> reg_step unloads s (goto t (Spawning l) s)"
| spawn_actor: "pcs s t = Spawning l \<Longrightarrow>
    reg_step unloads s (goto t (Spawned l (fresh_actor s))
      (s\<lparr>live := insert (fresh_actor s) (live s), fresh_actor := Suc (fresh_actor s)\<rparr>))"
| insert_entry: "pcs s t = Spawned l h \<Longrightarrow> reg_step unloads s (goto t (Inserted l h) (s\<lparr>entry := Some h\<rparr>))"
| remove_creating: "pcs s t = Inserted l h \<Longrightarrow> reg_step unloads s (goto t (Removed l h) (s\<lparr>creating := None\<rparr>))"
| release: "pcs s t = Removed l h \<Longrightarrow> reg_step unloads s (goto t (Done h) (s\<lparr>held := (held s)(l := False)\<rparr>))"
| call_again: "pcs s t = Done h \<Longrightarrow> reg_step unloads s (goto t Start s)"
| unload: "unloads \<Longrightarrow> h \<in> live s \<Longrightarrow> reg_step unloads s (s\<lparr>entry := None, live := live s - {h}\<rparr>)"
| forget_entry: "unloads \<Longrightarrow> reg_step unloads s (s\<lparr>entry := None\<rparr>)"
| other_names: "fresh_lock s \<le> i \<Longrightarrow> fresh_actor s \<le> j \<Longrightarrow> reg_step unloads s (s\<lparr>fresh_lock := i, fresh_actor := j\<rparr>)"

inductive reg_reach :: "bool \<Rightarrow> 't reg \<Rightarrow> bool" for unloads :: bool where
  start: "reg_reach unloads reg_init"
| step: "reg_reach unloads s \<Longrightarrow> reg_step unloads s s' \<Longrightarrow> reg_reach unloads s'"

section \<open>The lock protocol\<close>

fun owns :: "pc \<Rightarrow> nat option" where
  "owns (Locked l) = Some l"
| "owns (Spawning l) = Some l"
| "owns (Spawned l h) = Some l"
| "owns (Inserted l h) = Some l"
| "owns (Removed l h) = Some l"
| "owns _ = None"

fun mentions :: "pc \<Rightarrow> nat option" where
  "mentions (Waiting l) = Some l"
| "mentions p = owns p"

text \<open>What a caller may be doing when the document is registered as \<open>h\<close>, and when it is not.\<close>

fun fits_entry :: "nat \<Rightarrow> pc \<Rightarrow> bool" where
  "fits_entry h (Spawning l) \<longleftrightarrow> False"
| "fits_entry h (Spawned l h') \<longleftrightarrow> False"
| "fits_entry h (Inserted l h') \<longleftrightarrow> h' = h"
| "fits_entry h (Removed l h') \<longleftrightarrow> h' = h"
| "fits_entry h (Done h') \<longleftrightarrow> h' = h"
| "fits_entry h _ \<longleftrightarrow> True"

fun fits_none :: "pc \<Rightarrow> bool" where
  "fits_none (Inserted l h) \<longleftrightarrow> False"
| "fits_none (Removed l h) \<longleftrightarrow> False"
| "fits_none (Done h) \<longleftrightarrow> False"
| "fits_none _ \<longleftrightarrow> True"

definition locks_ok :: "'t reg \<Rightarrow> bool" where
  "locks_ok s \<longleftrightarrow>
     (\<forall>t l. owns (pcs s t) = Some l \<longrightarrow> held s l) \<and>
     (\<forall>t t' l. owns (pcs s t) = Some l \<and> owns (pcs s t') = Some l \<longrightarrow> t = t') \<and>
     (\<forall>t l. mentions (pcs s t) = Some l \<longrightarrow> l < fresh_lock s) \<and>
     (\<forall>l. creating s = Some l \<longrightarrow> l < fresh_lock s)"

definition single_ok :: "'t reg \<Rightarrow> bool" where
  "single_ok s \<longleftrightarrow>
     (case entry s of
        Some h \<Rightarrow> live s = {h} \<and> (\<forall>t. fits_entry h (pcs s t))
      | None \<Rightarrow> live s = {h. \<exists>t l. pcs s t = Spawned l h} \<and> (\<forall>t. fits_none (pcs s t)) \<and>
          (\<forall>t l. mentions (pcs s t) = Some l \<longrightarrow> creating s = Some l))"

lemma owns_mentions: "owns p = Some l \<Longrightarrow> mentions p = Some l"
  by (cases p) auto

lemma locks_ok_step:
  assumes "reg_step u s s'" and "locks_ok s"
  shows "locks_ok s'"
  using assms
  by (induction rule: reg_step.induct)
    (auto simp: locks_ok_def goto_def split: if_splits, (metis owns.simps mentions.simps less_Suc_eq order_less_le_trans)+)

text \<open>A lock that is held has an owner, who is not waiting.\<close>

lemma held_owned: "reg_reach u s \<Longrightarrow> held s l \<Longrightarrow> \<exists>t. owns (pcs s t) = Some l"
proof (induction arbitrary: l rule: reg_reach.induct)
  case start
  then show ?case by (simp add: reg_init_def)
next
  case (step s s')
  from step.hyps(2) step.IH [of l] step.prems show ?case
    by (induction rule: reg_step.induct)
      (auto simp: goto_def split: if_splits, (metis owns.simps option.distinct(1) option.inject)+)
qed

lemma locks_okD:
  assumes "locks_ok s"
  shows "owns (pcs s t) = Some l \<Longrightarrow> owns (pcs s t') = Some l \<Longrightarrow> t = t'"
    and "mentions (pcs s t) = Some l \<Longrightarrow> l < fresh_lock s"
  using assms unfolding locks_ok_def by blast+

lemma single_ok_NoneD:
  assumes "single_ok s" and "entry s = None"
  shows "live s = {h. \<exists>t l. pcs s t = Spawned l h}" and "fits_none (pcs s t)"
    and "mentions (pcs s t) = Some l \<Longrightarrow> creating s = Some l"
  using assms by (auto simp: single_ok_def)

lemma only_lock:
  assumes "single_ok s" and "entry s = None" and "owns (pcs s t') = Some l'" and "owns (pcs s t) = Some l"
  shows "l' = l"
  using single_ok_NoneD(3) [OF assms(1,2) owns_mentions [OF assms(3)]]
    single_ok_NoneD(3) [OF assms(1,2) owns_mentions [OF assms(4)]] by simp

lemma single_ok_SomeD:
  assumes "single_ok s" and "entry s = Some h"
  shows "live s = {h}" and "fits_entry h (pcs s t)"
  using assms by (auto simp: single_ok_def)

lemma single_ok_held [simp]: "single_ok (s\<lparr>held := f\<rparr>) = single_ok s"
  by (cases "entry s") (simp_all add: single_ok_def)

lemma single_ok_goto:
  assumes ok: "single_ok s" and some: "\<And>h. entry s = Some h \<Longrightarrow> fits_entry h p"
    and none: "entry s = None \<Longrightarrow> fits_none p \<and> (\<forall>l. mentions p = Some l \<longrightarrow> creating s = Some l) \<and>
      (\<forall>l h. pcs s t \<noteq> Spawned l h) \<and> (\<forall>l h. p \<noteq> Spawned l h)"
  shows "single_ok (goto t p s)"
proof (cases "entry s")
  case None
  have "(\<exists>t' l. ((pcs s)(t := p)) t' = Spawned l h) = (\<exists>t' l. pcs s t' = Spawned l h)" for h
    using none [OF None] by (metis fun_upd_apply)
  then show ?thesis
    using ok none [OF None] None by (simp add: single_ok_def goto_def)
next
  case (Some h)
  then show ?thesis using ok some [OF Some] by (simp add: single_ok_def goto_def)
qed

lemma single_ok_step:
  assumes "reg_step False s s'" and "locks_ok s" and "single_ok s"
  shows "single_ok s'"
  using assms
proof (induction rule: reg_step.induct)
  case (clone_new s t)
  have "mentions (pcs s t') \<noteq> Some l" if "entry s = None" for t' l
    using single_ok_NoneD(3) [OF clone_new.prems(2) that, of t' l] clone_new.hyps(2) by auto
  then have "single_ok (s\<lparr>creating := Some (fresh_lock s), fresh_lock := Suc (fresh_lock s)\<rparr>)"
    using clone_new.prems(2) by (cases "entry s") (simp_all add: single_ok_def)
  then show ?case using clone_new.hyps by (intro single_ok_goto) auto
next
  case (spawn_actor s t l)
  have e: "entry s = None"
    using single_ok_SomeD(2) [OF spawn_actor.prems(2), of _ t] spawn_actor.hyps by (cases "entry s") auto
  have none: "pcs s t' \<noteq> Spawned l' h" for t' l' h
  proof
    assume t': "pcs s t' = Spawned l' h"
    then have "owns (pcs s t') = Some l"
      using only_lock [OF spawn_actor.prems(2) e, of t' l' t l] spawn_actor.hyps by simp
    then have "t' = t" using locks_okD(1) [OF spawn_actor.prems(1)] spawn_actor.hyps by simp
    then show False using t' spawn_actor.hyps by simp
  qed
  have live: "live s = {}" using single_ok_NoneD(1) [OF spawn_actor.prems(2) e] none by simp
  have "{h. \<exists>t' l'. ((pcs s)(t := Spawned l (fresh_actor s))) t' = Spawned l' h} = {fresh_actor s}"
    using none by (auto split: if_splits)
  then show ?case
    using spawn_actor.prems(2) spawn_actor.hyps e live single_ok_NoneD(3) [OF spawn_actor.prems(2) e, of t l]
    by (simp add: single_ok_def goto_def)
next
  case (insert_entry s t l h)
  have e: "entry s = None"
    using single_ok_SomeD(2) [OF insert_entry.prems(2), of _ t] insert_entry.hyps by (cases "entry s") auto
  have only: "owns (pcs s t') = None" if "t' \<noteq> t" for t'
  proof (rule ccontr)
    assume "owns (pcs s t') \<noteq> None"
    then obtain l' where l': "owns (pcs s t') = Some l'" by auto
    then have "l' = l"
      using only_lock [OF insert_entry.prems(2) e, of t' l' t l] insert_entry.hyps by simp
    then show False using that l' locks_okD(1) [OF insert_entry.prems(1), of t' l t] insert_entry.hyps by simp
  qed
  have "t' = t" if "pcs s t' = Spawned l' h'" for t' l' h' using only [of t'] that by auto
  then have "live s = {h}"
    using single_ok_NoneD(1) [OF insert_entry.prems(2) e] insert_entry.hyps by auto
  moreover have "fits_entry h (pcs s t')" if "t' \<noteq> t" for t'
    using only [OF that] single_ok_NoneD(2) [OF insert_entry.prems(2) e, of t'] by (cases "pcs s t'") auto
  ultimately show ?case by (simp add: single_ok_def goto_def)
next
  case (remove_creating s t l h)
  then obtain h' where "entry s = Some h'" using single_ok_NoneD(2) [of s t] by (cases "entry s") auto
  then show ?case
    using remove_creating single_ok_SomeD(2) [of s h' t] by (simp add: single_ok_def goto_def)
next
  case (release s t l h)
  then obtain h' where "entry s = Some h'" using single_ok_NoneD(2) [of s t] by (cases "entry s") auto
  then show ?case
    using release single_ok_SomeD(2) [of s h' t] by (simp add: single_ok_def goto_def)
next
  case (hit s t h)
  then show ?case by (intro single_ok_goto) auto
next
  case (miss s t)
  then show ?case by (intro single_ok_goto) auto
next
  case (clone_old s t l)
  then show ?case by (intro single_ok_goto) auto
next
  case (acquire s t l)
  then have "single_ok (s\<lparr>held := (held s)(l := True)\<rparr>)" by simp
  then show ?case
    using acquire single_ok_NoneD(3) [of s t l] by (intro single_ok_goto) auto
next
  case (recheck_hit s t l h)
  then have "single_ok (s\<lparr>held := (held s)(l := False)\<rparr>)" by simp
  then show ?case using recheck_hit by (intro single_ok_goto) auto
next
  case (recheck_miss s t l)
  then show ?case using single_ok_NoneD(3) [of s t l] by (intro single_ok_goto) auto
next
  case (call_again s t h)
  then have "entry s \<noteq> None" using single_ok_NoneD(2) [of s t] by auto
  then show ?case using call_again by (intro single_ok_goto) auto
next
  case (other_names s i j)
  then show ?case by (cases "entry s") (simp_all add: single_ok_def)
qed simp_all

lemma reg_inv: "reg_reach False s \<Longrightarrow> locks_ok s \<and> single_ok s"
proof (induction rule: reg_reach.induct)
  case start
  then show ?case by (simp add: locks_ok_def single_ok_def reg_init_def)
next
  case (step s s')
  then show ?case using locks_ok_step single_ok_step by blast
qed

section \<open>What the protocol guarantees\<close>

text \<open>As long as no actor exits, however many tasks ask for the document at the same time and however their
  steps interleave, at most one actor is ever alive, every caller that has an answer has that actor, and
  once the document is registered it is that actor.\<close>

lemma one_actor_without_unloads:
  assumes "reg_reach False s"
  shows "(h \<in> live s \<and> h' \<in> live s \<longrightarrow> h = h') \<and> (pcs s t = Done h \<longrightarrow> entry s = Some h \<and> live s = {h})"
proof (cases "entry s")
  case None
  have ok: "locks_ok s" "single_ok s" using reg_inv [OF assms] by blast+
  have "h = h'" if a: "h \<in> live s" "h' \<in> live s"
  proof -
    obtain t1 l1 t2 l2 where t: "pcs s t1 = Spawned l1 h" "pcs s t2 = Spawned l2 h'"
      using a single_ok_NoneD(1) [OF ok(2) None] by auto
    then have "l1 = l2" using only_lock [OF ok(2) None, of t1 l1 t2 l2] by simp
    then have "t1 = t2" using t locks_okD(1) [OF ok(1), of t1 l1 t2] by simp
    then show ?thesis using t by simp
  qed
  then show ?thesis using single_ok_NoneD(2) [OF ok(2) None, of t] by auto
next
  case (Some h0)
  have ok: "single_ok s" using reg_inv [OF assms] by blast
  show ?thesis using single_ok_SomeD(1) [OF ok Some] single_ok_SomeD(2) [OF ok Some, of t] Some by auto
qed

end
