(* ===== verification/System_Registry.thy ===== *)
theory System_Registry
  imports System_Sim Registry
begin

text \<open>
  The running server follows the protocol of theory \<open>Registry\<close>: seen through the lookups of one document
  name, every run of the server is a run of that protocol, in which the exit of an actor and the removal of
  an entry by a registration that found its actor gone are the steps the flag \<open>unloads\<close> allows. What the
  protocol guarantees therefore holds of the server: as long as no actor ends, every document has one
  actor, whatever the interleaving of sockets and programmatic edits, and a lookup that waits for a lock
  waits for another one that can go on.
\<close>

section \<open>The protocol's view of the server\<close>

fun lookup_pc :: "string \<Rightarrow> 'j call option \<Rightarrow> pc" where
  "lookup_pc nm (Some (Looking p pc)) = (if call_name p = nm then pc else Start)"
| "lookup_pc nm _ = Start"

definition reg_of :: "string \<Rightarrow> ('d, 'v, 'a, 'j, 'w) net \<Rightarrow> caller reg" where
  "reg_of nm n =
     \<lparr>entry = documents n nm, creating = n_creating n nm, held = (\<lambda>l. (nm, l) \<in> n_locked n),
      pcs = (\<lambda>t. lookup_pc nm (calls n t)), live = {h. \<exists>a. actors n h = Some a \<and> doc_name a = nm},
      fresh_lock = next_lock n, fresh_actor = next_actor n\<rparr>"

text \<open>No actor has ended.\<close>

definition alive :: "('d, 'v, 'a, 'j, 'w) net \<Rightarrow> bool" where
  "alive n \<longleftrightarrow> (\<forall>h < next_actor n. actors n h \<noteq> None)"

definition follows :: "bool \<Rightarrow> ('d, 'j, 'w) server \<Rightarrow> string \<Rightarrow> ('d, 'v, 'a, 'j, 'w) net \<Rightarrow> ('d, 'v, 'a, 'j, 'w) net \<Rightarrow> bool" where
  "follows u S nm n n' \<longleftrightarrow> preserves S n n' \<and>
     (net_ok S n \<and> (u \<or> alive n) \<longrightarrow> (u \<or> alive n') \<and> (reg_reach u (reg_of nm n) \<longrightarrow> reg_reach u (reg_of nm n')))"

lemma follows_trans: "follows u S nm n m \<Longrightarrow> follows u S nm m k \<Longrightarrow> follows u S nm n k"
  using preserves_trans by (auto simp: follows_def preserves_def)

text \<open>Steps the protocol does not see.\<close>

definition unseen :: "('d, 'v, 'a, 'j, 'w) net \<Rightarrow> ('d, 'v, 'a, 'j, 'w) net \<Rightarrow> bool" where
  "unseen n n' \<longleftrightarrow> documents n' = documents n \<and> n_creating n' = n_creating n \<and> n_locked n' = n_locked n \<and>
     next_lock n' = next_lock n \<and> next_actor n' = next_actor n \<and>
     (\<forall>h. map_option doc_name (actors n' h) = map_option doc_name (actors n h))"

lemma unseen_refl [simp]: "unseen n n"
  by (simp add: unseen_def)

lemma unseen_live: "unseen n n' \<Longrightarrow> (\<exists>a. actors n' h = Some a \<and> doc_name a = nm) = (\<exists>a. actors n h = Some a \<and> doc_name a = nm)"
  by (metis (no_types, lifting) map_option_eq_Some unseen_def)

lemma unseen_alive: "unseen n n' \<Longrightarrow> alive n' = alive n"
  unfolding unseen_def alive_def by (metis option.map_disc_iff)

lemma reg_of_unseen:
  assumes "unseen n n'" and "\<And>t. lookup_pc nm (calls n' t) = lookup_pc nm (calls n t)"
  shows "reg_of nm n' = reg_of nm n"
  using assms(1) unfolding reg_of_def unseen_live [OF assms(1)] by (simp add: unseen_def assms(2))

lemma follows_unseen:
  assumes "preserves S n n'" and "unseen n n'" and "\<And>t. lookup_pc nm (calls n' t) = lookup_pc nm (calls n t)"
  shows "follows u S nm n n'"
  using assms reg_of_unseen [OF assms(2,3)] unseen_alive [OF assms(2)] by (simp add: follows_def)

lemma follows_quietly: "quietly S n n' \<Longrightarrow> unseen n n' \<Longrightarrow> follows u S nm n n'"
  by (rule follows_unseen) (simp_all add: quietly_def)

lemma unseen_command: "unseen n (snd (send_command h cmd n))"
  by (simp add: unseen_def send_command_def split: option.split)

lemma follows_refl: "follows u S nm n n"
  by (simp add: follows_quietly quietly_refl)

lemma follows_command: "(\<And>conn ack. cmd \<noteq> AddConnection conn ack) \<Longrightarrow> follows u S nm n (snd (send_command h cmd n))"
  by (rule follows_quietly [OF quietly_other_command unseen_command])

lemma follows_fields:
  "follows u S nm n (n\<lparr>n_world := w\<rparr>)" "follows u S nm n (n\<lparr>next_conn_id := j\<rparr>)" "follows u S nm n (n\<lparr>n_replies := rs\<rparr>)"
  "follows u S nm n (n\<lparr>n_clock := n_clock n + t\<rparr>)" "follows u S nm n (n\<lparr>upgrades := us\<rparr>)" "follows u S nm n (n\<lparr>next_ack := i\<rparr>)"
  by (rule follows_quietly; (rule quietly_fields | simp add: unseen_def))+

lemma follows_send: "follows u S nm n (n\<lparr>n_chans := snd (chan_send ch msg (n_chans n))\<rparr>)"
  by (rule follows_quietly [OF quietly_send]) (simp add: unseen_def)

interpretation fw: net_effects Y S "follows u S nm" for Y S u nm
  by standard
    (rule follows_refl | erule (1) follows_trans | rule follows_send | rule follows_command, blast | rule follows_fields)+

text \<open>Every handler between two await points is unseen.\<close>

interpretation us: net_effects Y S "\<lambda>n n'. unseen n n' \<and> calls n' = calls n" for Y S
  by standard (use unseen_command in \<open>auto simp: unseen_def send_command_def split: option.split\<close>)

section \<open>Actors\<close>

text \<open>A turn of an actor removes the registry entry of its name when it ends it, and only then.\<close>

lemma maybe_unload_entry:
  "maybe_unload Y S s = (x, s') \<Longrightarrow> registry s' = (if x then (registry s)(doc_name s := None) else registry s)"
  by (cases rule: maybe_unload_cases [of s S Y]) (auto simp: run_store_def Let_def split: prod.splits)

lemma command_entry:
  assumes "handle_command Y S cmd s = Some (x, s')"
  shows "doc_name s' = doc_name s \<and> registry s' = (if x then (registry s)(doc_name s := None) else registry s)"
proof (cases cmd)
  case (RemoveConnection cid)
  then have "maybe_unload Y S (remove_connection Y S cid s) = (x, s')" using assms by (simp add: handle_command_def)
  from maybe_unload_entry [OF this] show ?thesis
    using narrows_remove [of s Y S cid] command_addrs [OF assms] by (simp add: narrows_def)
next
  case (ClientFrame cid data)
  then have "narrows s s'" "\<not> x" using assms narrows_client_frame by (auto simp: handle_command_def)
  then show ?thesis by (auto simp: narrows_def)
next
  case (ExternalFrame data reply)
  then show ?thesis using assms narrows_external [of s Y S data reply] by (auto simp: handle_command_def narrows_def)
next
  case (DirectApply u ack)
  then have "narrows s s'" "\<not> x" using assms narrows_apply [of s Y S u Local] by (auto simp: handle_command_def Let_def)
  then show ?thesis by (auto simp: narrows_def)
next
  case (AddConnection c ack)
  then show ?thesis using assms by (auto simp: handle_command_def add_connection_frame Let_def)
qed

lemma batch_entry:
  "run_batch Y S cs s = Some (x, s') \<Longrightarrow>
     doc_name s' = doc_name s \<and> registry s' = (if x then (registry s)(doc_name s := None) else registry s)"
proof (induction cs arbitrary: s)
  case (Cons c cs)
  from Cons.prems obtain b t where t: "handle_command Y S c s = Some (b, t)" and
    r: "if b then x \<and> s' = t else run_batch Y S cs t = Some (x, s')"
    by (auto split: option.splits prod.splits bool.splits)
  then show ?case using command_entry [OF t] Cons.IH [of t] by (cases b) auto
qed simp

lemma turn_entry:
  assumes "actor_turn Y S s x s'"
  shows "registry s' = (if x then (registry s)(doc_name s := None) else registry s)"
  using assms
proof (cases rule: actor_turn.cases)
  case turn_commands
  then obtain batch left t where r: "run_batch Y S batch (s\<lparr>rx := left\<rparr>) = Some (x, t)" and s': "s' = flush_broadcast Y t"
    by (auto simp: on_commands_def split: list.splits prod.splits)
  show ?thesis using batch_entry [OF r] narrows_flush [of t Y] by (simp add: s' narrows_def)
next
  case (turn_stored ok rest)
  let ?t = "s\<lparr>store_results := rest, storing := False\<rparr>"
  let ?u = "if \<not> ok then mark_dirty (last_origin ?t) ?t else ?t"
  have "maybe_unload Y S ?u = (x, s')" using turn_stored(2) by (simp add: on_store_result_def Let_def)
  from maybe_unload_entry [OF this] show ?thesis by (cases ok) (simp_all add: mark_dirty_def)
next
  case turn_timer
  show ?thesis
  proof (cases "connections s = []")
    case True
    then have "maybe_unload Y S (run_store Y S s) = (x, s')" using turn_timer(2) by (simp add: on_deadline_def)
    moreover have "registry (run_store Y S s) = registry s" "doc_name (run_store Y S s) = doc_name s"
      by (simp_all add: run_store_def Let_def split: prod.split)
    ultimately show ?thesis using maybe_unload_entry by fastforce
  next
    case False
    then show ?thesis using turn_timer(2) by (auto simp: on_deadline_def spawn_store_def)
  qed
next
  case turn_task
  then show ?thesis by (simp add: store_task_def split: list.split prod.split)
qed

lemma follows_act:
  assumes a: "actors n h = Some a" and t: "actor_turn Y S (attach n a) exit s'" and "exit \<Longrightarrow> u"
  shows "follows u S nm n (detach h exit s' n)"
proof (cases exit)
  case False
  have "registry s' = documents n" "doc_name s' = doc_name a" using turn_entry [OF t] turn_frame [OF t] False by simp_all
  then have "unseen n (detach h exit s' n)" using a False by (simp add: unseen_def detach_def)
  then show ?thesis by (rule follows_quietly [OF quietly_act [OF a t]])
next
  case True
  let ?n = "detach h exit s' n"
  have d: "documents ?n = (documents n)(doc_name a := None)" using turn_entry [OF t] True by (simp add: detach_def)
  have "reg_reach u (reg_of nm ?n)" if r: "reg_reach u (reg_of nm n)"
  proof (cases "doc_name a = nm")
    case True
    have "reg_step u (reg_of nm n) ((reg_of nm n)\<lparr>entry := None, live := live (reg_of nm n) - {h}\<rparr>)"
      by (rule unload) (use a assms(3) \<open>exit\<close> True in \<open>auto simp: reg_of_def\<close>)
    moreover have "(reg_of nm n)\<lparr>entry := None, live := live (reg_of nm n) - {h}\<rparr> = reg_of nm ?n"
      using d True \<open>exit\<close> by (auto simp: reg_of_def) (auto simp: detach_def split: if_splits)
    ultimately show ?thesis using r reg_reach.step by metis
  next
    case False
    have "reg_of nm ?n = reg_of nm n"
      using d False \<open>exit\<close> a by (auto simp: reg_of_def) (auto simp: detach_def split: if_splits)
    then show ?thesis using r by simp
  qed
  then show ?thesis using quietly_preserves [OF quietly_act [OF a t]] assms(3) True by (simp add: follows_def)
qed

section \<open>Lookups\<close>

lemma lookup_calls: "lookup_turn Y S nm pc n = Some (pc', n') \<Longrightarrow> calls n' = calls n"
  by (cases pc) (auto simp: lock_entry_def spawn_document_def Let_def split: option.splits if_splits)

lemma reg_of_goto:
  "call_name p = nm \<Longrightarrow> reg_of nm (n\<lparr>calls := (calls n)(t \<mapsto> Looking p pc)\<rparr>) = goto t pc (reg_of nm n)"
  by (auto simp: reg_of_def goto_def)

lemma reg_of_sel [simp]:
  "entry (reg_of nm n) = documents n nm" "creating (reg_of nm n) = n_creating n nm"
  "held (reg_of nm n) l = ((nm, l) \<in> n_locked n)" "pcs (reg_of nm n) t = lookup_pc nm (calls n t)"
  "fresh_lock (reg_of nm n) = next_lock n" "fresh_actor (reg_of nm n) = next_actor n"
  by (simp_all add: reg_of_def)

lemma spawn_seen: "net_ok S n \<Longrightarrow> reg_of nm (snd (spawn_document Y S nm n)) =
    (reg_of nm n)\<lparr>live := insert (next_actor n) (live (reg_of nm n)), fresh_actor := Suc (next_actor n)\<rparr>"
  by (auto simp: reg_of_def spawn_document_def spawn_frames Let_def)

lemma lookup_own_step:
  assumes "net_ok S n" and pc: "lookup_pc nm (calls n t) = pc" and l: "lookup_turn Y S nm pc n = Some (pc', n')"
  shows "reg_step u (reg_of nm n) (goto t pc' (reg_of nm n'))"
proof (cases pc)
  case Start
  then show ?thesis
    using l pc hit [of "reg_of nm n" t _ u] miss [of "reg_of nm n" t u] by (auto split: option.splits)
next
  case Missed
  show ?thesis
  proof (cases "n_creating n nm")
    case None
    have "reg_of nm (n\<lparr>n_creating := (n_creating n)(nm \<mapsto> next_lock n), next_lock := Suc (next_lock n)\<rparr>) =
        (reg_of nm n)\<lparr>creating := Some (next_lock n), fresh_lock := Suc (next_lock n)\<rparr>" by (simp add: reg_of_def)
    then show ?thesis using l pc Missed None clone_new [of "reg_of nm n" t u] by (auto simp: lock_entry_def)
  next
    case (Some lk)
    then show ?thesis using l pc Missed clone_old [of "reg_of nm n" t lk u] by (auto simp: lock_entry_def)
  qed
next
  case (Waiting lk)
  have "reg_of nm (n\<lparr>n_locked := insert (nm, lk) (n_locked n)\<rparr>) = (reg_of nm n)\<lparr>held := (held (reg_of nm n))(lk := True)\<rparr>"
    by (auto simp: reg_of_def fun_eq_iff)
  then show ?thesis using l pc Waiting acquire [of "reg_of nm n" t lk u] by (auto split: if_splits)
next
  case (Locked lk)
  have "reg_of nm (n\<lparr>n_locked := n_locked n - {(nm, lk)}\<rparr>) = (reg_of nm n)\<lparr>held := (held (reg_of nm n))(lk := False)\<rparr>"
    by (auto simp: reg_of_def fun_eq_iff)
  then show ?thesis
    using l pc Locked recheck_hit [of "reg_of nm n" t lk _ u] recheck_miss [of "reg_of nm n" t lk u] by (auto split: option.splits)
next
  case (Spawning lk)
  obtain h where h: "spawn_document Y S nm n = (h, n')" "pc' = Spawned lk h" using l Spawning by (auto split: prod.splits)
  then have "h = next_actor n" by (simp add: spawn_document_def Let_def)
  then show ?thesis
    using h spawn_seen [OF assms(1), of nm Y] pc Spawning spawn_actor [of "reg_of nm n" t lk u] by simp
next
  case (Spawned lk h)
  have "reg_of nm (n\<lparr>documents := (documents n)(nm \<mapsto> h)\<rparr>) = (reg_of nm n)\<lparr>entry := Some h\<rparr>" by (simp add: reg_of_def)
  then show ?thesis using l pc Spawned insert_entry [of "reg_of nm n" t lk h u] by auto
next
  case (Inserted lk h)
  have "reg_of nm (n\<lparr>n_creating := (n_creating n)(nm := None)\<rparr>) = (reg_of nm n)\<lparr>creating := None\<rparr>" by (simp add: reg_of_def)
  then show ?thesis using l pc Inserted remove_creating [of "reg_of nm n" t lk h u] by auto
next
  case (Removed lk h)
  have "reg_of nm (n\<lparr>n_locked := n_locked n - {(nm, lk)}\<rparr>) = (reg_of nm n)\<lparr>held := (held (reg_of nm n))(lk := False)\<rparr>"
    by (auto simp: reg_of_def fun_eq_iff)
  then show ?thesis using l pc Removed release [of "reg_of nm n" t lk h u] by auto
qed (use l in simp)

lemma lookup_other_step:
  assumes "net_ok S n" and "lookup_turn Y S nm' pc n = Some (pc', n')" and "nm' \<noteq> nm"
  shows "reg_step u (reg_of nm n) (reg_of nm n')"
proof -
  have "actors n (next_actor n) = None" using assms(1) by (cases "actors n (next_actor n)") (auto simp: net_ok_def actors_ok_def)
  then have "reg_of nm n' = (reg_of nm n)\<lparr>fresh_lock := next_lock n', fresh_actor := next_actor n'\<rparr> \<and>
      next_lock n \<le> next_lock n' \<and> next_actor n \<le> next_actor n'"
    using assms(2,3)
    by (cases pc) (auto simp: reg_of_def lock_entry_def spawn_document_def spawn_frames Let_def fun_eq_iff split: option.splits if_splits)
  then show ?thesis using other_names [of "reg_of nm n" "next_lock n'" "next_actor n'" u] by simp
qed

lemma alive_lookup: "lookup_turn Y S nm pc n = Some (pc', n') \<Longrightarrow> alive n \<Longrightarrow> alive n'"
  by (cases pc) (auto simp: alive_def lock_entry_def spawn_document_def less_Suc_eq Let_def split: option.splits if_splits)

section \<open>Waiting handlers\<close>

text \<open>A lookup that goes on.\<close>

lemma follows_look:
  assumes k: "calls n t = Some (Looking p pc)" and l: "lookup_turn Y S (call_name p) pc n = Some (pc', n')"
  shows "follows u S nm n (n'\<lparr>calls := (calls n')(t \<mapsto> Looking p pc')\<rparr>)"
proof -
  let ?n = "n'\<lparr>calls := (calls n')(t \<mapsto> Looking p pc')\<rparr>"
  have c: "calls n' = calls n" by (rule lookup_calls [OF l])
  have "call_turn Y S (Looking p pc) n = Some (Inl (Looking p pc'), n')" using l by (cases pc) auto
  then have p: "preserves S n ?n" by (rule preserves_call [OF k])
  have "reg_step u (reg_of nm n) (reg_of nm ?n)" if "net_ok S n"
  proof (cases "call_name p = nm")
    case True
    then show ?thesis using lookup_own_step [OF that, of nm t pc Y pc' n' u] k l by (simp add: reg_of_goto)
  next
    case False
    then have "lookup_pc nm (calls ?n t') = lookup_pc nm (calls n' t')" for t' using k by (simp add: c)
    then have "reg_of nm ?n = reg_of nm n'" by (intro reg_of_unseen) (simp add: unseen_def)
    then show ?thesis using lookup_other_step [OF that l False] by simp
  qed
  moreover have "alive n \<Longrightarrow> alive ?n" using alive_lookup [OF l] by (simp add: alive_def)
  ultimately show ?thesis using p reg_reach.step unfolding follows_def by blast
qed

text \<open>A handler that leaves its lookup, or comes back to it, with the registry entry dropped or not.\<close>

lemma follows_leaves:
  assumes p: "preserves S n n'" and "\<And>t'. t' \<noteq> t \<Longrightarrow> calls n' t' = calls n t'"
    and from_: "lookup_pc nm (calls n t) = Start \<or> (\<exists>h. lookup_pc nm (calls n t) = Done h)" and to: "lookup_pc nm (calls n' t) = Start"
    and same: "unseen (n\<lparr>documents := documents n'\<rparr>) n'"
    and entry: "documents n' nm = documents n nm \<or> documents n' nm = None \<and> (net_ok S n \<longrightarrow> u \<or> \<not> alive n)"
  shows "follows u S nm n n'"
proof -
  let ?r = "goto t Start (reg_of nm n)"
  have r: "reg_of nm n' = ?r\<lparr>entry := documents n' nm\<rparr>"
  proof -
    have "lookup_pc nm (calls n' t') = (if t' = t then Start else lookup_pc nm (calls n t'))" for t'
      using assms(2) [of t'] to by simp
    then show ?thesis
      using same unseen_live [OF same] by (auto simp: reg_of_def goto_def unseen_def fun_eq_iff)
  qed
  have alive: "alive n' = alive n" using unseen_alive [OF same] by (simp add: alive_def)
  have "reg_reach u (reg_of nm n')" if reach: "reg_reach u (reg_of nm n)" and ok: "net_ok S n" "u \<or> alive n"
  proof -
    have "reg_reach u ?r"
    proof (cases "lookup_pc nm (calls n t) = Start")
      case True
      then have "?r = reg_of nm n" by (auto simp: goto_def reg_of_def)
      then show ?thesis using reach by simp
    next
      case False
      then show ?thesis using from_ reg_reach.step [OF reach call_again] by auto
    qed
    moreover have "?r\<lparr>entry := documents n nm\<rparr> = ?r" by (simp add: goto_def reg_of_def)
    ultimately show ?thesis
      using entry ok r reg_reach.step [OF _ forget_entry, of u ?r] by (cases "documents n' nm = documents n nm") auto
  qed
  then show ?thesis using p alive by (simp add: follows_def)
qed

text \<open>All other turns of waiting handlers.\<close>

lemma call_leaves:
  assumes "call_turn Y S k n = Some (r, n')" and "\<And>p pc pc'. \<not> (k = Looking p pc \<and> lookup_turn Y S (call_name p) pc n = Some (pc', n'))"
    and "net_ok S n \<Longrightarrow> call_ok n k"
  shows "(lookup_pc nm (Some k) = Start \<or> (\<exists>h. lookup_pc nm (Some k) = Done h)) \<and>
    (\<forall>k'. r = Inl k' \<longrightarrow> lookup_pc nm (Some k') = Start) \<and> unseen (n\<lparr>documents := documents n'\<rparr>) n' \<and> calls n' = calls n \<and>
    (documents n' nm = documents n nm \<or> documents n' nm = None \<and> (net_ok S n \<longrightarrow> u \<or> \<not> alive n))"
proof -
  have dead: "net_ok S n \<Longrightarrow> \<not> alive n" if "actors n h = None" "call_handle k = Some h" for h
    using assms(3) that by (auto simp: call_ok_def named_def alive_def)
  from assms(1) show ?thesis
  proof (cases rule: call_turn_cases)
    case (look p pc pc')
    then show ?thesis using assms(2) by blast
  next
    case (sent p h a)
    then show ?thesis
      using unseen_command [of "n\<lparr>next_ack := Suc (next_ack n)\<rparr>" h "call_command p (next_ack n)"]
      by (auto simp: unseen_def send_command_def)
  next
    case (gone p h)
    then show ?thesis using dead [of h] call_gone_shape [OF gone(3)] by (auto simp: unseen_def split: if_splits)
  next
    case (acked p h ack)
    then show ?thesis by simp
  next
    case (lost p h ack)
    then show ?thesis
      using dead [of h] call_gone_shape [of p n r n'] by (cases p) (auto simp: unseen_def simp del: call_gone.simps split: if_splits)
  qed
qed

lemma follows_call:
  assumes k: "calls n t = Some k" and t: "call_turn Y S k n = Some (Inl k', n')"
  shows "follows u S nm n (n'\<lparr>calls := (calls n')(t \<mapsto> k')\<rparr>)"
proof (cases "\<exists>p pc pc'. k = Looking p pc \<and> lookup_turn Y S (call_name p) pc n = Some (pc', n')")
  case True
  then obtain p pc pc' where l: "k = Looking p pc" "lookup_turn Y S (call_name p) pc n = Some (pc', n')" by blast
  then have "k' = Looking p pc'" using t by (cases pc) auto
  then show ?thesis using follows_look k l by blast
next
  case False
  have "net_ok S n \<Longrightarrow> call_ok n k" using k by (auto simp: net_ok_def calls_ok_def)
  note c = call_leaves [OF t _ this, of nm u]
  show ?thesis
    by (rule follows_leaves [OF preserves_call [OF k t], of t]) (use c False k in \<open>auto simp: unseen_def\<close>)
qed

lemma call_end_leaves:
  assumes "call_turn Y S k n = Some (Inr r, n')"
  shows "\<not> (k = Looking p pc \<and> lookup_turn Y S (call_name p) pc n = Some (pc', n'))"
proof
  assume "k = Looking p pc \<and> lookup_turn Y S (call_name p) pc n = Some (pc', n')"
  then have "call_turn Y S k n = Some (Inl (Looking p pc'), n')" by (cases pc) auto
  then show False using assms by simp
qed

lemma follows_join:
  assumes k: "calls n (Socket ch) = Some k" and "purpose_of k = Join i conn" and "sockets n ch = Some c"
    and t: "call_turn Y S k n = Some (Inr r, n')"
    and a: "accepted (conn_address conn) (conn_id conn) c (r, n') = (c', n'')"
  shows "follows u S nm n (n''\<lparr>sockets := (sockets n'')(ch \<mapsto> c'), calls := (calls n'')(Socket ch := None)\<rparr>)"
proof -
  have "net_ok S n \<Longrightarrow> call_ok n k" using k by (auto simp: net_ok_def calls_ok_def)
  note c = call_leaves [OF t call_end_leaves [OF t] this, of nm u]
  have "unseen n' n''" "calls n'' = calls n'" using us.accepted [OF a] by auto
  then show ?thesis
    by (intro follows_leaves [OF preserves_join [OF assms], of "Socket ch"]) (use c k in \<open>auto simp: unseen_def\<close>)
qed

lemma follows_job_ends:
  assumes k: "calls n (Job j) = Some k" and t: "call_turn Y S k n = Some (Inr r, n')"
  shows "follows u S nm n (n'\<lparr>calls := (calls n')(Job j := None)\<rparr>)"
proof -
  have "net_ok S n \<Longrightarrow> call_ok n k" using k by (auto simp: net_ok_def calls_ok_def)
  note c = call_leaves [OF t call_end_leaves [OF t] this, of nm u]
  show ?thesis
    by (rule follows_leaves [OF preserves_job_ends [OF assms], of "Job j"]) (use c k in \<open>auto simp: unseen_def\<close>)
qed

section \<open>Every run follows the protocol\<close>

text \<open>\<open>may_exit u\<close> allows all steps if \<open>u\<close> holds, and otherwise all but the last turn of an actor.\<close>

definition may_exit :: "bool \<Rightarrow> label \<Rightarrow> ('d, 'v, 'a, 'j, 'w) net \<Rightarrow> ('d, 'v, 'a, 'j, 'w) net \<Rightarrow> bool" where
  "may_exit u l n n' \<longleftrightarrow> u \<or> (\<forall>h. l \<noteq> Acted h True)"

interpretation fwr: server_effects Y S "follows u S nm" "may_exit u" for Y S u nm
proof (unfold_locales, goal_cases)
  case (2 n ch meta c n' us)
  have "unseen n n' \<and> calls n' = calls n" using 2 by (auto simp: open_socket_def unseen_def Let_def)
  then show ?case by (intro follows_unseen [OF preserves_open [OF 2]]) (auto simp: unseen_def)
next
  case (3 n ch c data c' n' x)
  have "unseen n n' \<and> calls n' = calls n" by (rule us.frame [OF 3(3)])
  moreover have "lookup_pc nm (map_option (\<lambda>conn. Looking (Join 1 conn) Start) x) = Start" by (cases x) auto
  ultimately show ?case by (intro follows_unseen [OF preserves_read [OF 3]]) (use 3(2) in \<open>auto simp: unseen_def\<close>)
next
  case (4 n t k k' n')
  then show ?case by (rule follows_call)
next
  case (5 n ch k i conn c r n' c' n'')
  then show ?case by (rule follows_join)
next
  case (6 n j nm' u')
  then show ?case by (intro follows_unseen [OF preserves_job_starts]) (simp_all add: unseen_def)
next
  case (7 n j k r n')
  then show ?case by (rule follows_job_ends)
next
  case (8 n ch c wait ev c' n' c'' n'')
  let ?m = "snd (cleanup (c, n'))"
  have c': "c' = c" using closing_turn [OF 8(3)] by simp
  note n'' = end_socket_shape [OF 8(4) [unfolded c']]
  have "unseen n n' \<and> calls n' = calls n"
    using closing_turn [OF 8(3)] by (auto simp: terminate_def socket_send_def unseen_def)
  then have "unseen n ?m \<and> calls ?m = calls n" using us.cleanup [of n' c] us.rel_trans by blast
  then show ?case by (intro follows_unseen [OF preserves_close [OF 8]]) (auto simp: unseen_def n'')
next
  case (9 ok n ch msg d)
  then show ?case by (intro follows_quietly [OF quietly_write]) (simp_all add: unseen_def)
next
  case (10 n h a exit s')
  then show ?case by (intro follows_act) (auto simp: may_exit_def)
qed (rule follows_fields)+

lemma reg_of_start: "reg_of nm (server_start S now w) = reg_init"
  by (simp add: reg_of_def server_start_def reg_init_def)

lemma alive_start: "alive (server_start S now w)"
  by (simp add: alive_def server_start_def)

lemma server_follows:
  assumes "serves Y S (may_exit u) (server_start S now w) n"
  shows "reg_reach u (reg_of nm n)"
  using fwr.every_run [OF assms, of nm] by (simp add: follows_def net_ok_start reg_of_start alive_start reg_reach.start)

section \<open>Properties\<close>

text \<open>C4: The running server implements the lookup protocol. Whatever sockets, programmatic edits, actors and
  the Redis subscriber do and however they interleave, the lookups of one document name, its lock, its
  registry entry and its live actors go through a run of the protocol of theory \<open>Registry\<close>.\<close>

theorem server_refines_registry:
  assumes "serves Y S (may_exit True) (server_start S now w) n"
  shows "reg_reach True (reg_of nm n)"
  by (rule server_follows [OF assms])

theorem server_refines_registry_witness:
  "reg_reach True (reg_of ''doc'' joined_net) \<and> entry (reg_of ''doc'' joined_net) = Some 0"
proof -
  have "serves opset demo_server (may_exit True) (server_start demo_server 5 ()) joined_net"
    by (rule serves_mono [OF serves_joined]) (simp add: may_exit_def)
  from server_refines_registry [OF this, of "''doc''"] show ?thesis
    by (simp add: joined_net_def acked_net_def detach_def acked_doc_def)
qed

text \<open>In a run in which no actor ends, every handle of a document is that of a running actor of this document.\<close>

lemma run_without_exits:
  assumes "serves Y S (\<lambda>l _ _. \<forall>h. l \<noteq> Acted h True) (server_start S now w) n"
  shows "net_ok S n" and "alive n" and "reg_reach False (reg_of nm n)"
proof -
  have r: "serves Y S (may_exit False) (server_start S now w) n"
    using assms by (rule serves_mono) (simp add: may_exit_def)
  show "reg_reach False (reg_of nm n)" by (rule server_follows [OF r])
  show "net_ok S n" "alive n"
    using fwr.every_run [OF r] by (simp_all add: follows_def preserves_def net_ok_start alive_start)
qed

lemma named_runs: "alive n \<Longrightarrow> named n h nm \<Longrightarrow> \<exists>a. actors n h = Some a \<and> doc_name a = nm"
  by (auto simp: alive_def named_def)

text \<open>C16: One actor per document, and everybody has it. As long as no actor ends, however many sockets and edits
  ask for a document at the same time and however their handlers interleave at the lock, during the load and at the
  registry: no two actors of the running server have the same document; and the registry, every lookup that has
  returned, every handler that waits for an acknowledgement and every established route of a socket have
  the handle of this one actor.\<close>

theorem one_actor_per_document:
  assumes "serves Y S (\<lambda>l _ _. \<forall>h. l \<noteq> Acted h True) (server_start S now w) n"
    and "actors n h = Some a"
  shows "(\<forall>h' a'. actors n h' = Some a' \<and> doc_name a' = doc_name a \<longrightarrow> h' = h) \<and>
    (\<forall>h'. documents n (doc_name a) = Some h' \<longrightarrow> h' = h) \<and>
    (\<forall>t p h'. calls n t = Some (Looking p (Done h')) \<and> call_name p = doc_name a \<longrightarrow> h' = h) \<and>
    (\<forall>t p h' ack. calls n t = Some (Acking p h' ack) \<and> call_name p = doc_name a \<longrightarrow> h' = h) \<and>
    (\<forall>ch c k e. sockets n ch = Some c \<and> (k, e) \<in> set (establisheds c) \<and> fst (parse_routing_key k) = doc_name a \<longrightarrow> est_doc e = h)"
proof -
  note run = run_without_exits [OF assms(1)]
  have one: "h' = h" if "actors n h' = Some a'" "doc_name a' = doc_name a" for h' a'
  proof -
    have "h \<in> live (reg_of (doc_name a) n)" "h' \<in> live (reg_of (doc_name a) n)" using assms(2) that by (auto simp: reg_of_def)
    then show ?thesis using one_actor_without_unloads [OF run(3) [of "doc_name a"], of h h'] by blast
  qed
  then have name: "h' = h" if "named n h' (doc_name a)" for h' using named_runs [OF run(2) that] by blast
  have "h' = h" if "documents n (doc_name a) = Some h'" for h'
    using name run(1) that by (simp add: net_ok_def registry_ok_def)
  moreover have call: "h' = h" if "calls n t = Some k" "call_handle k = Some h'" "call_name (purpose_of k) = doc_name a" for t k h'
  proof -
    have "call_ok n k" using run(1) that(1) by (auto simp: net_ok_def calls_ok_def)
    then have "named n h' (doc_name a)" using that(2,3) by (auto simp: call_ok_def)
    then show ?thesis by (rule name)
  qed
  have "h' = h" if "calls n t = Some (Looking p (Done h'))" "call_name p = doc_name a" for t p h'
    using call [OF that(1)] that(2) by simp
  moreover have "h' = h" if "calls n t = Some (Acking p h' ack)" "call_name p = doc_name a" for t p h' ack
    using call [OF that(1)] that(2) by simp
  moreover have "est_doc e = h" if "sockets n ch = Some c" "(k, e) \<in> set (establisheds c)" "fst (parse_routing_key k) = doc_name a" for ch c k e
    using name run(1) that by (fastforce simp: net_ok_def sockets_ok_def routes_ok_def)
  ultimately show ?thesis using one by blast
qed

theorem one_actor_per_document_witness:
  "{h. \<exists>a. actors joined_net h = Some a \<and> doc_name a = ''doc''} = {0} \<and> documents joined_net ''doc'' = Some 0"
proof -
  have "serves opset demo_server (\<lambda>l _ _. \<forall>h. l \<noteq> Acted h True) (server_start demo_server 5 ()) joined_net"
    by (rule serves_mono [OF serves_joined_steps]) (auto simp: demo_steps_def)
  from one_actor_per_document [OF this joined_facts(3)]
  have "actors joined_net h = Some a \<and> doc_name a = ''doc'' \<Longrightarrow> h = 0" for h a by (simp add: joined_facts(5))
  moreover have "documents joined_net ''doc'' = Some 0" by (simp add: joined_net_def acked_net_def detach_def acked_doc_def)
  ultimately show ?thesis using joined_facts(3,5) by auto
qed

text \<open>A lookup that has got further than waiting for the lock can always go on.\<close>

lemma owner_goes_on: "owns pc = Some l \<Longrightarrow> call_turn Y S (Looking p pc) n \<noteq> None"
  by (cases pc) auto

lemma lookup_pc_owner:
  assumes "owns (lookup_pc nm (calls n t)) = Some l"
  shows "\<exists>p pc. calls n t = Some (Looking p pc) \<and> call_name p = nm \<and> owns pc = Some l"
proof (cases "calls n t")
  case (Some k)
  then show ?thesis using assms by (cases k) (auto split: if_splits)
qed (use assms in simp)

text \<open>A caller that missed the registry, but comes to the lock when the document has been loaded and its entry
  in \<open>creating\<close> removed, makes a new entry and leaves it there.\<close>

lemma late_lookup_keeps_entry:
  assumes "documents n nm = Some h" and "n_creating n nm = None" and "(nm, next_lock n) \<notin> n_locked n"
  shows "\<exists>n1 n2 n3. lookup_turn Y S nm Missed n = Some (Waiting (next_lock n), n1) \<and>
    lookup_turn Y S nm (Waiting (next_lock n)) n1 = Some (Locked (next_lock n), n2) \<and>
    lookup_turn Y S nm (Locked (next_lock n)) n2 = Some (Done h, n3) \<and> n_creating n3 nm = Some (next_lock n)"
  using assms by (simp add: lock_entry_def)

text \<open>C5: No lookup is stuck. In every reachable state of the server, a waiting handler that cannot take its
  next step waits either for an acknowledgement it has asked a running actor for, or for the lock of its
  document; and then the lock is held by another handler that is looking up the same document
  and can take its next step. So the handlers at the lock never block each other for good, and no lock is
  left behind without an owner.\<close>

theorem no_lookup_is_stuck:
  assumes "serves Y S any_step (server_start S now w) n" and "calls n t = Some k" and "call_turn Y S k n = None"
  shows "(\<exists>p h ack. k = Acking p h ack \<and> ack \<notin> n_acks n \<and> actors n h \<noteq> None) \<or>
    (\<exists>p l t' p' pc. k = Looking p (Waiting l) \<and> calls n t' = Some (Looking p' pc) \<and> call_name p' = call_name p \<and>
       owns pc = Some l \<and> call_turn Y S (Looking p' pc) n \<noteq> None)"
proof (cases k)
  case (Acking p h ack)
  then show ?thesis using assms(3) by (auto split: if_splits)
next
  case (Looking p pc)
  then obtain l where pc: "pc = Waiting l" and held: "(call_name p, l) \<in> n_locked n"
    using assms(3) by (cases pc) (auto simp: Let_def split: prod.splits bool.splits if_splits)
  have "serves Y S (may_exit True) (server_start S now w) n" by (rule serves_mono [OF assms(1)]) (simp add: may_exit_def)
  then have "reg_reach True (reg_of (call_name p) n)" by (rule server_follows)
  moreover have "held (reg_of (call_name p) n) l" using held by (simp add: reg_of_def)
  ultimately obtain t' where "owns (lookup_pc (call_name p) (calls n t')) = Some l"
    using held_owned by (fastforce simp: reg_of_def)
  from lookup_pc_owner [OF this] obtain p' pc' where o: "calls n t' = Some (Looking p' pc')" "call_name p' = call_name p" "owns pc' = Some l"
    by blast
  moreover have "call_turn Y S (Looking p' pc') n \<noteq> None" by (rule owner_goes_on [OF o(3)])
  ultimately show ?thesis using Looking pc by blast
qed

text \<open>Two programmatic edits of one document: the first holds the lock, the second waits for it.\<close>

definition racing_net :: "pc \<Rightarrow> (bytes, bytes, u64 list, string, unit) net" where
  "racing_net pc = jobs_net demo_server 5 () ''doc''
     [Job 0 \<mapsto> Looking (Edit ''doc'' [7]) (Locked 0), Job 1 \<mapsto> Looking (Edit ''doc'' [8]) pc]"

lemma racing_serves: "serves opset demo_server any_step (server_start demo_server 5 ()) (racing_net (Waiting 0))"
proof -
  let ?n = "jobs_net demo_server 5 () ''doc'' [Job 0 \<mapsto> Looking (Edit ''doc'' [7]) (Locked 0)] :: (bytes, bytes, u64 list, string, unit) net"
  let ?runs = "serves opset demo_server any_step (server_start demo_server 5 ())"
  note on_then = serves_then [where Q = any_step, OF _ _ any_step]
  have "?runs ?n" by (rule job_locks) simp
  moreover have "server_step opset demo_server Other ?n (racing_net Start)"
    using edit_starts [of ?n 1 opset demo_server "''doc''" "[8]"] by (simp add: racing_net_def jobs_net_def server_start_def)
  ultimately have "?runs (racing_net Start)" by (rule on_then)
  moreover have "server_step opset demo_server Other (racing_net Start) (racing_net Missed)"
    using job_looks [of opset demo_server "''doc''" Start "racing_net Start" Missed "racing_net Start" 1 "[8]"]
    by (simp add: racing_net_def jobs_net_def server_start_def)
  ultimately have "?runs (racing_net Missed)" by (rule on_then)
  moreover have "server_step opset demo_server Other (racing_net Missed) (racing_net (Waiting 0))"
    using job_looks [of opset demo_server "''doc''" Missed "racing_net Missed" "Waiting 0" "racing_net Missed" 1 "[8]"]
    by (simp add: racing_net_def jobs_net_def server_start_def lock_entry_def)
  ultimately show ?thesis by (rule on_then)
qed

theorem no_lookup_is_stuck_witness:
  "\<exists>t p pc. calls (racing_net (Waiting 0)) t = Some (Looking p pc) \<and> owns pc = Some 0 \<and>
     call_turn opset demo_server (Looking p pc) (racing_net (Waiting 0)) \<noteq> None"
proof -
  have "calls (racing_net (Waiting 0)) (Job 1) = Some (Looking (Edit ''doc'' [8]) (Waiting 0))"
    "call_turn opset demo_server (Looking (Edit ''doc'' [8]) (Waiting 0)) (racing_net (Waiting 0)) = None"
    by (simp_all add: racing_net_def jobs_net_def)
  from no_lookup_is_stuck [OF racing_serves this] show ?thesis by (metis call.inject(1) call.distinct(1) pc.inject(1))
qed

end
