(* ===== verification/System_Durable.thy ===== *)
theory System_Durable
  imports System_Registry Durability
begin

text \<open>
  Durability in the running server: on a server with a storage extension, whatever is interleaved, a
  document that is clean and has no store in flight is what a new load of it would give. The invariant
  of theory \<open>Durability\<close> holds for every actor at once, because the turn of an actor writes only the saved
  state of its own document, and the hooks that other tasks run write none.
\<close>

section \<open>All documents are backed\<close>

text \<open>The invariant of theory \<open>Durability\<close> for an actor that began with what was saved then.\<close>

definition backed ::
    "('d, 'v, 'u, 'a, 'p) yrs \<Rightarrow> ('w \<Rightarrow> (string \<rightharpoonup> bytes)) \<Rightarrow> bool \<Rightarrow> ('d, 'v, 'a, 'j, 'w) document \<Rightarrow> bool" where
  "backed Y saved skip_gc s \<longleftrightarrow> (\<exists>m. saved_inv Y saved {} (doc_name s) (loaded Y skip_gc (m (doc_name s))) m s)"

definition all_backed ::
    "('d, 'v, 'u, 'a, 'p) yrs \<Rightarrow> ('d, 'j, 'w) server \<Rightarrow> ('w \<Rightarrow> (string \<rightharpoonup> bytes)) \<Rightarrow> ('d, 'v, 'a, 'j, 'w) net \<Rightarrow> bool" where
  "all_backed Y S saved n \<longleftrightarrow> (\<forall>h a. actors n h = Some a \<longrightarrow> backed Y saved (\<not> gc (config S)) (attach n a))"

definition durably ::
    "('d, 'v, 'u, 'a, 'p) yrs \<Rightarrow> ('d, 'j, 'w) server \<Rightarrow> ('w \<Rightarrow> (string \<rightharpoonup> bytes)) \<Rightarrow>
       ('d, 'v, 'a, 'j, 'w) net \<Rightarrow> ('d, 'v, 'a, 'j, 'w) net \<Rightarrow> bool" where
  "durably Y S saved n n' \<longleftrightarrow> preserves S n n' \<and> (net_ok S n \<longrightarrow> all_backed Y S saved n \<longrightarrow> all_backed Y S saved n')"

text \<open>An actor takes its turn only while no other actor of its document is running, and the background
  tasks of the extensions leave the saved states alone.\<close>

definition undivided ::
    "('w \<Rightarrow> (string \<rightharpoonup> bytes)) \<Rightarrow> label \<Rightarrow> ('d, 'v, 'a, 'j, 'w) net \<Rightarrow> ('d, 'v, 'a, 'j, 'w) net \<Rightarrow> bool" where
  "undivided saved l n n' \<longleftrightarrow>
     (\<forall>h x a h' a'. l = Acted h x \<longrightarrow> actors n h = Some a \<longrightarrow> actors n h' = Some a' \<longrightarrow> doc_name a' = doc_name a \<longrightarrow> h' = h) \<and>
     (l = Outside \<longrightarrow> saved (n_world n') = saved (n_world n))"

lemma backed_cong:
  assumes "backed Y saved sk s" and "saved (world s') (doc_name s) = saved (world s) (doc_name s)"
    and "doc_name s' = doc_name s" "ydoc s' = ydoc s" "dirty s' = dirty s" "storing s' = storing s"
      "store_tasks s' = store_tasks s" "store_results s' = store_results s"
  shows "backed Y saved sk s'"
proof -
  have "full_state Y s' = full_state Y s" using assms(4) by (simp add: full_state_def)
  then show ?thesis using assms unfolding backed_def saved_inv_def by fastforce
qed

lemma backed_attach:
  assumes "backed Y saved sk (attach n a)" and "saved (n_world n') (doc_name a) = saved (n_world n) (doc_name a)"
  shows "backed Y saved sk (attach n' a)"
  by (rule backed_cong [OF assms(1)]) (use assms(2) in \<open>simp_all add: attach_def\<close>)

lemma all_backed_same:
  "actors n' = actors n \<Longrightarrow> saved (n_world n') = saved (n_world n) \<Longrightarrow> all_backed Y S saved n \<Longrightarrow> all_backed Y S saved n'"
  unfolding all_backed_def by (metis backed_attach)

lemma durably_same:
  "preserves S n n' \<Longrightarrow> actors n' = actors n \<Longrightarrow> saved (n_world n') = saved (n_world n) \<Longrightarrow> durably Y S saved n n'"
  using all_backed_same by (auto simp: durably_def)

lemma durably_refl: "durably Y S saved n n"
  by (simp add: durably_same preserves_refl)

lemma durably_trans: "durably Y S saved n m \<Longrightarrow> durably Y S saved m k \<Longrightarrow> durably Y S saved n k"
  using preserves_trans [of S n m k] by (auto simp: durably_def preserves_def)

lemma durably_vacuous: "\<not> net_ok S n \<Longrightarrow> durably Y S saved n n'"
  by (simp add: durably_def preserves_def)

lemma durably_retable: "durably Y S saved n m \<Longrightarrow> preserves S n n' \<Longrightarrow> alike m n' \<Longrightarrow> durably Y S saved n n'"
  using all_backed_same [of n' m] by (auto simp: durably_def alike_def)

lemma durably_command:
  assumes "preserves S n (snd (send_command h cmd n))"
  shows "durably Y S saved n (snd (send_command h cmd n))"
proof (cases "actors n h")
  case None
  then show ?thesis by (simp add: send_command_def durably_refl)
next
  case (Some a)
  have "backed Y saved sk (attach (n\<lparr>actors := x\<rparr>) (a\<lparr>rx := q\<rparr>))" if "backed Y saved sk (attach n a)" for sk x q
    by (rule backed_cong [OF that]) (simp_all add: attach_def)
  moreover have "backed Y saved sk (attach (n\<lparr>actors := x\<rparr>) b)" if "backed Y saved sk (attach n b)" for sk x b
    by (rule backed_attach [OF that]) simp
  ultimately show ?thesis using assms Some by (auto simp: durably_def all_backed_def send_command_def)
qed

lemma durably_fields:
  "durably Y S saved n (n\<lparr>documents := (documents n)(nm := None)\<rparr>)" "durably Y S saved n (n\<lparr>next_ack := i\<rparr>)"
  "durably Y S saved n (n\<lparr>next_conn_id := j\<rparr>)" "durably Y S saved n (n\<lparr>n_replies := rs\<rparr>)"
  "durably Y S saved n (n\<lparr>n_clock := n_clock n + t\<rparr>)" "durably Y S saved n (n\<lparr>n_locked := ls\<rparr>)"
  "durably Y S saved n (n\<lparr>n_creating := cr\<rparr>)" "durably Y S saved n (n\<lparr>n_creating := cr, next_lock := l\<rparr>)"
  by (rule durably_same; (rule quietly_preserves, rule quietly_fields | simp))+

lemma durably_chans:
  "durably Y S saved n (n\<lparr>n_chans := snd (chan_send ch msg (n_chans n))\<rparr>)"
  "durably Y S saved n (n\<lparr>n_chans := (n_chans n)(ch := (n_chans n ch)\<lparr>chan_closed := True\<rparr>)\<rparr>)"
  "writer_turn ok (n_chans n ch) = (out, d) \<Longrightarrow> durably Y S saved n (n\<lparr>n_chans := (n_chans n)(ch := d)\<rparr>)"
  by (rule durably_same; (rule quietly_preserves, (rule quietly_send quietly_hang_up | erule quietly_write) | simp))+

lemma durably_enter: "named n h nm \<Longrightarrow> durably Y S saved n (n\<lparr>documents := (documents n)(nm \<mapsto> h)\<rparr>)"
  by (rule durably_same [OF quietly_preserves [OF quietly_enter]]) simp_all

section \<open>Hooks, loads and turns\<close>

text \<open>A server whose storage can be read.\<close>

locale durable_server = stored_server st saved Y leq S pre post
  for st :: "'w storage" and saved :: "'w \<Rightarrow> (string \<rightharpoonup> bytes)"
    and Y :: "('d, 'v, 'u, 'a, 'p) yrs" and leq :: "'d \<Rightarrow> 'd \<Rightarrow> bool"
    and S :: "('d, 'j, 'w) server" and pre post :: "('d, 'j, 'w) extension list" +
  assumes reads: "\<exists>r. fst (fetch st nm w) = Inr r"
begin

lemma connect_keeps:
  assumes "run_until_err (map (\<lambda>e. on_connect e cp) (extensions S)) (c, w) = (r, c', w')"
  shows "saved w' = saved w"
proof -
  have "saved (snd (snd (run_until_err (map (\<lambda>e. on_connect e cp) (extensions S)) (c, w)))) = saved (snd (c, w))"
    by (rule run_until_err_unchanged [where f = "\<lambda>x. saved (snd x)"])
      (use neutral_others in \<open>auto simp: extensions_split neutralD_default neutral_def\<close>)
  then show ?thesis by (simp add: assms)
qed

lemma authenticate_keeps:
  assumes "run_until_err (map (\<lambda>e. on_authenticate e ap) (extensions S)) (c, w) = (r, c', w')"
  shows "saved w' = saved w"
proof -
  have "saved (snd (snd (run_until_err (map (\<lambda>e. on_authenticate e ap) (extensions S)) (c, w)))) = saved (snd (c, w))"
    by (rule run_until_err_unchanged [where f = "\<lambda>x. saved (snd x)"])
      (use neutral_others in \<open>auto simp: extensions_split neutralD_default neutral_def\<close>)
  then show ?thesis by (simp add: assms)
qed

lemma durably_world: "saved w = saved (n_world n) \<Longrightarrow> durably Y S saved n (n\<lparr>n_world := w\<rparr>)"
  by (rule durably_same [OF quietly_preserves [OF quietly_fields(1)]]) simp_all

lemma durably_spawn: "durably Y S saved n (snd (spawn_document Y S nm n))"
proof -
  let ?a = "spawn Y S nm (n_chans n) (n_clock n) (documents n) (n_world n)"
  let ?n = "snd (spawn_document Y S nm n)"
  have n: "?n = n\<lparr>actors := (actors n)(next_actor n \<mapsto> ?a), n_world := world ?a, next_actor := Suc (next_actor n)\<rparr>"
    by (simp add: spawn_document_def Let_def)
  have l: "ydoc ?a = loaded Y (\<not> gc (config S)) (saved (n_world n) nm)" "saved (world ?a) = saved (n_world n)"
    using spawn_loads [OF reads] by simp_all
  have "saved_inv Y saved {} nm (loaded Y (\<not> gc (config S)) (saved (n_world n) nm)) (saved (n_world n)) ?a"
    by (simp add: saved_inv_def l)
  then have "backed Y saved (\<not> gc (config S)) ?a" unfolding backed_def by auto
  then have new: "backed Y saved (\<not> gc (config S)) (attach ?n ?a)"
    by (rule backed_cong) (simp_all add: n attach_def)
  have "backed Y saved (\<not> gc (config S)) (attach ?n b)" if "backed Y saved (\<not> gc (config S)) (attach n b)" for b
    by (rule backed_attach [OF that]) (simp add: n l)
  with new have "all_backed Y S saved n \<Longrightarrow> all_backed Y S saved ?n"
    unfolding all_backed_def by (simp add: n)
  then show ?thesis using quietly_preserves [OF quietly_spawn] by (simp add: durably_def)
qed

text \<open>A turn keeps the invariant of its own document and the saved states of all others.\<close>

lemma turn_backed:
  assumes t: "actor_turn Y S s x s'" and inv: "actor_inv s" and b: "backed Y saved sk s"
  shows "backed Y saved sk s' \<and> (\<forall>nm. nm \<noteq> doc_name s \<longrightarrow> saved (world s') nm = saved (world s) nm)"
proof -
  let ?nm = "doc_name s"
  obtain m where m: "saved_inv Y saved {} ?nm (loaded Y sk (m ?nm)) m s" using b unfolding backed_def by blast
  let ?m = "(saved (world s))(?nm := m ?nm)"
  have s: "saved_inv Y saved (- {?nm}) ?nm (loaded Y sk (m ?nm)) ?m s" using m by (simp add: saved_inv_def)
  have "saved_inv Y saved (- {?nm}) ?nm (loaded Y sk (m ?nm)) ?m s'"
  proof (cases x)
    case True
    then show ?thesis using saved_inv_exit [OF turn_is_exit inv s] t by simp
  next
    case False
    then show ?thesis using saved_inv_step [OF turn_is_step [where E = "(=)"] _ inv s] t by auto
  qed
  moreover have "doc_name s' = ?nm" using turn_frame [OF t] by simp
  ultimately have "saved_inv Y saved {} (doc_name s') (loaded Y sk (?m (doc_name s'))) ?m s'"
    and "\<forall>nm. nm \<noteq> ?nm \<longrightarrow> saved (world s') nm = saved (world s) nm"
    by (simp_all add: saved_inv_def)
  then show ?thesis unfolding backed_def by blast
qed

lemma durably_act:
  assumes a: "actors n h = Some a" and t: "actor_turn Y S (attach n a) x s'"
    and alone: "\<And>h' a'. actors n h' = Some a' \<Longrightarrow> doc_name a' = doc_name a \<Longrightarrow> h' = h"
  shows "durably Y S saved n (detach h x s' n)"
proof -
  let ?n = "detach h x s' n"
  have "all_backed Y S saved ?n" if ok: "net_ok S n" and b: "all_backed Y S saved n"
  proof -
    let ?sk = "\<not> gc (config S)"
    have "actor_inv (attach n a)" using ok a by (auto simp: net_ok_def actors_ok_def actor_ok_def attach_inv)
    moreover have "backed Y saved ?sk (attach n a)" using b a by (simp add: all_backed_def)
    ultimately have t': "backed Y saved ?sk s'" and rest: "\<And>nm. nm \<noteq> doc_name a \<Longrightarrow> saved (world s') nm = saved (n_world n) nm"
      using turn_backed [OF t] by auto
    have own: "backed Y saved ?sk (attach ?n (s'\<lparr>replies := []\<rparr>))"
      by (rule backed_cong [OF t']) (simp_all add: attach_def detach_def)
    have "backed Y saved ?sk (attach ?n a')" if a': "actors ?n h' = Some a'" for h' a'
    proof (cases "h' = h")
      case True
      then show ?thesis using a' own by (simp add: detach_def split: if_splits)
    next
      case False
      then have a'': "actors n h' = Some a'" using a' by (simp add: detach_def)
      then have "saved (n_world ?n) (doc_name a') = saved (n_world n) (doc_name a')"
        using rest [of "doc_name a'"] alone [OF a''] False by (auto simp: detach_def)
      then show ?thesis using b a'' backed_attach unfolding all_backed_def by blast
    qed
    then show ?thesis by (simp add: all_backed_def)
  qed
  then show ?thesis using quietly_preserves [OF quietly_act [OF a t]] by (simp add: durably_def)
qed

end

sublocale durable_server \<subseteq> du: task_effects Y S "durably Y S saved" "undivided saved"
proof (unfold_locales, goal_cases)
  case (6 cp n cell r cell' w)
  then show ?case by (intro durably_world connect_keeps)
next
  case (7 ap n cell r cell' w)
  then show ?case by (intro durably_world authenticate_keeps)
next
  case (17 n m n')
  then show ?case by (rule durably_retable)
next
  case (20 n h a x s')
  then have "\<And>h' a'. actors n h' = Some a' \<Longrightarrow> doc_name a' = doc_name a \<Longrightarrow> h' = h" unfolding undivided_def by blast
  then show ?case by (rule durably_act [OF 20(1,2)])
next
  case (23 n w)
  then show ?case by (intro durably_world) (simp add: undivided_def)
next
  case (21 n fs)
  show ?case by (rule durably_fields)
next
  case (22 n dt)
  show ?case by (rule durably_fields)
qed (rule durably_refl durably_chans durably_spawn durably_fields | erule (1) durably_trans | erule durably_enter durably_chans durably_vacuous |
  rule durably_command, rule quietly_preserves, (rule quietly_other_command, blast | erule quietly_join))+

context durable_server
begin

lemma run_backed:
  assumes "serves Y S (undivided saved) (server_start S now w) n"
  shows "all_backed Y S saved n"
proof -
  have "all_backed Y S saved (server_start S now w)" by (simp add: all_backed_def server_start_def)
  then show ?thesis using du.every_run [OF assms] by (simp add: durably_def net_ok_start)
qed

lemma backed_reloads:
  assumes "backed Y saved (\<not> gc (config S)) s" and "\<not> dirty s" and "\<not> storing s" and "world s = w"
  shows "leq (ydoc s) (ydoc (spawn Y S (doc_name s) cs t reg w)) \<and> leq (ydoc (spawn Y S (doc_name s) cs t reg w)) (ydoc s)"
proof -
  have "ydoc (spawn Y S (doc_name s) cs t reg w) = loaded Y (\<not> gc (config S)) (saved w (doc_name s))"
    using spawn_loads [OF reads] by simp
  moreover obtain m where "saved w (doc_name s) = Some (full_state Y s) \<or>
      ydoc s = loaded Y (\<not> gc (config S)) (m (doc_name s)) \<and> saved w (doc_name s) = m (doc_name s)"
    using assms unfolding backed_def saved_inv_def by blast
  ultimately show ?thesis using loaded_full_state [of s] leq_refl by auto
qed

lemma clean_reloads:
  assumes "serves Y S (undivided saved) (server_start S now w) n" and "actors n h = Some a" and "\<not> dirty a" and "\<not> storing a"
  shows "leq (ydoc a) (ydoc (spawn Y S (doc_name a) cs t reg (n_world n))) \<and>
    leq (ydoc (spawn Y S (doc_name a) cs t reg (n_world n))) (ydoc a)"
proof -
  have "backed Y saved (\<not> gc (config S)) (attach n a)" using run_backed [OF assms(1)] assms(2) by (simp add: all_backed_def)
  then show ?thesis using backed_reloads [of "attach n a" "n_world n" cs t reg] assms(3,4) by (simp add: attach_def)
qed

end

interpretation dsr: durable_server disk_storage disk opset opset_leq disk_server "[]" "[demo_logger]"
  by (intro durable_server.intro ds.stored_server_axioms durable_server_axioms.intro)
    (simp add: disk_storage_def memory_storage_def memory_fetch_def)

section \<open>Properties\<close>

text \<open>C2: Documents in the running server are saved. On a server with one storage extension whose reads do
  not fail, among extensions that leave the saved states alone, take any interleaving of sockets, edits,
  loads, actors, background stores and unloads in which no document has two running actors when one of
  them acts and nothing else changes the saved states (see \<open>one_actor_per_document\<close> and \<open>two_actors_after_unload\<close> on when this is so). Whenever a
  document in memory is clean and has no store in flight, loading it anew from the storage at that moment
  gives a document with exactly the same operations: nothing would be lost if the server stopped.\<close>

theorem server_documents_are_saved:
  assumes "stored_server st saved Y leq S pre post" and "\<forall>nm w. \<exists>r. fst (fetch st nm w) = Inr r"
    and "serves Y S (undivided saved) (server_start S now w) n"
    and "actors n h = Some a" and "\<not> dirty a" and "\<not> storing a"
  shows "leq (ydoc a) (ydoc (spawn Y S (doc_name a) cs t reg (n_world n))) \<and>
    leq (ydoc (spawn Y S (doc_name a) cs t reg (n_world n))) (ydoc a)"
proof -
  have "durable_server st saved Y leq S pre post"
    using assms(1,2) by (intro durable_server.intro durable_server_axioms.intro) simp_all
  then show ?thesis by (rule durable_server.clean_reloads [OF _ assms(3-6)])
qed

text \<open>For the witness, a programmatic edit has loaded the document, whose state was on the disk.\<close>

definition disk_loaded :: "(bytes, bytes, u64 list, string, disk_world) net" where
  "disk_loaded = loaded_start opset disk_server 0 \<lparr>disk = [''doc'' \<mapsto> [7]], log = []\<rparr> ''doc'' [8]"

theorem server_documents_are_saved_witness:
  "\<exists>a. actors disk_loaded 0 = Some a \<and> set (ydoc a) = set (ydoc (spawn opset disk_server ''doc'' (\<lambda>_. new_chan disk_server) 9 Map.empty (n_world disk_loaded)))"
proof -
  let ?w = "\<lparr>disk = [''doc'' \<mapsto> [7]], log = []\<rparr>"
  obtain a where a: "actors disk_loaded 0 = Some a" "dirty a = False" "storing a = False" "doc_name a = ''doc''"
    by (simp add: disk_loaded_def loaded_start_actor)
  have reads: "\<forall>nm w. \<exists>r. fst (fetch disk_storage nm w) = Inr r" by (simp add: disk_storage_def memory_storage_def memory_fetch_def)
  have "serves opset disk_server (undivided disk) (server_start disk_server 0 ?w) disk_loaded"
    unfolding disk_loaded_def by (rule job_loads) (simp add: undivided_def)
  from server_documents_are_saved [OF ds.stored_server_axioms reads this a(1), of "\<lambda>_. new_chan disk_server" 9 Map.empty]
  show ?thesis using a by (auto simp: opset_leq_def)
qed

end
