(* ===== verification/Webhook.thy ===== *)
theory Webhook
  imports Redis Throttle System_Durable
begin

text \<open>
  The webhook extension (\<open>extensions/webhook.rs\<close>): which events it posts, what the posts contain and
  how they are signed. The HMAC, the JSON printer and the HTTP client are fields of the record
  \<open>webhook_env\<close>. The theory also shows that none of the bundled extensions other than the database one
  touches saved documents, so the durability of the running server (theory \<open>System_Durable\<close>) holds for
  servers that combine them.
\<close>

section \<open>Events and signatures\<close>

datatype webhook_event = Change | Connect | Disconnect

fun event_as_str :: "webhook_event \<Rightarrow> string" where
  "event_as_str Change = ''change''"
| "event_as_str Connect = ''connect''"
| "event_as_str Disconnect = ''disconnect''"

datatype json = JString string | JObject "(string \<times> json) list" | JMap "string \<rightharpoonup> string"

record webhook =
  wh_url :: string
  wh_secret :: string
  wh_events :: "webhook_event list"

definition webhook_new :: "string \<Rightarrow> string \<Rightarrow> webhook" where
  "webhook_new url secret = \<lparr>wh_url = url, wh_secret = secret, wh_events = [Change, Connect, Disconnect]\<rparr>"

definition with_events :: "webhook_event list \<Rightarrow> webhook \<Rightarrow> webhook" where
  "with_events evs h = h\<lparr>wh_events := evs\<rparr>"

text \<open>\<open>hmac_sha256 key data\<close>, \<open>Value::to_string\<close>, and a POST with its headers, whose outcome the code
  only logs.\<close>

record 'w webhook_env =
  hmac_sha256 :: "bytes \<Rightarrow> bytes \<Rightarrow> bytes"
  json_to_string :: "json \<Rightarrow> string"
  http_post :: "string \<Rightarrow> (string \<times> string) list \<Rightarrow> string \<Rightarrow> 'w \<Rightarrow> 'w"

text \<open>\<open>hex::encode\<close>: two lower-case digits per byte.\<close>

definition hex_lower :: "nat \<Rightarrow> char" where
  "hex_lower n = (if n < 10 then char_of (48 + n) else char_of (97 + (n - 10)))"

definition hex_encode :: "bytes \<Rightarrow> string" where
  "hex_encode bs = concat (map (\<lambda>b. [hex_lower (unat b div 16), hex_lower (unat b mod 16)]) bs)"

definition signature :: "'w webhook_env \<Rightarrow> webhook \<Rightarrow> string \<Rightarrow> string" where
  "signature W h body = ''sha256='' @ hex_encode (hmac_sha256 W (as_bytes (wh_secret h)) (as_bytes body))"

definition webhook_send :: "'w webhook_env \<Rightarrow> webhook \<Rightarrow> webhook_event \<Rightarrow> json \<Rightarrow> 'w \<Rightarrow> 'w" where
  "webhook_send W h event payload w =
     (if event \<notin> set (wh_events h) then w
      else
        let body = json_to_string W (JObject [(''event'', JString (event_as_str event)), (''payload'', payload)]);
            sig = signature W h body
        in http_post W (wh_url h)
             [(''X-Hocuspocus-Signature-256'', sig), (''Content-Type'', ''application/json'')] body w)"

section \<open>The hooks\<close>

definition webhook_on_connect ::
    "'w webhook_env \<Rightarrow> webhook \<Rightarrow> connection_payload \<Rightarrow> 'j conn_cell \<times> 'w \<Rightarrow> hook_result \<times> 'j conn_cell \<times> 'w" where
  "webhook_on_connect W h p cw =
     (case cw of (c, w) \<Rightarrow>
        (Inr (), c, webhook_send W h Connect
           (JObject [(''documentName'', JString (cp_document_name p)), (''socketId'', JString (cp_socket_id p)),
                     (''requestParameters'', JMap (parameters (cp_request p)))]) w))"

definition webhook_on_disconnect ::
    "'w webhook_env \<Rightarrow> webhook \<Rightarrow> connection_payload \<Rightarrow> 'j conn_cell \<times> 'w \<Rightarrow> hook_result \<times> 'j conn_cell \<times> 'w" where
  "webhook_on_disconnect W h p cw =
     (case cw of (c, w) \<Rightarrow>
        (Inr (), c, webhook_send W h Disconnect
           (JObject [(''documentName'', JString (cp_document_name p)), (''socketId'', JString (cp_socket_id p))]) w))"

definition webhook_on_change :: "'w webhook_env \<Rightarrow> webhook \<Rightarrow> change_payload \<Rightarrow> 'w \<Rightarrow> hook_result \<times> 'w" where
  "webhook_on_change W h p w =
     (Inr (), webhook_send W h Change
        (JObject [(''documentName'', JString (chp_document_name p)),
                  (''update'', JString (hex_encode (chp_update p)))]) w)"

definition webhook_extension :: "'w webhook_env \<Rightarrow> webhook \<Rightarrow> ('d, 'j, 'w) extension" where
  "webhook_extension W h =
     default_extension\<lparr>ext_name := ''webhook'', on_connect := webhook_on_connect W h,
       on_disconnect := webhook_on_disconnect W h, on_change := webhook_on_change W h\<rparr>"

section \<open>Reading hexadecimal back\<close>

fun hex_decode :: "string \<Rightarrow> bytes option" where
  "hex_decode [] = Some []"
| "hex_decode [c] = None"
| "hex_decode (c # d # cs) =
     (case from_str_radix_16 (word_of_nat (of_char c)) (word_of_nat (of_char d)) of
        None \<Rightarrow> None
      | Some b \<Rightarrow> map_option (Cons b) (hex_decode cs))"

definition hex_byte :: "nat \<Rightarrow> u8" where
  "hex_byte n = (if n < 10 then word_of_nat (48 + n) else word_of_nat (97 + (n - 10)))"

lemma hex_lower_byte: "n < 16 \<Longrightarrow> word_of_nat (of_char (hex_lower n)) = hex_byte n"
  by (auto simp: hex_lower_def hex_byte_def)

lemma hex_byte_table: "list_all (\<lambda>n. hex_digit (hex_byte n) = Some n \<and> hex_byte n \<noteq> 0x2B) [0..<16]"
  by code_simp

lemma hex_pair: "from_str_radix_16 (word_of_nat (of_char (hex_lower (unat b div 16))))
    (word_of_nat (of_char (hex_lower (unat b mod 16)))) = Some b"
proof -
  have "unat b < 256" using unsigned_less [of b, where ?'a = nat] by simp
  then have "unat b div 16 < 16" "unat b mod 16 < 16" by auto
  then show ?thesis using hex_byte_table by (simp add: list_all_iff from_str_radix_16_def hex_lower_byte)
qed

lemma hex_decode_encode: "hex_decode (hex_encode bs) = Some bs"
  by (induction bs) (simp_all add: hex_encode_def hex_pair)

section \<open>Properties\<close>

text \<open>Webhook posts can be checked and read. The hexadecimal form in the signature header and in the
  \<open>update\<close> field loses nothing: it decodes to the bytes it was made from, so a receiver recovers the Yjs
  update, and two bodies have the same signature exactly if their MACs agree.\<close>

theorem webhook_hex_roundtrip:
  "hex_decode (hex_encode bs) = Some bs \<and>
   (signature W h body = signature W h body' \<longleftrightarrow>
     hmac_sha256 W (as_bytes (wh_secret h)) (as_bytes body) = hmac_sha256 W (as_bytes (wh_secret h)) (as_bytes body'))"
  using hex_decode_encode by (auto simp: signature_def) (metis option.inject)

lemma neutral_webhook:
  assumes "\<forall>u hs b w. saved (http_post W u hs b w) = saved w"
  shows "neutral saved (webhook_extension W h)"
  using assms by (simp add: neutral_def webhook_extension_def default_extension_def hook_ok_def webhook_on_connect_def
      webhook_on_disconnect_def webhook_on_change_def webhook_send_def Let_def)

lemma neutral_throttle:
  assumes "\<forall>i w. saved (put i w) = saved w"
  shows "neutral saved (throttle_extension T clk get put)"
  using assms by (simp add: neutral_def throttle_extension_def default_extension_def hook_ok_def case_prod_beta)

lemma neutral_redis:
  assumes "\<forall>ch m w. saved (r_publish R ch m w) = saved w" and "\<forall>k t d w. saved (snd (r_set_nx_px R k t d w)) = saved w"
    and "\<forall>k t w. saved (r_delete_if R k t w) = saved w" and "\<forall>w. saved (snd (r_new_token R w)) = saved w"
    and "\<forall>m w. saved (r_put_locks R m w) = saved w"
  shows "neutral saved (redis_extension Y R cfg)"
  using assms by (simp add: neutral_def redis_extension_def default_extension_def hook_ok_def redis_after_load_def
      redis_on_change_def redis_on_awareness_update_def redis_on_store_def redis_after_store_def publish_def Let_def
      case_prod_beta split: option.split)

lemma bundled_server:
  assumes "yjs Y leq" and "store_backend st saved"
    and "extensions S = [redis_extension Y R cfg, database_extension Y st, webhook_extension W h, throttle_extension T clk get put]"
    and "\<forall>ch m w. saved (r_publish R ch m w) = saved w" and "\<forall>k t d w. saved (snd (r_set_nx_px R k t d w)) = saved w"
    and "\<forall>k t w. saved (r_delete_if R k t w) = saved w" and "\<forall>w. saved (snd (r_new_token R w)) = saved w"
    and "\<forall>m w. saved (r_put_locks R m w) = saved w" and "\<forall>u hs b w. saved (http_post W u hs b w) = saved w"
    and "\<forall>i w. saved (put i w) = saved w"
  shows "stored_server st saved Y leq S [redis_extension Y R cfg] [webhook_extension W h, throttle_extension T clk get put]"
  by (intro stored_server.intro stored_server_axioms.intro assms(1,2))
    (use assms(3) neutral_redis [OF assms(4-8)] neutral_webhook [OF assms(9)] neutral_throttle [OF assms(10)] in auto)

text \<open>C21: The durability results hold for the bundled extensions together. On a running server with the
  Redis extension, a database whose reads do not fail, a webhook and a throttle, whose own effects do not
  touch the saved states, every clean document in memory with no store in flight is what loading it anew
  would give, in every run in which no document has two running actors when one acts and nothing else,
  such as another node on the same database, changes the saved states.\<close>

theorem bundled_extensions_keep_documents_saved:
  assumes "yjs Y leq" and "store_backend st saved"
    and "extensions S = [redis_extension Y R cfg, database_extension Y st, webhook_extension W h, throttle_extension T clk get put]"
    and "\<forall>ch m w. saved (r_publish R ch m w) = saved w" and "\<forall>k t d w. saved (snd (r_set_nx_px R k t d w)) = saved w"
    and "\<forall>k t w. saved (r_delete_if R k t w) = saved w" and "\<forall>w. saved (snd (r_new_token R w)) = saved w"
    and "\<forall>m w. saved (r_put_locks R m w) = saved w" and "\<forall>u hs b w. saved (http_post W u hs b w) = saved w"
    and "\<forall>i w. saved (put i w) = saved w" and "\<forall>nm w. \<exists>r. fst (fetch st nm w) = Inr r"
    and "serves Y S (undivided saved) (server_start S now w) n" and "actors n j = Some a" and "\<not> dirty a" and "\<not> storing a"
  shows "leq (ydoc a) (ydoc (spawn Y S (doc_name a) cs t reg (n_world n))) \<and>
    leq (ydoc (spawn Y S (doc_name a) cs t reg (n_world n))) (ydoc a)"
proof -
  have "durable_server st saved Y leq S [redis_extension Y R cfg] [webhook_extension W h, throttle_extension T clk get put]"
    using bundled_server [OF assms(1-10)] assms(11) by (intro durable_server.intro durable_server_axioms.intro) simp_all
  then show ?thesis by (rule durable_server.clean_reloads [OF _ assms(12-15)])
qed

text \<open>A server with all four, whose Redis, webhook and throttle have no visible effect.\<close>

definition idle_redis :: "disk_world redis" where
  "idle_redis = \<lparr>r_publish = (\<lambda>_ _ w. w), r_set_nx_px = (\<lambda>_ _ _ w. (True, w)), r_delete_if = (\<lambda>_ _ w. w),
     r_new_token = (\<lambda>w. (''t'', w)), r_locks = (\<lambda>_. Map.empty), r_put_locks = (\<lambda>_ w. w)\<rparr>"

definition idle_webhook :: "disk_world webhook_env" where
  "idle_webhook = \<lparr>hmac_sha256 = (\<lambda>_ _. []), json_to_string = (\<lambda>_. []), http_post = (\<lambda>_ _ _ w. w)\<rparr>"

definition bundle_server :: "(bytes, string, disk_world) server" where
  "bundle_server = \<lparr>config = default_configuration, extensions =
     [redis_extension opset idle_redis demo_redis_config, database_extension opset disk_storage,
      webhook_extension idle_webhook (webhook_new [] []), throttle_extension with_defaults (\<lambda>_. 0) (\<lambda>_. inner_new) (\<lambda>_ w. w)]\<rparr>"

definition bundle_loaded :: "(bytes, bytes, u64 list, string, disk_world) net" where
  "bundle_loaded = loaded_start opset bundle_server 0 \<lparr>disk = [''doc'' \<mapsto> [3]], log = []\<rparr> ''doc'' [8]"

theorem bundled_extensions_keep_documents_saved_witness:
  "\<exists>a. actors bundle_loaded 0 = Some a \<and>
     set (ydoc a) = set (ydoc (spawn opset bundle_server ''doc'' (\<lambda>_. new_chan bundle_server) 9 Map.empty (n_world bundle_loaded)))"
proof -
  let ?w = "\<lparr>disk = [''doc'' \<mapsto> [3]], log = []\<rparr>"
  obtain a where a: "actors bundle_loaded 0 = Some a" "\<not> dirty a" "\<not> storing a" "doc_name a = ''doc''"
    by (simp add: bundle_loaded_def loaded_start_actor spawn_frames)
  have run: "serves opset bundle_server (undivided disk) (server_start bundle_server 0 ?w) bundle_loaded"
    unfolding bundle_loaded_def by (rule job_loads) (simp add: undivided_def)
  have exts: "extensions bundle_server =
     [redis_extension opset idle_redis demo_redis_config, database_extension opset disk_storage,
      webhook_extension idle_webhook (webhook_new [] []), throttle_extension with_defaults (\<lambda>_. 0) (\<lambda>_. inner_new) (\<lambda>_ w. w)]"
    by (simp add: bundle_server_def)
  have reads: "\<forall>nm w. \<exists>r. fst (fetch disk_storage nm w) = Inr r" by (simp add: disk_storage_def memory_storage_def memory_fetch_def)
  have "opset_leq (ydoc a) (ydoc (spawn opset bundle_server (doc_name a) (\<lambda>_. new_chan bundle_server) 9 Map.empty (n_world bundle_loaded))) \<and>
      opset_leq (ydoc (spawn opset bundle_server (doc_name a) (\<lambda>_. new_chan bundle_server) 9 Map.empty (n_world bundle_loaded))) (ydoc a)"
    by (rule bundled_extensions_keep_documents_saved [OF ops.yjs_axioms ds.store_backend_axioms exts _ _ _ _ _ _ _ reads run a(1-3)])
      (simp_all add: idle_redis_def idle_webhook_def)
  then show ?thesis using a by (auto simp: opset_leq_def)
qed

end
