(* ===== verification/Replication.thy ===== *)
theory Replication
  imports Redis
begin

text \<open>
  Replication between two nodes from end to end: what one node's hooks publish goes through Redis into
  the mailbox of the other node's actor, and the reply comes back the same way. Redis itself only has to
  deliver a published message to the subscribers of its channel.
\<close>

lemma short_routing_key: "nul \<notin> set nm \<Longrightarrow> fst (parse_routing_key nm) = nm"
  by (auto simp: fst_parse_routing_key takeWhile_eq_all_conv)

lemma subscriber_delivers:
  assumes "length i < 256" and "length j < 256" and "i \<noteq> j" and "parse C frame = Inr f"
    and "fst (parse_routing_key (routing_key f)) = nm" and "documents n nm = Some h" and "actors n h = Some a"
  shows "subscriber_turn C j (message_prefix i @ frame) n =
    n\<lparr>actors := (actors n)(h \<mapsto> a\<lparr>rx := rx a @ [ExternalFrame frame True]\<rparr>)\<rparr>"
  using assms by (simp add: subscriber_turn_def receive_message_def message_prefix_def Let_def unat_of_nat send_command_def)

text \<open>The peer's answer to a state request.\<close>

definition state_reply :: "('d, 'v, 'u, 'a, 'p) yrs \<Rightarrow> 'd \<Rightarrow> 'v \<Rightarrow> string \<Rightarrow> bytes" where
  "state_reply Y d sv nm =
     into_bytes (write_sync_payload (encode_sync Y (SyncStep2 (encode_diff_v1 Y d sv))) (out_sync_reply (wire Y) (out_new (wire Y) nm)))"

context yjs
begin

lemma update_frame_delivered:
  assumes "length i < 256" and "length j < 256" and "i \<noteq> j" and "nul \<notin> set nm" and "length nm < max_len"
    and "documents n nm = Some h" and "actors n h = Some a"
  shows "subscriber_turn (wire Y) j (message_prefix i @ encode_sync_frame Y nm m) n =
    n\<lparr>actors := (actors n)(h \<mapsto> a\<lparr>rx := rx a @ [ExternalFrame (encode_sync_frame Y nm m) True]\<rparr>)\<rparr>"
  by (rule subscriber_delivers [OF assms(1-3) parse_sync_frame [OF assms(5)] _ assms(6,7)])
    (simp add: short_routing_key assms(4))

lemma parse_state_reply:
  "length nm < max_len \<Longrightarrow> parse (wire Y) (state_reply Y d sv nm) =
     Inr \<lparr>routing_key = nm, message_type = SyncReply, decoder = sync_encode Y (SyncStep2 (encode_diff_v1 Y d sv))\<rparr>"
  by (simp add: state_reply_def parse_sync_reply)

lemma state_request_answered:
  assumes "length nm < max_len" and "doc_name p = nm"
  shows "replies (handle_external_frame Y S (encode_sync_frame Y nm (SyncStep1 sv)) True p) =
    replies p @ [state_reply Y (ydoc p) sv nm]"
  using sync_roundtrip [of "SyncStep1 sv"] assms
  by (simp add: handle_external_frame_def parse_sync_frame [OF assms(1)] handle_external_sync_def state_reply_def)

lemma state_reply_catches_up:
  assumes "length nm < max_len" and "leq b (ydoc s)" and "length (encode_diff_v1 Y d (state_vector Y b)) < max_len"
  shows "leq d (ydoc (handle_external_frame Y S (state_reply Y d (state_vector Y b) nm) True s))"
proof -
  have "handle_external_frame Y S (state_reply Y d (state_vector Y b) nm) True s =
      apply_and_broadcast Y S (encode_diff_v1 Y d (state_vector Y b)) Redis s"
    using sync_roundtrip [of "SyncStep2 (encode_diff_v1 Y d (state_vector Y b))"] assms(3)
    by (simp add: handle_external_frame_def parse_state_reply [OF assms(1)] handle_external_sync_def)
  then show ?thesis using apply_brings_up_to_date [OF assms(2)] by simp
qed

lemma state_reply_delivered:
  assumes "length i < 256" and "length (rc_identifier pcfg) < 256" and "i \<noteq> rc_identifier pcfg"
    and "nul \<notin> set nm" and "length nm < max_len" and "documents n nm = Some h" and "actors n h = Some a"
  shows "\<exists>m. reply_message (wire Y) pcfg (state_reply Y d sv nm) = Some (redis_channel pcfg nm, m) \<and>
    subscriber_turn (wire Y) i m n = n\<lparr>actors := (actors n)(h \<mapsto> a\<lparr>rx := rx a @ [ExternalFrame (state_reply Y d sv nm) True]\<rparr>)\<rparr>"
proof -
  have "subscriber_turn (wire Y) i (message_prefix (rc_identifier pcfg) @ state_reply Y d sv nm) n =
      n\<lparr>actors := (actors n)(h \<mapsto> a\<lparr>rx := rx a @ [ExternalFrame (state_reply Y d sv nm) True]\<rparr>)\<rparr>"
    by (rule subscriber_delivers [OF assms(2,1) _ parse_state_reply [OF assms(5)] _ assms(6,7)])
      (use assms(3,4) in \<open>auto simp: short_routing_key\<close>)
  then show ?thesis
    using assms(4,5) by (simp add: reply_message_def parse_state_reply redis_channel_def short_routing_key)
qed

end

text \<open>C11: An edit reaches every other node. When a node that runs the document applies an update of its
  own, \<open>on_change\<close> publishes one message on the document's channel; the subscriber of any other node on
  which the document is resident puts a frame into the mailbox of its actor, and handling that frame is
  exactly applying the update, as one that came from Redis.\<close>

theorem edit_reaches_other_nodes:
  assumes "yjs Y leq" and "length (rc_identifier cfg) < 256" and "length j < 256" and "rc_identifier cfg \<noteq> j"
    and "nul \<notin> set (chp_document_name p)" and "length (chp_document_name p) < 2 ^ 32" and "length (chp_update p) < 2 ^ 32"
    and "chp_origin p \<noteq> Redis" and "documents n (chp_document_name p) = Some h" and "actors n h = Some a"
  shows "\<exists>payload frame.
    redis_on_change Y R cfg p w = (Inr (), r_publish R (redis_channel cfg (chp_document_name p)) payload w) \<and>
    subscriber_turn (wire Y) j payload n =
      n\<lparr>actors := (actors n)(h \<mapsto> a\<lparr>rx := rx a @ [ExternalFrame frame True]\<rparr>)\<rparr> \<and>
    (\<forall>S s. handle_command Y S (ExternalFrame frame True) s = Some (False, apply_and_broadcast Y S (chp_update p) Redis s))"
proof -
  let ?frame = "encode_sync_frame Y (chp_document_name p) (Update (chp_update p))"
  have "redis_on_change Y R cfg p w =
      (Inr (), r_publish R (redis_channel cfg (chp_document_name p)) (message_prefix (rc_identifier cfg) @ ?frame) w)"
    using assms(8) by (simp add: redis_on_change_def publish_def)
  moreover have "handle_command Y S (ExternalFrame ?frame True) s = Some (False, apply_and_broadcast Y S (chp_update p) Redis s)" for S s
    using yjs.external_update [OF assms(1,6,7), of S True s] by (simp add: handle_command_def)
  ultimately show ?thesis
    using yjs.update_frame_delivered [OF assms(1) assms(2-6,9,10), of "Update (chp_update p)"] by blast
qed

text \<open>A node with one resident document.\<close>

definition node_net :: "(bytes, bytes, u64 list, string, redis_world) net" where
  "node_net = \<lparr>n_clock = 0, n_chans = chans (redis_doc []), n_world = world (redis_doc []), documents = [''doc'' \<mapsto> 0],
     actors = [0 \<mapsto> redis_doc [1]], next_actor = 1, next_ack = 0, next_conn_id = 1, next_socket_id = 1,
     active_connections = 0, n_creating = Map.empty, n_locked = {}, next_lock = 0, n_acks = {}, sockets = Map.empty, calls = Map.empty,
     upgrades = [], n_replies = []\<rparr>"

theorem edit_reaches_other_nodes_witness:
  "\<exists>payload frame. subscriber_turn (wire opset) ''b'' payload node_net =
     node_net\<lparr>actors := (actors node_net)(0 \<mapsto> (redis_doc [1])\<lparr>rx := [ExternalFrame frame True]\<rparr>)\<rparr> \<and>
   map_option (\<lambda>r. ydoc (snd r)) (handle_command opset redis_server (ExternalFrame frame True) (redis_doc [1])) = Some [1, 9]"
proof -
  let ?p = "\<lparr>chp_document_name = ''doc'', chp_update = [9], chp_origin = Local, chp_clients_count = 1\<rparr>"
  have "\<exists>payload frame.
      redis_on_change opset map_redis demo_redis_config ?p (world (redis_doc [])) =
        (Inr (), r_publish map_redis (redis_channel demo_redis_config ''doc'') payload (world (redis_doc []))) \<and>
      subscriber_turn (wire opset) ''b'' payload node_net =
        node_net\<lparr>actors := (actors node_net)(0 \<mapsto> (redis_doc [1])\<lparr>rx := rx (redis_doc [1]) @ [ExternalFrame frame True]\<rparr>)\<rparr> \<and>
      (\<forall>(S :: (bytes, string, redis_world) server) s. handle_command opset S (ExternalFrame frame True) s = Some (False, apply_and_broadcast opset S [9] Redis s))"
    using edit_reaches_other_nodes [OF ops.yjs_axioms, of demo_redis_config "''b''" ?p node_net 0 "redis_doc [1]" map_redis "world (redis_doc [])"]
    by (simp add: demo_redis_config_def config_identifier_def nul_def node_net_def)
  moreover have "ydoc (apply_and_broadcast opset redis_server [9] Redis (redis_doc [1])) = [1, 9]"
    by (simp add: apply_and_broadcast_def mark_dirty_def opset_def news_def redis_doc_def Let_def)
  moreover have "rx (redis_doc [1]) = []" by (simp add: redis_doc_def)
  ultimately show ?thesis by fastforce
qed

text \<open>C10: A node that loads a document catches up with the nodes that have it, if it has registered its actor by
  the time the answer comes. The state request its \<open>after_load_document\<close> hook publishes reaches the peer's
  actor; handling it makes the peer's actor send one reply; the reply publisher sends that on the document's
  channel; on a node that has the document in its registry at that moment it reaches the actor, and when that
  actor, which may have moved on meanwhile, handles it, its document holds everything the peer's held. (If
  the answer comes before the registration, see \<open>early_reply_dropped\<close>.)\<close>

theorem loading_node_catches_up:
  assumes "yjs Y leq" and "length (rc_identifier cfg) < 256" and "length (rc_identifier pcfg) < 256"
    and "rc_identifier cfg \<noteq> rc_identifier pcfg" and "rc_prefix pcfg = rc_prefix cfg"
    and "nul \<notin> set nm" and "length nm < 2 ^ 32"
    and "documents pn nm = Some ph" and "actors pn ph = Some pa" and "documents n nm = Some h" and "actors n h = Some a"
    and "doc_name p = nm" and "length (encode_diff_v1 Y (ydoc p) (state_vector Y b)) < 2 ^ 32" and "leq b (ydoc s)"
  shows "\<exists>payload rest frame f m.
    redis_after_load Y R cfg \<lparr>dp_document_name = nm, dp_clients_count = k\<rparr> (b, w) =
      (Inr (), b, r_publish R (redis_channel cfg nm) rest (r_publish R (redis_channel cfg nm) payload w)) \<and>
    subscriber_turn (wire Y) (rc_identifier pcfg) payload pn =
      pn\<lparr>actors := (actors pn)(ph \<mapsto> pa\<lparr>rx := rx pa @ [ExternalFrame frame True]\<rparr>)\<rparr> \<and>
    replies (handle_external_frame Y PS frame True p) = replies p @ [f] \<and>
    reply_message (wire Y) pcfg f = Some (redis_channel cfg nm, m) \<and>
    subscriber_turn (wire Y) (rc_identifier cfg) m n =
      n\<lparr>actors := (actors n)(h \<mapsto> a\<lparr>rx := rx a @ [ExternalFrame f True]\<rparr>)\<rparr> \<and>
    leq (ydoc p) (ydoc (handle_external_frame Y S f True s))"
proof -
  let ?frame = "encode_sync_frame Y nm (SyncStep1 (state_vector Y b))"
  let ?payload = "message_prefix (rc_identifier cfg) @ ?frame"
  have "redis_after_load Y R cfg \<lparr>dp_document_name = nm, dp_clients_count = k\<rparr> (b, w) =
      (Inr (), b, r_publish R (redis_channel cfg nm) (message_prefix (rc_identifier cfg) @ enc_string (wire Y) nm @ enc_var (wire Y) 3)
        (r_publish R (redis_channel cfg nm) ?payload w))"
    by (simp add: redis_after_load_def publish_def Let_def)
  moreover have "subscriber_turn (wire Y) (rc_identifier pcfg) ?payload pn =
      pn\<lparr>actors := (actors pn)(ph \<mapsto> pa\<lparr>rx := rx pa @ [ExternalFrame ?frame True]\<rparr>)\<rparr>"
    by (rule yjs.update_frame_delivered [OF assms(1,2,3,4,6,7,8,9)])
  moreover have "replies (handle_external_frame Y PS ?frame True p) = replies p @ [state_reply Y (ydoc p) (state_vector Y b) nm]"
    by (rule yjs.state_request_answered [OF assms(1,7,12)])
  moreover have "leq (ydoc p) (ydoc (handle_external_frame Y S (state_reply Y (ydoc p) (state_vector Y b) nm) True s))"
    by (rule yjs.state_reply_catches_up [OF assms(1,7,14,13)])
  moreover have "redis_channel pcfg nm = redis_channel cfg nm" by (simp add: redis_channel_def assms(5))
  ultimately show ?thesis
    using yjs.state_reply_delivered [OF assms(1,2,3,4,6,7,10,11), of "ydoc p" "state_vector Y b"] by metis
qed

definition peer_config :: redis_config where
  "peer_config = config_identifier ''b'' (redis_config_new ''1'' ''redis://localhost'')"

theorem loading_node_catches_up_witness:
  "\<exists>frame f m. replies (handle_external_frame opset redis_server frame True (redis_doc [1, 2])) = [f] \<and>
     reply_message (wire opset) peer_config f = Some (''hocuspocus:doc'', m) \<and>
     subscriber_turn (wire opset) ''a'' m node_net =
       node_net\<lparr>actors := (actors node_net)(0 \<mapsto> (redis_doc [1])\<lparr>rx := [ExternalFrame f True]\<rparr>)\<rparr> \<and>
     opset_leq [1, 2] (ydoc (handle_external_frame opset redis_server f True (redis_doc [3, 1])))"
proof -
  let ?P = "\<lambda>frame f m. replies (handle_external_frame opset redis_server frame True (redis_doc [1, 2])) = replies (redis_doc [1, 2]) @ [f] \<and>
      reply_message (wire opset) peer_config f = Some (redis_channel demo_redis_config ''doc'', m) \<and>
      subscriber_turn (wire opset) (rc_identifier demo_redis_config) m node_net =
        node_net\<lparr>actors := (actors node_net)(0 \<mapsto> (redis_doc [1])\<lparr>rx := rx (redis_doc [1]) @ [ExternalFrame f True]\<rparr>)\<rparr> \<and>
      opset_leq (ydoc (redis_doc [1, 2])) (ydoc (handle_external_frame opset redis_server f True (redis_doc [3, 1])))"
  have cfg: "rc_identifier demo_redis_config = ''a''" "rc_identifier peer_config = ''b''"
    "rc_prefix peer_config = rc_prefix demo_redis_config" "redis_channel demo_redis_config ''doc'' = ''hocuspocus:doc''"
    by (simp_all add: demo_redis_config_def peer_config_def config_identifier_def redis_config_new_def redis_channel_def)
  have doc: "doc_name (redis_doc [1, 2]) = ''doc''" "replies (redis_doc [1, 2]) = []" "rx (redis_doc [1]) = []"
      "ydoc (redis_doc [1, 2]) = [1, 2]" "ydoc (redis_doc [3, 1]) = [3, 1]" by (simp_all add: redis_doc_def)
  have diff: "length (encode_diff_v1 opset [1, 2] (state_vector opset [1])) < 2 ^ 32" "opset_leq [1] [3, 1]"
    by (simp_all add: opset_def news_def opset_leq_def)
  have net: "documents node_net ''doc'' = Some 0" "actors node_net 0 = Some (redis_doc [1])" by (simp_all add: node_net_def)
  have "\<exists>frame f m. ?P frame f m"
    using loading_node_catches_up [OF ops.yjs_axioms, of demo_redis_config peer_config "''doc''" node_net 0 "redis_doc [1]"
        node_net 0 "redis_doc [1]" "redis_doc [1, 2]" "[1]" "redis_doc [3, 1]" map_redis 0 "world (redis_doc [])" redis_server redis_server]
      cfg(1-3) doc diff net by (simp add: nul_def) blast
  then show ?thesis using cfg doc by auto
qed

section \<open>An answer that comes too early\<close>

lemma after_load_only:
  "\<forall>e \<in> set es. after_load_document e = after_load_document default_extension \<Longrightarrow>
     run_all (map (\<lambda>e. after_load_document e p) es) dw = dw"
  by (induction es arbitrary: dw) (simp_all add: default_extension_def hook_ok_def)

lemma not_resident_drops: "fst (parse_routing_key (routing_key f)) = nm \<Longrightarrow> parse C frame = Inr f \<Longrightarrow> documents n nm = None \<Longrightarrow>
    length j < 256 \<Longrightarrow> subscriber_turn C i (message_prefix j @ frame) n = n"
  by (auto simp: subscriber_turn_def receive_message_def message_prefix_def Let_def unat_of_nat)

lemma spawned_document:
  fixes n :: "('d, 'v, 'a, 'j, 'w) net"
  assumes "extensions S = redis_extension Y R cfg # es"
    and "\<forall>e \<in> set es. after_load_document e = after_load_document default_extension" and "documents n nm = None"
  shows "\<exists>n' b w. lookup_turn Y S nm (Spawning l) n = Some (Spawned l (next_actor n), n') \<and> documents n' nm = None \<and>
    n_world n' = publish R cfg nm (enc_string (wire Y) nm @ enc_var (wire Y) 3) (publish R cfg nm (encode_sync_frame Y nm (SyncStep1 (state_vector Y b))) w) \<and>
    (\<exists>a. actors n' (next_actor n) = Some a \<and> doc_name a = nm \<and> ydoc a = b \<and> rx a = [])"
proof -
  let ?p = "\<lparr>dp_document_name = nm, dp_clients_count = 0\<rparr>"
  obtain b w where l: "run_all (map (\<lambda>e. on_load_document e ?p) (extensions S)) (new_doc Y (\<not> gc (config S)), n_world n) = (b, w)"
    by (meson surj_pair)
  have "run_all (map (\<lambda>e. after_load_document e ?p) (extensions S)) (b, w) =
      (b, publish R cfg nm (enc_string (wire Y) nm @ enc_var (wire Y) 3) (publish R cfg nm (encode_sync_frame Y nm (SyncStep1 (state_vector Y b))) w))"
    using after_load_only [OF assms(2)] by (simp add: assms(1) redis_extension_def redis_after_load_def Let_def)
  with l assms(3) show ?thesis
    by (intro exI [of _ b] exI [of _ w] exI) (auto simp: spawn_document_def spawn_def Let_def)
qed

text \<open>C35: An answer that comes before the registration is lost. When a node with the Redis extension loads a document,
  the state request is published while the document is not in the registry yet. Whatever a peer's
  actor answers to this request, the subscriber drops if it arrives then; the document is registered
  afterwards with only what it has loaded, and an empty mailbox.\<close>

theorem early_reply_dropped:
  fixes n :: "('d, 'v, 'a, 'j, 'w) net"
  assumes "yjs Y leq" and "length (rc_identifier pcfg) < 256" and "rc_prefix pcfg = rc_prefix cfg"
    and "nul \<notin> set nm" and "length nm < 2 ^ 32" and "extensions S = redis_extension Y R cfg # es"
    and "\<forall>e \<in> set es. after_load_document e = after_load_document default_extension" and "documents n nm = None"
  shows "\<exists>n' n'' b request rest w a.
    lookup_turn Y S nm (Spawning l) n = Some (Spawned l (next_actor n), n') \<and>
    n_world n' = publish R cfg nm rest (publish R cfg nm request w) \<and>
    (\<forall>PS (p :: ('d, 'v, 'a, 'j, 'w) document). doc_name p = nm \<longrightarrow>
       (\<exists>f m. replies (handle_external_frame Y PS request True p) = replies p @ [f] \<and>
          reply_message (wire Y) pcfg f = Some (redis_channel cfg nm, m) \<and> subscriber_turn (wire Y) (rc_identifier cfg) m n' = n')) \<and>
    lookup_turn Y S nm (Spawned l (next_actor n)) n' = Some (Inserted l (next_actor n), n'') \<and>
    documents n'' nm = Some (next_actor n) \<and> actors n'' (next_actor n) = Some a \<and> rx a = [] \<and> ydoc a = b \<and>
    request = encode_sync_frame Y nm (SyncStep1 (state_vector Y b))"
proof -
  obtain n' b w a where n': "lookup_turn Y S nm (Spawning l) n = Some (Spawned l (next_actor n), n')" "documents n' nm = None"
    "n_world n' = publish R cfg nm (enc_string (wire Y) nm @ enc_var (wire Y) 3) (publish R cfg nm (encode_sync_frame Y nm (SyncStep1 (state_vector Y b))) w)"
    "actors n' (next_actor n) = Some a" "ydoc a = b" "rx a = []"
    using spawned_document [OF assms(6-8)] by blast
  have "\<exists>f m. replies (handle_external_frame Y PS (encode_sync_frame Y nm (SyncStep1 (state_vector Y b))) True p) = replies p @ [f] \<and>
      reply_message (wire Y) pcfg f = Some (redis_channel cfg nm, m) \<and> subscriber_turn (wire Y) (rc_identifier cfg) m n' = n'"
    if "doc_name p = nm" for PS and p :: "('d, 'v, 'a, 'j, 'w) document"
    using yjs.state_request_answered [OF assms(1,5) that] yjs.parse_state_reply [OF assms(1,5)]
      not_resident_drops [OF _ yjs.parse_state_reply [OF assms(1,5)] n'(2) assms(2)]
    by (simp add: reply_message_def redis_channel_def assms(3) short_routing_key [OF assms(4)])
  with n' show ?thesis by (fastforce simp del: lookup_turn.simps(5))
qed

definition empty_node :: "(bytes, bytes, u64 list, string, redis_world) net" where
  "empty_node = node_net\<lparr>documents := Map.empty, actors := Map.empty, next_actor := 0\<rparr>"

theorem early_reply_dropped_witness:
  "\<exists>n' n'' request f m a. lookup_turn opset redis_server ''doc'' (Spawning 0) empty_node = Some (Spawned 0 0, n') \<and>
     replies (handle_external_frame opset redis_server request True (redis_doc [1, 2])) = [f] \<and>
     reply_message (wire opset) peer_config f = Some (''hocuspocus:doc'', m) \<and> subscriber_turn (wire opset) ''a'' m n' = n' \<and>
     lookup_turn opset redis_server ''doc'' (Spawned 0 0) n' = Some (Inserted 0 0, n'') \<and> actors n'' 0 = Some a \<and> rx a = []"
proof -
  have *: "rc_identifier demo_redis_config = ''a''" "rc_identifier peer_config = ''b''"
    "rc_prefix peer_config = rc_prefix demo_redis_config" "redis_channel demo_redis_config ''doc'' = ''hocuspocus:doc''"
    "extensions redis_server = redis_extension opset map_redis demo_redis_config # []"
    "doc_name (redis_doc [1, 2]) = ''doc''" "replies (redis_doc [1, 2]) = []" "documents empty_node ''doc'' = None" "next_actor empty_node = 0"
    by (simp_all add: demo_redis_config_def peer_config_def config_identifier_def redis_config_new_def redis_channel_def
        redis_server_def redis_doc_def empty_node_def)
  have "length (rc_identifier peer_config) < 256" "nul \<notin> set ''doc''" "length ''doc'' < 2 ^ 32"
    "\<forall>e \<in> set []. after_load_document e = after_load_document default_extension" by (simp_all add: * nul_def)
  note main = early_reply_dropped [OF ops.yjs_axioms this(1) *(3) this(2,3) *(5) this(4) *(8), of 0, unfolded *(9)]
  show ?thesis
  proof (rule exE [OF main], elim exE conjE, goal_cases)
    case (1 n' n'' b request rest w a)
    obtain f m where "replies (handle_external_frame opset redis_server request True (redis_doc [1, 2])) = [f]"
      "reply_message (wire opset) peer_config f = Some (''hocuspocus:doc'', m)" "subscriber_turn (wire opset) ''a'' m n' = n'"
      using 1(3) [THEN spec, of redis_server, THEN spec, of "redis_doc [1, 2]"] unfolding *(1,4,7) append_Nil using *(6) by blast
    with 1 show ?thesis by blast
  qed
qed

end
