(* ===== verification/System_Sync.thy ===== *)
theory System_Sync
  imports System_Registry
begin

text \<open>
  Convergence in the running server: a client that is up to date with a document stays so through every
  run of the whole server, until it is disconnected. Steps of other tasks leave the document alone and only
  add to the client's queue; the turns of the document's own actor are covered by theory \<open>Document_Sync\<close>.
\<close>

section \<open>Steps of other tasks\<close>

text \<open>The document behind the handle \<open>h\<close> has not changed, and the channel \<open>ch\<close> has only got more messages.\<close>

definition undisturbed :: "('d, 'j, 'w) server \<Rightarrow> nat \<Rightarrow> nat \<Rightarrow> ('d, 'v, 'a, 'j, 'w) net \<Rightarrow> ('d, 'v, 'a, 'j, 'w) net \<Rightarrow> bool" where
  "undisturbed S h ch n n' \<longleftrightarrow> preserves S n n' \<and>
     (net_ok S n \<longrightarrow>
        (h < next_actor n \<longrightarrow> (\<forall>a'. actors n' h = Some a' \<longrightarrow>
           (\<exists>a. actors n h = Some a \<and> ydoc a' = ydoc a \<and> broadcast_base a' = broadcast_base a))) \<and>
        (\<exists>ms. queue (n_chans n' ch) = queue (n_chans n ch) @ ms))"

lemma undisturbedD:
  assumes "undisturbed S h ch n n'" and "net_ok S n"
  shows "net_ok S n'" and "\<exists>ms. queue (n_chans n' ch) = queue (n_chans n ch) @ ms" and "next_actor n \<le> next_actor n'"
    and "h < next_actor n \<Longrightarrow> actors n' h = Some a' \<Longrightarrow> \<exists>a. actors n h = Some a \<and> ydoc a' = ydoc a \<and> broadcast_base a' = broadcast_base a"
  using assms by (auto simp: undisturbed_def preserves_def persists_def)

lemma undisturbed_trans:
  assumes "undisturbed S h ch n m" and "undisturbed S h ch m k"
  shows "undisturbed S h ch n k"
proof -
  have "\<exists>a. actors n h = Some a \<and> ydoc a' = ydoc a \<and> broadcast_base a' = broadcast_base a"
    if ok: "net_ok S n" and h: "h < next_actor n" "actors k h = Some a'" for a'
  proof -
    have "h < next_actor m" using undisturbedD(3) [OF assms(1) ok] h(1) by simp
    then obtain b where b: "actors m h = Some b" "ydoc a' = ydoc b" "broadcast_base a' = broadcast_base b"
      using undisturbedD(4) [OF assms(2) undisturbedD(1) [OF assms(1) ok] _ h(2)] by blast
    then show ?thesis using undisturbedD(4) [OF assms(1) ok h(1) b(1)] by auto
  qed
  moreover have "\<exists>ms. queue (n_chans k ch) = queue (n_chans n ch) @ ms" if ok: "net_ok S n"
    using undisturbedD(2) [OF assms(1) ok] undisturbedD(2) [OF assms(2) undisturbedD(1) [OF assms(1) ok]] by auto
  ultimately show ?thesis using assms preserves_trans by (auto simp: undisturbed_def)
qed

lemma undisturbed_same:
  "preserves S n n' \<Longrightarrow> (\<And>h. h < next_actor n \<Longrightarrow> actors n' h = actors n h) \<Longrightarrow> queue (n_chans n' ch) = queue (n_chans n ch) \<Longrightarrow>
     undisturbed S h ch n n'"
  by (auto simp: undisturbed_def)

lemma undisturbed_refl: "undisturbed S h ch n n"
  by (simp add: undisturbed_same preserves_refl)

lemma undisturbed_send: "undisturbed S h ch n (n\<lparr>n_chans := snd (chan_send ch' msg (n_chans n))\<rparr>)"
  using chans_growD [where ch = ch, OF chan_send_grow] quietly_preserves [OF quietly_send] by (simp add: undisturbed_def)

lemma undisturbed_command:
  "preserves S n (snd (send_command h' cmd n)) \<Longrightarrow> undisturbed S h ch n (snd (send_command h' cmd n))"
  by (auto simp: undisturbed_def send_command_def split: option.split)

lemma undisturbed_fields:
  "undisturbed S h ch n (n\<lparr>n_world := w\<rparr>)" "undisturbed S h ch n (n\<lparr>documents := (documents n)(nm := None)\<rparr>)"
  "undisturbed S h ch n (n\<lparr>next_ack := i\<rparr>)" "undisturbed S h ch n (n\<lparr>next_conn_id := j\<rparr>)"
  "undisturbed S h ch n (n\<lparr>n_replies := rs\<rparr>)" "undisturbed S h ch n (n\<lparr>n_clock := n_clock n + t\<rparr>)"
  "undisturbed S h ch n (n\<lparr>n_locked := ls\<rparr>)" "undisturbed S h ch n (n\<lparr>n_creating := cr\<rparr>)"
  "undisturbed S h ch n (n\<lparr>n_creating := cr, next_lock := l\<rparr>)" "undisturbed S h ch n (n\<lparr>upgrades := us\<rparr>)"
  by (rule undisturbed_same; (rule quietly_preserves, rule quietly_fields | simp))+

lemma undisturbed_spawn: "undisturbed S h ch n (snd (spawn_document Y S nm n))"
  by (rule undisturbed_same [OF quietly_preserves [OF quietly_spawn]]) (simp_all add: spawn_document_def Let_def)

lemma undisturbed_enter: "named n h' nm \<Longrightarrow> undisturbed S h ch n (n\<lparr>documents := (documents n)(nm \<mapsto> h')\<rparr>)"
  by (rule undisturbed_same [OF quietly_preserves [OF quietly_enter]]) simp_all

interpretation ud: call_effects Y S "undisturbed S h ch" for Y S h ch
  by unfold_locales
    (rule undisturbed_refl | erule (1) undisturbed_trans | rule undisturbed_send | rule undisturbed_spawn | erule undisturbed_enter |
     rule undisturbed_command, rule quietly_preserves, (rule quietly_other_command, blast | erule quietly_join) | rule undisturbed_fields)+

lemma undisturbed_hang_up: "undisturbed S h ch n (n\<lparr>n_chans := (n_chans n)(ch' := (n_chans n ch')\<lparr>chan_closed := True\<rparr>)\<rparr>)"
  by (rule undisturbed_same [OF quietly_preserves [OF quietly_hang_up]]) simp_all

lemma undisturbed_write:
  assumes "writer_turn ok (n_chans n ch') = (msg, d)" and "\<And>m. ch' = ch \<Longrightarrow> msg \<noteq> Some m"
  shows "undisturbed S h ch n (n\<lparr>n_chans := (n_chans n)(ch' := d)\<rparr>)"
proof (rule undisturbed_same [OF quietly_preserves [OF quietly_write [OF assms(1)]]])
  show "queue (n_chans (n\<lparr>n_chans := (n_chans n)(ch' := d)\<rparr>) ch) = queue (n_chans n ch)"
    using assms by (cases "ch' = ch") (auto simp: writer_turn_def split: list.splits out_msg.splits)
qed simp_all

lemma undisturbed_act:
  assumes a: "actors n h' = Some a" and t: "actor_turn Y S (attach n a) exit s'" and "h' \<noteq> h"
  shows "undisturbed S h ch n (detach h' exit s' n)"
proof -
  have "chans_grow (n_chans n) (chans s')" if "net_ok S n"
    using turn_chans [OF t] that a by (auto simp: net_ok_def actors_ok_def actor_ok_def attach_inv)
  then show ?thesis
    using quietly_preserves [OF quietly_act [OF a t]] assms(3) chans_growD
    by (fastforce simp: undisturbed_def detach_def)
qed

text \<open>All steps but those of the document's actor and of the client's writer.\<close>

definition elsewhere :: "nat \<Rightarrow> nat \<Rightarrow> label \<Rightarrow> ('d, 'v, 'a, 'j, 'w) net \<Rightarrow> ('d, 'v, 'a, 'j, 'w) net \<Rightarrow> bool" where
  "elsewhere h ch l n n' \<longleftrightarrow> (\<forall>x. l \<noteq> Acted h x) \<and> (\<forall>m. l \<noteq> Wrote ch (Some m))"

lemma undisturbed_vacuous: "\<not> net_ok S n \<Longrightarrow> undisturbed S h ch n n'"
  by (simp add: undisturbed_def preserves_def)

interpretation udr: task_effects Y S "undisturbed S h ch" "elsewhere h ch" for Y S h ch
proof (unfold_locales, goal_cases)
  case (2 n m n')
  then show ?case by (simp add: undisturbed_def alike_def)
next
  case (4 ok n ch' msg d)
  then show ?case by (intro undisturbed_write) (auto simp: elsewhere_def)
next
  case (5 n h' a exit s')
  then show ?case by (intro undisturbed_act) (auto simp: elsewhere_def)
qed (erule undisturbed_vacuous | rule undisturbed_hang_up undisturbed_fields)+

section \<open>A client of the running server\<close>

text \<open>The client behind the channel \<open>ch\<close> uses the document behind the handle \<open>h\<close> and has the replica \<open>p\<close>. It gets what its writer
  takes from the channel and sends, and may edit its replica; everything else in the server goes on, as
  long as the document's actor runs and the client stays registered with an open channel.\<close>

inductive client_serves ::
    "('d, 'v, 'u, 'a, 'p) yrs \<Rightarrow> ('d, 'j, 'w) server \<Rightarrow> ('d \<Rightarrow> 'd \<Rightarrow> bool) \<Rightarrow> nat \<Rightarrow> nat \<Rightarrow>
       ('d, 'v, 'a, 'j, 'w) net \<Rightarrow> 'd \<Rightarrow> ('d, 'v, 'a, 'j, 'w) net \<Rightarrow> 'd \<Rightarrow> bool"
  for Y :: "('d, 'v, 'u, 'a, 'p) yrs" and S :: "('d, 'j, 'w) server" and leq :: "'d \<Rightarrow> 'd \<Rightarrow> bool" and h :: nat and ch :: nat
    and n0 :: "('d, 'v, 'a, 'j, 'w) net" and p0 :: 'd where
  begins: "client_serves Y S leq h ch n0 p0 n0 p0"
| happens: "client_serves Y S leq h ch n0 p0 n p \<Longrightarrow> server_step Y S l n n' \<Longrightarrow> (\<And>m. l \<noteq> Wrote ch (Some m)) \<Longrightarrow>
    actors n' h = Some a' \<Longrightarrow> served Y ch (attach n' a') \<Longrightarrow> client_serves Y S leq h ch n0 p0 n' p"
| receives: "client_serves Y S leq h ch n0 p0 n p \<Longrightarrow> server_step Y S (Wrote ch (Some m)) n n' \<Longrightarrow>
    \<not> chan_closed (n_chans n' ch) \<Longrightarrow> client_serves Y S leq h ch n0 p0 n' (receive Y m p)"
| types: "client_serves Y S leq h ch n0 p0 n p \<Longrightarrow> leq p p' \<Longrightarrow> client_serves Y S leq h ch n0 p0 n p'"

inductive_cases wrote_step: "server_step Y S (Wrote ch m) n n'"
inductive_cases acted_step: "server_step Y S (Acted h x) n n'"

text \<open>The client is up to date, and nothing is left to be broadcast.\<close>

definition in_step ::
    "('d, 'v, 'u, 'a, 'p) yrs \<Rightarrow> ('d \<Rightarrow> 'd \<Rightarrow> bool) \<Rightarrow> nat \<Rightarrow> nat \<Rightarrow> ('d, 'v, 'a, 'j, 'w) net \<Rightarrow> 'd \<Rightarrow> bool" where
  "in_step Y leq h ch n p \<longleftrightarrow>
     (\<exists>a. actors n h = Some a \<and> broadcast_base a = None \<and> leq (ydoc a) (replica Y p (queue (n_chans n ch))))"

context yjs
begin

lemma own_turn_in_step:
  assumes ok: "net_ok S n" and i: "in_step Y leq h ch n p" and a: "actors n h = Some a" and t: "actor_turn Y S (attach n a) x s'"
    and a': "actors (detach h x s' n) h = Some a'" and served: "served Y ch (attach (detach h x s' n) a')"
  shows "in_step Y leq h ch (detach h x s' n) p"
proof -
  have x: "\<not> x" and a'_eq: "a' = s'\<lparr>replies := []\<rparr>" using a' by (auto simp: detach_def split: if_splits)
  have step: "actor_step Y S (=) (attach n a) s'" using turn_is_step t x by fastforce
  have inv: "actor_inv (attach n a)" using ok a by (auto simp: net_ok_def actors_ok_def actor_ok_def attach_inv)
  have base: "broadcast_base (attach n a) = None" "caught_up Y leq (attach n a) p ch"
    using i a by (auto simp: in_step_def caught_up_def attach_def)
  have "served Y ch s'" using served by (simp add: served_def a'_eq attach_def detach_def)
  moreover obtain ms where "queue (chans s' ch) = queue (chans (attach n a) ch) @ ms"
    using chans_growD [OF turn_chans [OF t inv]] by blast
  ultimately have "client_run Y S (=) leq ch (attach n a) p s' p" by (rule run_server [OF run_start step])
  from client_run_caught_up [OF this inv base] show ?thesis
    using x by (simp add: in_step_def caught_up_def detach_def)
qed

lemma step_in_step:
  assumes ok: "net_ok S n" and i: "in_step Y leq h ch n p" and s: "server_step Y S l n n'" and l: "\<And>m. l \<noteq> Wrote ch (Some m)"
    and a': "actors n' h = Some a'" and served: "served Y ch (attach n' a')"
  shows "in_step Y leq h ch n' p"
proof (cases "\<exists>x. l = Acted h x")
  case True
  then obtain x a s' where "actors n h = Some a" "actor_turn Y S (attach n a) x s'" "n' = detach h x s' n"
    using s acted_step by blast
  then show ?thesis using own_turn_in_step [OF ok i] a' served by blast
next
  case False
  then have "elsewhere h ch l n n'" using l by (simp add: elsewhere_def)
  from udr.every_step [OF s this] have u: "undisturbed S h ch n n'" .
  obtain a where a: "actors n h = Some a" "broadcast_base a = None" "leq (ydoc a) (replica Y p (queue (n_chans n ch)))"
    using i by (auto simp: in_step_def)
  have "h < next_actor n" using ok a(1) by (auto simp: net_ok_def actors_ok_def)
  then have same: "ydoc a' = ydoc a" "broadcast_base a' = None" using undisturbedD(4) [OF u ok _ a'] a by auto
  obtain ms where "queue (n_chans n' ch) = queue (n_chans n ch) @ ms" using undisturbedD(2) [OF u ok] by blast
  then show ?thesis
    using a' same a(3) leq_trans [OF a(3) replica_adds] by (simp add: in_step_def replica_append)
qed

lemma client_in_step:
  assumes "client_serves Y S leq h ch n0 p0 n p" and "net_ok S n0" and "in_step Y leq h ch n0 p0"
  shows "net_ok S n \<and> in_step Y leq h ch n p"
  using assms(1)
proof (induction rule: client_serves.induct)
  case begins
  then show ?case using assms by simp
next
  case (happens n p l n' a')
  have "net_ok S n'"
    using okr.every_step [OF happens.hyps(2), of any_step] happens.IH by (simp add: preserves_def)
  then show ?case using step_in_step [OF _ _ happens.hyps(2-5)] happens.IH by blast
next
  case (receives n p m n')
  then obtain ok c where w: "writer_turn ok (n_chans n ch) = (Some m, c)" and n': "n' = n\<lparr>n_chans := (n_chans n)(ch := c)\<rparr>"
    using wrote_step by metis
  have "queue (n_chans n ch) = m # queue c" using w by (auto simp: writer_turn_def split: list.splits out_msg.splits)
  then have "in_step Y leq h ch n' (receive Y m p)"
    using receives.IH by (auto simp: in_step_def n' replica_def)
  then show ?case
    using okr.every_step [OF receives.hyps(2), of any_step] receives.IH by (simp add: preserves_def)
next
  case (types n p p')
  then show ?case using leq_trans [OF _ replica_start_mono] by (auto simp: in_step_def)
qed

end

text \<open>C1: Clients converge with the server. Take a client of the running server that is up to date with a
  document: its replica together with what is queued for it holds everything the document holds. Whatever
  then happens in the server (edits of the client itself and of others, frames from other nodes,
  stores, documents loaded and unloaded, sockets opened and closed, in any interleaving), as long as the
  document's actor runs and the client stays registered with an open channel, it is up to date; and
  whenever it has received all of its queue, its replica holds everything the document holds.\<close>

theorem server_clients_converge:
  assumes "yjs Y leq" and "serves Y S any_step (server_start S now w) n0" and "actors n0 h = Some a0"
    and "leq (ydoc a0) (replica Y p0 (queue (n_chans n0 ch)))" and "client_serves Y S leq h ch n0 p0 n p"
  shows "\<exists>a. actors n h = Some a \<and> leq (ydoc a) (replica Y p (queue (n_chans n ch))) \<and>
    (queue (n_chans n ch) = [] \<longrightarrow> leq (ydoc a) p)"
proof -
  have r: "refines Y S (server_start S now w) n0" by (rule rfr.every_run [OF assms(2)])
  then have ok: "net_ok S n0" by (simp add: refines_def preserves_def net_ok_start)
  have "born Y S n0" using r by (simp add: refines_def net_ok_start) (simp add: born_def server_start_def)
  then obtain cs t reg w' where "actor_reach Y S (\<lambda>_ _. True) (spawn Y S (doc_name a0) cs t reg w') (attach n0 a0)"
    using assms(3) unfolding born_def by blast
  from reachable_flushed [OF assms(1) this] have "broadcast_base (attach n0 a0) = None" by simp
  then have "in_step Y leq h ch n0 p0" using assms(3,4) by (simp add: in_step_def attach_def)
  from yjs.client_in_step [OF assms(1,5) ok this] show ?thesis by (auto simp: in_step_def replica_def)
qed

text \<open>A run for the witness: the client has joined the empty document, a programmatic edit is applied, and the
  client receives its welcome and the edit.\<close>

definition edited_actor :: "(bytes, bytes, u64 list, string, unit) document" where
  "edited_actor = acked_doc\<lparr>ydoc := [7], dirty := True, first_dirty_at := Some 5, last_change_at := Some 5, acks := [0, 1],
     chans := (\<lambda>_. new_chan demo_server)(0 := (new_chan demo_server)\<lparr>queue := [Frame auth_reply, Frame edit_frame]\<rparr>)\<rparr>"

definition edit_call :: "pc \<Rightarrow> string call" where
  "edit_call pc = Looking (Edit ''doc'' [7]) pc"

definition asking_net :: "(bytes, bytes, u64 list, string, unit) net" where
  "asking_net = joined_net\<lparr>next_ack := 2, actors := [0 \<mapsto> acked_doc\<lparr>rx := [DirectApply [7] 1]\<rparr>],
     calls := [Job 0 \<mapsto> Acking (Edit ''doc'' [7]) 0 1]\<rparr>"

lemma joined_net_simps:
  "documents joined_net = [''doc'' \<mapsto> 0]" "n_chans joined_net = snd (chan_send 0 (Frame auth_reply) (\<lambda>_. new_chan demo_server))"
  "next_ack joined_net = 1" "n_clock joined_net = 5" "actors joined_net = [0 \<mapsto> acked_doc]" "calls joined_net = Map.empty"
  "replies acked_doc = []" "rx acked_doc = []" "ydoc acked_doc = []" "connections acked_doc = [(1, demo_join)]"
  by (simp_all add: joined_net_def acked_net_def detach_def acked_doc_def asked_net_def loaded_net_eq park_def welcomed_net_def opened_net_def
      server_start_def doc_actor_def spawn_def Let_def opset_def fun_eq_iff)

lemma edit_asked: "client_serves opset demo_server opset_leq 0 0 joined_net [] asking_net []"
proof -
  have served: "served opset 0 (attach (joined_net\<lparr>next_ack := i, actors := [0 \<mapsto> acked_doc\<lparr>rx := q\<rparr>], calls := cs\<rparr>) (acked_doc\<lparr>rx := q\<rparr>))" for i cs q
    by (simp add: served_def attach_def joined_net_simps demo_join_def new_chan_def chan_send_def try_send_def)
      (simp add: opset_def news_def joined_net_simps)
  let ?n = "\<lambda>i k q. joined_net\<lparr>next_ack := i, actors := [0 \<mapsto> acked_doc\<lparr>rx := q\<rparr>], calls := [Job 0 \<mapsto> k]\<rparr>"
  have n: "joined_net\<lparr>calls := [Job 0 \<mapsto> k]\<rparr> = ?n 1 k []" for k
    using joined_net_simps by (simp add: fun_eq_iff)
  have 1: "server_step opset demo_server Other joined_net (?n 1 (edit_call Start) [])"
    using edit_starts [of joined_net 0 opset demo_server "''doc''" "[7]"] by (simp add: joined_net_simps edit_call_def n)
  have 2: "server_step opset demo_server Other (?n 1 (edit_call Start) []) (?n 1 (edit_call (Done 0)) [])"
    using goes_on [of "?n 1 (edit_call Start) []" "Job 0" "edit_call Start" opset demo_server "edit_call (Done 0)" "?n 1 (edit_call Start) []"]
    by (simp add: joined_net_simps edit_call_def)
  have 3: "server_step opset demo_server Other (?n 1 (edit_call (Done 0)) []) asking_net"
    using goes_on [of "?n 1 (edit_call (Done 0)) []" "Job 0" "edit_call (Done 0)" opset demo_server "Acking (Edit ''doc'' [7]) 0 1"
        "(?n 1 (edit_call (Done 0)) [])\<lparr>next_ack := 2, actors := [0 \<mapsto> acked_doc\<lparr>rx := [DirectApply [7] 1]\<rparr>]\<rparr>"]
    by (simp add: joined_net_simps edit_call_def send_command_def asking_net_def)
  have "client_serves opset demo_server opset_leq 0 0 joined_net [] (?n 1 (edit_call Start) []) []"
    by (rule happens [OF begins 1]) (use served in simp_all)
  then have "client_serves opset demo_server opset_leq 0 0 joined_net [] (?n 1 (edit_call (Done 0)) []) []"
    by (rule happens [OF _ 2]) (use served in simp_all)
  then show ?thesis
    by (rule happens [OF _ 3]) (use served in \<open>simp_all add: asking_net_def\<close>)
qed

lemma asking_turn:
  "actor_turn opset demo_server (attach asking_net (acked_doc\<lparr>rx := [DirectApply [7] 1]\<rparr>)) False edited_actor"
proof (rule turn_commands)
  have chan: "n_chans asking_net = (\<lambda>_. new_chan demo_server)(0 := (new_chan demo_server)\<lparr>queue := [Frame auth_reply]\<rparr>)"
    by (simp add: asking_net_def joined_net_simps chan_send_def try_send_def new_chan_def default_configuration_def)
  show "on_commands opset demo_server (attach asking_net (acked_doc\<lparr>rx := [DirectApply [7] 1]\<rparr>)) = Some (False, edited_actor)"
    unfolding attach_def chan
    by (simp add: edited_actor_def edit_frame_def asking_net_def joined_net_simps acked_doc_def doc_actor_def spawn_def demo_join_def
        on_commands_def handle_command_def apply_and_broadcast_def mark_dirty_def flush_broadcast_def broadcast_with_def send_frame_def
        chan_send_def try_send_def new_chan_def default_configuration_def opset_def news_def Let_def)
qed (simp add: attach_def)

lemma edited_actor_simps:
  "connections edited_actor = [(1, demo_join)]" "ydoc edited_actor = [7]"
  "chans edited_actor = (\<lambda>_. new_chan demo_server)(0 := (new_chan demo_server)\<lparr>queue := [Frame auth_reply, Frame edit_frame]\<rparr>)"
  by (simp_all add: edited_actor_def joined_net_simps)

definition sent_net :: "out_msg list \<Rightarrow> (bytes, bytes, u64 list, string, unit) net" where
  "sent_net q = (detach 0 False edited_actor asking_net)\<lparr>n_chans := (\<lambda>_. new_chan demo_server)(0 := (new_chan demo_server)\<lparr>queue := q\<rparr>)\<rparr>"

lemma edit_received:
  "client_serves opset demo_server opset_leq 0 0 joined_net [] (sent_net []) (receive opset (Frame edit_frame) (receive opset (Frame auth_reply) []))"
proof -
  let ?run = "client_serves opset demo_server opset_leq 0 0 joined_net []"
  have a: "actors asking_net 0 = Some (acked_doc\<lparr>rx := [DirectApply [7] 1]\<rparr>)" by (simp add: asking_net_def)
  have sent: "detach 0 False edited_actor asking_net = sent_net [Frame auth_reply, Frame edit_frame]"
    by (simp add: sent_net_def detach_def edited_actor_simps)
  have taken: "server_step opset demo_server (Wrote 0 (Some (Frame f))) (sent_net (Frame f # q)) (sent_net q)" for f q
    using writes [of True "sent_net (Frame f # q)" 0 "Some (Frame f)" "(new_chan demo_server)\<lparr>queue := q\<rparr>"]
    by (simp add: writer_turn_def sent_net_def new_chan_def)
  have "?run (sent_net [Frame auth_reply, Frame edit_frame]) []"
    unfolding sent [symmetric] using acts [OF a asking_turn]
    by (rule happens [OF edit_asked, where a' = "edited_actor\<lparr>replies := []\<rparr>"])
      (simp_all add: detach_def served_def attach_def edited_actor_simps demo_join_def new_chan_def opset_def news_def)
  then have "?run (sent_net [Frame edit_frame]) (receive opset (Frame auth_reply) [])"
    by (rule receives [OF _ taken]) (simp_all add: sent_net_def new_chan_def)
  then show ?thesis by (rule receives [OF _ taken]) (simp_all add: sent_net_def new_chan_def)
qed

theorem server_clients_converge_witness:
  "opset_leq [7] (receive opset (Frame edit_frame) (receive opset (Frame auth_reply) []))"
proof -
  have "actors (sent_net []) 0 = Some (edited_actor\<lparr>replies := []\<rparr>)" "queue (n_chans (sent_net []) 0) = []" "ydoc edited_actor = [7]"
    by (simp_all add: sent_net_def detach_def new_chan_def edited_actor_simps)
  then show ?thesis
    using server_clients_converge [OF ops.yjs_axioms serves_joined joined_facts(3) _ edit_received]
    by (simp add: joined_net_simps opset_leq_def)
qed

end
