(* ===== verification/System_Race.thy ===== *)
theory System_Race
  imports System_Registry
begin

text \<open>
  The interleaving of \<open>ServerShared::document\<close> with the unloading of a document that leaves two actors for one
  document, as a run of the server with three programmatic edits and no client.
\<close>

section \<open>Edits alone\<close>

text \<open>A caller of \<open>direct_apply\<close> arrives, and a caller takes its next step, if it can.\<close>

definition edit_arrives :: "nat \<Rightarrow> string \<Rightarrow> bytes \<Rightarrow> ('d, 'v, 'a, 'j, 'w) net \<Rightarrow> ('d, 'v, 'a, 'j, 'w) net" where
  "edit_arrives j nm u n = (if calls n (Job j) = None then n\<lparr>calls := (calls n)(Job j \<mapsto> Looking (Edit nm u) Start)\<rparr> else n)"

definition advance ::
    "('d, 'v, 'u, 'a, 'p) yrs \<Rightarrow> ('d, 'j, 'w) server \<Rightarrow> nat \<Rightarrow> ('d, 'v, 'a, 'j, 'w) net \<Rightarrow> ('d, 'v, 'a, 'j, 'w) net" where
  "advance Y S j n =
     (case calls n (Job j) of
        None \<Rightarrow> n
      | Some k \<Rightarrow>
          (case call_turn Y S k n of
             Some (Inl k', n') \<Rightarrow> n'\<lparr>calls := (calls n')(Job j \<mapsto> k')\<rparr>
           | _ \<Rightarrow> n))"

text \<open>Runs in which no socket is ever open and nothing else writes to the outside world.\<close>

definition no_sockets :: "label \<Rightarrow> ('d, 'v, 'a, 'j, 'w) net \<Rightarrow> ('d, 'v, 'a, 'j, 'w) net \<Rightarrow> bool" where
  "no_sockets l n n' \<longleftrightarrow> sockets n' = Map.empty \<and> l \<noteq> Outside"

lemma lookup_sockets: "lookup_turn Y S nm pc n = Some (pc', n') \<Longrightarrow> sockets n' = sockets n"
  by (cases pc) (auto simp: lock_entry_def spawn_document_def Let_def split: option.splits if_splits)

lemma call_sockets:
  assumes "call_turn Y S k n = Some (r, n')"
  shows "sockets n' = sockets n"
  using assms
proof (cases rule: call_turn_cases)
  case (look p pc pc')
  then show ?thesis by (blast intro: lookup_sockets)
next
  case (lost p h ack)
  then show ?thesis using call_gone_shape [of p n r n'] by (cases p) (auto simp del: call_gone.simps)
qed (auto simp: send_command_def dest!: call_gone_shape)

lemma arrival_serves:
  assumes "serves Y S no_sockets n0 n" and "sockets n = Map.empty"
  shows "serves Y S no_sockets n0 (edit_arrives j nm u n) \<and> sockets (edit_arrives j nm u n) = Map.empty"
  using assms on [OF assms(1) edit_starts, of j nm u]
  by (auto simp: edit_arrives_def no_sockets_def)

lemma advance_serves:
  assumes "serves Y S no_sockets n0 n" and "sockets n = Map.empty"
  shows "serves Y S no_sockets n0 (advance Y S j n) \<and> sockets (advance Y S j n) = Map.empty"
proof (cases "\<exists>k k' n'. calls n (Job j) = Some k \<and> call_turn Y S k n = Some (Inl k', n')")
  case True
  then obtain k k' n' where k: "calls n (Job j) = Some k" "call_turn Y S k n = Some (Inl k', n')" by blast
  have "sockets n' = Map.empty" using call_sockets [OF k(2)] assms(2) by simp
  then show ?thesis using on [OF assms(1) goes_on [OF k]] k by (simp add: advance_def no_sockets_def)
next
  case False
  then have "advance Y S j n = n" by (auto simp: advance_def split: option.split sum.split)
  then show ?thesis using assms by simp
qed

lemma advances_serve:
  "serves Y S no_sockets n0 n \<Longrightarrow> sockets n = Map.empty \<Longrightarrow>
     serves Y S no_sockets n0 (fold (advance Y S) js n) \<and> sockets (fold (advance Y S) js n) = Map.empty"
  by (induction js arbitrary: n) (simp_all add: advance_serves)

section \<open>The run\<close>

text \<open>The first edit loads the document, while the second already waits for the lock.\<close>

definition race_loaded :: "(bytes, bytes, u64 list, string, unit) net" where
  "race_loaded = fold (advance opset demo_server) [0, 0, 0, 1, 1, 0, 0, 0, 0, 0, 0]
     (edit_arrives 1 ''doc'' [8] (edit_arrives 0 ''doc'' [7] (server_start demo_server 5 ())))"

definition race_doc :: "(bytes, bytes, u64 list, string, unit) document" where
  "race_doc = spawn opset demo_server ''doc'' (\<lambda>_. new_chan demo_server) 5 Map.empty ()"

text \<open>The actor applies the edit, and later stores and unloads the document.\<close>

definition race_edited :: "(bytes, bytes, u64 list, string, unit) document" where
  "race_edited = race_doc\<lparr>ydoc := [7], dirty := True, first_dirty_at := Some 5, last_change_at := Some 5, acks := [0],
     registry := [''doc'' \<mapsto> 0]\<rparr>"

definition race_stored :: "(bytes, bytes, u64 list, string, unit) document" where
  "race_stored = race_doc\<lparr>ydoc := [7], acks := [0], clock := 2005\<rparr>"

definition race_unloaded :: "(bytes, bytes, u64 list, string, unit) net" where
  "race_unloaded = detach 0 True race_stored ((detach 0 False race_edited race_loaded)\<lparr>n_clock := 2005\<rparr>)"

text \<open>Now the second edit gets the old lock, and a third one makes a new lock.\<close>

definition race_spawned :: "(bytes, bytes, u64 list, string, unit) net" where
  "race_spawned = fold (advance opset demo_server) [1, 1, 2, 2, 2, 2, 1, 2] (edit_arrives 2 ''doc'' [9] race_unloaded)"

definition race_over :: "(bytes, bytes, u64 list, string, unit) net" where
  "race_over = fold (advance opset demo_server) [1, 1, 1, 1, 2, 2, 2, 2] race_spawned"

lemma race_doc_eq:
  "race_doc = \<lparr>doc_name = ''doc'', ydoc = [], awareness = [], connections = [], rx = [],
      dirty = False, first_dirty_at = None, last_change_at = None, last_origin = Local,
      storing = False, store_results = [], broadcast_base = None, broadcast_pending = False,
      clock = 5, chans = (\<lambda>_. new_chan demo_server), world = (), registry = Map.empty, store_tasks = [],
      acks = [], replies = []\<rparr>"
  by (simp add: race_doc_def spawn_def default_configuration_def opset_def)

lemma spawn_document_eq:
  "spawn_document opset demo_server nm n = (next_actor n,
     n\<lparr>actors := (actors n)(next_actor n \<mapsto> race_doc\<lparr>doc_name := nm, chans := n_chans n, clock := n_clock n, registry := documents n\<rparr>),
       next_actor := Suc (next_actor n)\<rparr>)"
  by (simp add: spawn_document_def race_doc_eq spawn_def default_configuration_def opset_def Let_def)

lemmas race_turns = advance_def edit_arrives_def lock_entry_def spawn_document_eq send_command_def Let_def

lemma race_loaded_eq:
  "race_loaded = (server_start demo_server 5 ())\<lparr>actors := [0 \<mapsto> race_doc\<lparr>rx := [DirectApply [7] 0]\<rparr>], documents := [''doc'' \<mapsto> 0],
     next_actor := 1, next_ack := 1, next_lock := 1,
     calls := [Job 0 \<mapsto> Acking (Edit ''doc'' [7]) 0 0, Job 1 \<mapsto> Looking (Edit ''doc'' [8]) (Waiting 0)]\<rparr>"
  by (simp add: race_loaded_def race_turns server_start_def) (simp add: race_doc_eq fun_eq_iff)

lemma race_edits: "actor_turn opset demo_server (attach race_loaded (race_doc\<lparr>rx := [DirectApply [7] 0]\<rparr>)) False race_edited"
  by (rule turn_commands)
    (simp_all add: attach_def race_loaded_eq server_start_def race_edited_def race_doc_eq on_commands_def handle_command_def
      apply_and_broadcast_def mark_dirty_def flush_broadcast_def broadcast_with_def opset_def news_def Let_def)

lemma race_unloads:
  "actor_turn opset demo_server (attach ((detach 0 False race_edited race_loaded)\<lparr>n_clock := 2005\<rparr>) race_edited) True race_stored"
  by (rule turn_timer)
    (simp_all add: attach_def detach_def race_loaded_eq server_start_def race_edited_def race_stored_def race_doc_eq
      deadline_reached_def store_deadline_def on_deadline_def run_store_def store_hooks_def maybe_unload_def default_configuration_def
      from_secs_def fun_upd_idem Let_def)

lemma race_unloaded_eq:
  "race_unloaded = (server_start demo_server 2005 ())\<lparr>next_actor := 1, next_ack := 1, next_lock := 1, n_acks := {0},
     calls := [Job 0 \<mapsto> Acking (Edit ''doc'' [7]) 0 0, Job 1 \<mapsto> Looking (Edit ''doc'' [8]) (Waiting 0)]\<rparr>"
  by (simp add: race_unloaded_def detach_def race_loaded_eq server_start_def race_edited_def race_stored_def race_doc_eq fun_eq_iff)

lemma race_spawned_eq:
  "race_spawned = (server_start demo_server 2005 ())\<lparr>actors := [1 \<mapsto> race_doc\<lparr>clock := 2005\<rparr>, 2 \<mapsto> race_doc\<lparr>clock := 2005\<rparr>],
     next_actor := 3, next_ack := 1, n_creating := [''doc'' \<mapsto> 1], n_locked := {(''doc'', 0), (''doc'', 1)}, next_lock := 2, n_acks := {0},
     calls := [Job 0 \<mapsto> Acking (Edit ''doc'' [7]) 0 0, Job 1 \<mapsto> Looking (Edit ''doc'' [8]) (Spawned 0 1),
       Job 2 \<mapsto> Looking (Edit ''doc'' [9]) (Spawned 1 2)]\<rparr>"
  by (simp add: race_spawned_def race_turns race_unloaded_eq server_start_def) (auto simp: race_doc_eq fun_eq_iff)

lemma race_over_actors:
  "actors race_over = [1 \<mapsto> race_doc\<lparr>rx := [DirectApply [8] 1], clock := 2005\<rparr>, 2 \<mapsto> race_doc\<lparr>rx := [DirectApply [9] 2], clock := 2005\<rparr>]"
  by (simp add: race_over_def race_turns race_spawned_eq server_start_def) (auto simp: race_doc_eq fun_eq_iff)

lemma race_runs: "serves opset demo_server no_sockets (server_start demo_server 5 ()) race_over"
proof -
  let ?n0 = "server_start demo_server 5 () :: (bytes, bytes, u64 list, string, unit) net"
  let ?from = "serves opset demo_server no_sockets ?n0"
  have "?from ?n0" "sockets ?n0 = Map.empty" by (auto intro: stay simp: server_start_def)
  then have "?from (edit_arrives 0 ''doc'' [7] ?n0) \<and> sockets (edit_arrives 0 ''doc'' [7] ?n0) = Map.empty"
    by (rule arrival_serves)
  then have "?from (edit_arrives 1 ''doc'' [8] (edit_arrives 0 ''doc'' [7] ?n0)) \<and>
      sockets (edit_arrives 1 ''doc'' [8] (edit_arrives 0 ''doc'' [7] ?n0)) = Map.empty"
    by (blast intro: arrival_serves [THEN conjunct1] arrival_serves [THEN conjunct2])
  then have l: "?from race_loaded" unfolding race_loaded_def using advances_serve by blast
  have a: "actors race_loaded 0 = Some (race_doc\<lparr>rx := [DirectApply [7] 0]\<rparr>)"
    and b: "actors ((detach 0 False race_edited race_loaded)\<lparr>n_clock := 2005\<rparr>) 0 = Some race_edited"
    and c: "n_clock (detach 0 False race_edited race_loaded) + 2000 = 2005" "sockets race_loaded = Map.empty"
    by (simp_all add: race_loaded_eq detach_def server_start_def race_edited_def race_doc_eq)
  have "?from (detach 0 False race_edited race_loaded)"
    by (rule on [OF l acts [OF a race_edits]]) (simp add: no_sockets_def detach_def c)
  moreover have "server_step opset demo_server Other (detach 0 False race_edited race_loaded) ((detach 0 False race_edited race_loaded)\<lparr>n_clock := 2005\<rparr>)"
    using passes [of opset demo_server "detach 0 False race_edited race_loaded" 2000] unfolding c(1) .
  ultimately have "?from ((detach 0 False race_edited race_loaded)\<lparr>n_clock := 2005\<rparr>)"
    by (rule on) (simp add: no_sockets_def detach_def c)
  then have "?from race_unloaded" unfolding race_unloaded_def
    by (rule on [OF _ acts [OF b race_unloads]]) (simp add: no_sockets_def detach_def c)
  moreover have "sockets race_unloaded = Map.empty" by (simp add: race_unloaded_eq server_start_def)
  ultimately have "?from race_spawned \<and> sockets race_spawned = Map.empty" unfolding race_spawned_def
    using arrival_serves advances_serve by blast
  then show ?thesis unfolding race_over_def using advances_serve by blast
qed

section \<open>Two actors\<close>

text \<open>C34: One name can get two actors. There is a run of the server, with no client and no failure, in which
  three callers edit one document: the first edit loads it, the actor stores and unloads it when it is idle,
  and then the second caller, which has waited for the lock the first one took, and the third, which made a
  new lock because the entry of the old one has been removed, both load it. At the end two actors of the same
  document run, each with one of the two edits in its mailbox and not the other's.\<close>

theorem two_actors_after_unload:
  "\<exists>(n :: (bytes, bytes, u64 list, string, unit) net) h h' a a' i j.
     serves opset demo_server no_sockets (server_start demo_server 5 ()) n \<and>
     actors n h = Some a \<and> actors n h' = Some a' \<and> h \<noteq> h' \<and> doc_name a = doc_name a' \<and>
     rx a = [DirectApply [8] i] \<and> rx a' = [DirectApply [9] j]"
proof -
  have "actors race_over 1 = Some (race_doc\<lparr>rx := [DirectApply [8] 1], clock := 2005\<rparr>)"
    "actors race_over 2 = Some (race_doc\<lparr>rx := [DirectApply [9] 2], clock := 2005\<rparr>)"
    by (simp_all add: race_over_actors)
  with race_runs show ?thesis by fastforce
qed

end
