(* ===== verification/Load_Test.thy ===== *)
theory Load_Test
  imports System Storage
begin

text \<open>
  The example programs (\<open>examples/\<close>): the three servers they build, and the session of a client of the
  load test, frame by frame, against the server it starts in its own process. What the load test counts on is proved of
  the server: the client is accepted, its frames get into the mailbox of its document in order, and the actor
  applies every update it sends.
\<close>

section \<open>The servers\<close>

text \<open>\<open>examples/loadtest.rs\<close>, \<open>examples/bench_server.rs\<close> and \<open>examples/server.rs\<close>; \<open>open\<close> is \<open>SqliteStorage::open\<close>.\<close>

definition load_server :: "('d, 'v, 'u, 'a, 'p) yrs \<Rightarrow> 'w storage \<Rightarrow> ('d, 'j, 'w) server" where
  "load_server Y st = build (builder_extension (database_extension Y st) builder_new)"

definition bench_main :: "'w listen_env \<Rightarrow> 'w \<Rightarrow> (string + unit) \<times> 'w" where
  "bench_main L w = listen L (build (builder_address ''127.0.0.1'' (builder_port 1234 builder_new))) w"

definition example_main ::
    "('d, 'v, 'u, 'a, 'p) yrs \<Rightarrow> (string, 'w) sqlite \<Rightarrow> (string \<Rightarrow> 'w \<Rightarrow> 'w) \<Rightarrow> 'w listen_env \<Rightarrow> 'w \<Rightarrow> (string + unit) \<times> 'w" where
  "example_main Y Q emit L w =
     (case sqlite_open Q ''hocuspocus.sqlite'' w of
        (Inl e, w) \<Rightarrow> (Inl e, w)
      | (Inr _, w) \<Rightarrow>
          let server = build (builder_extension (logger_extension emit logger_new)
                (builder_extension (sqlite_extension Y Q)
                  (builder_address ''127.0.0.1'' (builder_port 1234 builder_new))))
          in listen L server w)"

section \<open>A client of the load test\<close>

definition auth_frame :: "codec \<Rightarrow> string \<Rightarrow> bytes" where
  "auth_frame C doc = enc_string C doc @ enc_var C 2 @ enc_var C 0 @ enc_string C ''token'' @ enc_string C ''loadtest''"

definition sync_frame :: "('d, 'v, 'u, 'a, 'p) yrs \<Rightarrow> string \<Rightarrow> 'v sync_message \<Rightarrow> bytes" where
  "sync_frame Y doc msg = enc_string (wire Y) doc @ enc_var (wire Y) 0 @ sync_encode Y msg"

text \<open>The document of client \<open>c\<close>; the remainder panics if there are no documents.\<close>

definition load_doc_name :: "nat \<Rightarrow> nat \<Rightarrow> string option" where
  "load_doc_name c docs = (if docs = 0 then None else Some (''doc-'' @ show_nat (c mod docs)))"

text \<open>What a client sends; \<open>updates\<close> are the encoded transactions of its local document.\<close>

definition load_messages :: "('d, 'v, 'u, 'a, 'p) yrs \<Rightarrow> bytes list \<Rightarrow> 'v sync_message list" where
  "load_messages Y updates = SyncStep1 (default_sv Y) # map Update updates"

definition load_frames :: "('d, 'v, 'u, 'a, 'p) yrs \<Rightarrow> string \<Rightarrow> bytes list \<Rightarrow> bytes list" where
  "load_frames Y doc updates = auth_frame (wire Y) doc # map (sync_frame Y doc) (load_messages Y updates)"

section \<open>The client is accepted\<close>

lemma load_server_eq [simp]: "extensions (load_server Y st) = [database_extension Y st]" "config (load_server Y st) = default_configuration"
  by (simp_all add: load_server_def build_def builder_extension_def builder_new_def)

context wire_codec
begin

lemma auth_frame_parses:
  assumes "length doc < max_len"
  shows "parse C (auth_frame C doc) = Inr \<lparr>routing_key = doc, message_type = Auth,
      decoder = enc_var C 0 @ enc_string C ''token'' @ enc_string C ''loadtest''\<rparr>"
    and "length (auth_frame C doc) \<noteq> 1" and "auth_fields C (auth_frame C doc) = Some (''token'', Some ''loadtest'')"
proof -
  have t: "type_code Auth = 2" "auth_code Token = 0" by simp_all
  show p: "parse C (auth_frame C doc) = Inr \<lparr>routing_key = doc, message_type = Auth,
      decoder = enc_var C 0 @ enc_string C ''token'' @ enc_string C ''loadtest''\<rparr>"
    unfolding auth_frame_def t(1) [symmetric] by (rule parse_frame [OF assms from_u64_type_code])
  show "length (auth_frame C doc) \<noteq> 1" using frame_length [OF assms, of 2] unfolding auth_frame_def by (metis Suc_1 Suc_n_not_le_n One_nat_def)
  show "auth_fields C (auth_frame C doc) = Some (''token'', Some ''loadtest'')"
    unfolding auth_fields_def p by (simp add: dec_var_enc dec_string_enc)
qed

lemma sync_frame_parses:
  assumes "wire Y = C" and "length doc < max_len"
  shows "parse C (sync_frame Y doc m) = Inr \<lparr>routing_key = doc, message_type = Sync, decoder = sync_encode Y m\<rparr>"
    and "length (sync_frame Y doc m) \<noteq> 1"
proof -
  have t: "type_code Sync = 0" by simp
  show "parse C (sync_frame Y doc m) = Inr \<lparr>routing_key = doc, message_type = Sync, decoder = sync_encode Y m\<rparr>"
    unfolding sync_frame_def assms(1) t [symmetric] by (rule parse_frame [OF assms(2) from_u64_type_code])
  show "length (sync_frame Y doc m) \<noteq> 1" using frame_length [OF assms(2), of 0] unfolding sync_frame_def assms(1) by (metis Suc_1 Suc_n_not_le_n One_nat_def)
qed

end

lemma plain_key: "nul \<notin> set doc \<Longrightarrow> parse_routing_key doc = (doc, None)"
  by (simp add: parse_routing_key_def)

text \<open>Frames on an established routing key go to the mailbox one after the other.\<close>

lemma established_frames:
  assumes "wire_codec (wire Y)" and "length doc < max_len" and "map_of (establisheds c) doc = Some \<lparr>est_doc = h, est_conn_id = cid\<rparr>"
    and "actors n h = Some a"
  shows "\<exists>c'. fold (handle_frame Y S wait) (map (sync_frame Y doc) ms) (c, n) =
      (c', n\<lparr>actors := (actors n)(h \<mapsto> a\<lparr>rx := rx a @ map (\<lambda>m. ClientFrame cid (sync_frame Y doc m)) ms\<rparr>)\<rparr>) \<and>
    establisheds c' = establisheds c"
  using assms(3,4)
proof (induction ms arbitrary: c n a)
  case Nil
  then show ?case by (auto simp: fun_upd_idem)
next
  case (Cons m ms)
  note f = wire_codec.sync_frame_parses [OF assms(1) refl assms(2), of m]
  let ?a = "a\<lparr>rx := rx a @ [ClientFrame cid (sync_frame Y doc m)]\<rparr>"
  have "handle_frame Y S wait (sync_frame Y doc m) (c, n) = (c\<lparr>last_message_at := n_clock n\<rparr>, n\<lparr>actors := (actors n)(h \<mapsto> ?a)\<rparr>)"
    using f Cons.prems by (simp add: handle_frame_def send_command_def)
  then show ?case
    using Cons.IH [of "c\<lparr>last_message_at := n_clock n\<rparr>" "n\<lparr>actors := (actors n)(h \<mapsto> ?a)\<rparr>" ?a] Cons.prems
    by (simp add: fun_upd_upd [unfolded fun_upd_def] fun_upd_def cong: if_cong)
qed

definition load_conn :: "string \<Rightarrow> string \<Rightarrow> nat \<Rightarrow> request_meta \<Rightarrow> u64 \<Rightarrow> 'j conn_handle" where
  "load_conn doc sid ch meta cid =
     \<lparr>conn_id = cid, outbound = ch, conn_address = doc, conn_read_only = False, conn_socket_id = sid, conn_session_id = None,
      conn_cell = \<lparr>cell_context = context_new, cell_config = set_authenticated True default_connection_config\<rparr>,
      conn_request = meta, conn_provider_version = Some ''loadtest'', client_ids = []\<rparr>"

lemma auth_accepted:
  assumes "wire_codec (wire Y)" and "length doc < max_len" and "nul \<notin> set doc"
  shows "\<exists>c. frame_begin Y (load_server Y st) (auth_frame (wire Y) doc) (client_new sid ch meta t, n) =
      (c, (socket_send c (Frame (into_bytes (out_authenticated (wire Y) False (out_new (wire Y) doc)))) n)\<lparr>next_conn_id := next_conn_id n + 1\<rparr>,
       Some (load_conn doc sid ch meta (next_conn_id n))) \<and> out_tx c = ch \<and> establisheds c = [] \<and> pending c = []"
  using wire_codec.auth_frame_parses [OF assms(1,2)] plain_key [OF assms(3)]
  by (simp add: frame_begin_def client_new_def authenticate_begin_def accept_begin_def socket_send_def
      database_extension_def default_extension_def hook_ok_def load_conn_def default_connection_config_def set_authenticated_def Let_def)

section \<open>The actor applies the updates\<close>

text \<open>A document after the updates that can be decoded.\<close>

definition merged :: "('d, 'v, 'u, 'a, 'p) yrs \<Rightarrow> bytes list \<Rightarrow> 'd \<Rightarrow> 'd" where
  "merged Y us d = fold (\<lambda>u d. case decode_v1 Y u of None \<Rightarrow> d | Some up \<Rightarrow> snd (apply_update Y up d)) us d"

lemma applied_doc: "ydoc (apply_and_broadcast Y S u og s) = merged Y [u] (ydoc s)"
  "connections (apply_and_broadcast Y S u og s) = connections s"
  by (auto simp: merged_def apply_and_broadcast_def mark_dirty_def Let_def split: option.split prod.split bool.split)

fun sync_content :: "'v sync_message \<Rightarrow> bytes list" where
  "sync_content (SyncStep1 v) = []"
| "sync_content (SyncStep2 u) = [u]"
| "sync_content (Update u) = [u]"

lemma sync_command:
  assumes "yjs Y leq" and "length doc < max_len" and "sync_fits m"
    and "map_of (connections s) cid = Some conn" and "\<not> conn_read_only conn"
  shows "\<exists>s'. handle_command Y (load_server Y st) (ClientFrame cid (sync_frame Y doc m)) s = Some (False, s') \<and>
    connections s' = connections s \<and> ydoc s' = merged Y (sync_content m) (ydoc s)"
proof -
  note f = wire_codec.sync_frame_parses(1) [OF yjs.wire_laws [OF assms(1)] refl assms(2), of m]
  let ?f = "\<lparr>routing_key = doc, message_type = Sync, decoder = sync_encode Y m\<rparr>"
  have "handle_command Y (load_server Y st) (ClientFrame cid (sync_frame Y doc m)) s =
      map_option (Pair False) (handle_sync Y (load_server Y st) cid (conn_address conn) (Connection cid) ?f s)"
    using assms(4) by (simp add: handle_command_def handle_client_frame_def f)
  moreover have "\<exists>s'. handle_sync Y (load_server Y st) cid (conn_address conn) (Connection cid) ?f s = Some s' \<and>
      connections s' = connections s \<and> ydoc s' = merged Y (sync_content m) (ydoc s)"
    using assms(4,5) yjs.sync_roundtrip [OF assms(1,3)]
    by (cases m)
      (simp_all add: handle_sync_def Let_def before_handle_message_def database_extension_def
        default_extension_def hook_ok_def send_sync_status_def applied_doc, simp_all add: merged_def)
  ultimately show ?thesis by auto
qed

lemma sync_batch:
  assumes "yjs Y leq" and "length doc < max_len" and "\<forall>m \<in> set ms. sync_fits m"
    and "map_of (connections s) cid = Some conn" and "\<not> conn_read_only conn"
  shows "\<exists>s'. run_batch Y (load_server Y st) (map (\<lambda>m. ClientFrame cid (sync_frame Y doc m)) ms) s = Some (False, s') \<and>
    connections s' = connections s \<and> ydoc s' = merged Y (concat (map sync_content ms)) (ydoc s)"
  using assms(3,4)
proof (induction ms arbitrary: s)
  case Nil
  then show ?case by (simp add: merged_def)
next
  case (Cons m ms)
  obtain t where t: "handle_command Y (load_server Y st) (ClientFrame cid (sync_frame Y doc m)) s = Some (False, t)"
    "connections t = connections s" "ydoc t = merged Y (sync_content m) (ydoc s)"
    using sync_command [OF assms(1,2) _ Cons.prems(2) assms(5)] Cons.prems(1) by fastforce
  then show ?case using Cons.IH [of t] Cons.prems by (auto simp: merged_def)
qed

lemma load_conn_registered:
  "\<exists>s'. handle_command Y S (AddConnection (load_conn doc sid ch meta cid) ack) s = Some (False, s') \<and>
    map_of (connections s') cid = Some (load_conn doc sid ch meta cid) \<and> ydoc s' = ydoc s"
  by (auto simp: handle_command_def add_connection_def load_conn_def update_conv' Let_def split: option.split)

section \<open>The session\<close>

text \<open>C27: The load test's clients are served. On the server the load test starts, in whatever state it is, let a
  client open a socket and authenticate for a document, in memory or not. Its frame is accepted at once: the
  answer that grants write access is queued for it and the handler goes on to register the new connection.
  When the registration is acknowledged by an actor \<open>h\<close>, the socket is routed to \<open>h\<close>. From then on, whatever
  has happened in between, the first sync step and the updates, in pieces of any size, go to the end of the
  mailbox of \<open>h\<close> in the order sent. In any state of the actor in which the connection is registered, as its
  registration makes it, such frames are handled without a panic and without ending the actor, the connection
  stays registered, and the document changes by exactly the updates in the frames, applied in order.\<close>

theorem load_client_served:
  fixes Y :: "('d, 'v, 'u, 'a, 'p) yrs" and n :: "('d, 'v, 'a, 'j, 'w) net"
  assumes "yjs Y leq" and "length doc < max_len" and "nul \<notin> set doc" and "\<forall>u \<in> set us. length u < max_len"
  shows "\<exists>c. frame_begin Y (load_server Y st) (hd (load_frames Y doc us)) (client_new sid ch meta t, n) =
      (c, (socket_send c (Frame (into_bytes (out_authenticated (wire Y) False (out_new (wire Y) doc)))) n)\<lparr>next_conn_id := next_conn_id n + 1\<rparr>,
       Some (load_conn doc sid ch meta (next_conn_id n))) \<and> out_tx c = ch \<and>
    (\<forall>(h :: nat) (m :: ('d, 'v, 'a, 'j, 'w) net). \<exists>c'. accepted doc (next_conn_id n) c (Some h, m) = (c', m) \<and>
       map_of (establisheds c') doc = Some \<lparr>est_doc = h, est_conn_id = next_conn_id n\<rparr>) \<and>
    (\<forall>ms d wait (m :: ('d, 'v, 'a, 'j, 'w) net) h a. set ms \<subseteq> set (load_messages Y us) \<and>
       map_of (establisheds d) doc = Some \<lparr>est_doc = h, est_conn_id = next_conn_id n\<rparr> \<and> actors m h = Some a \<longrightarrow>
       (\<exists>d'. fold (handle_frame Y (load_server Y st) wait) (map (sync_frame Y doc) ms) (d, m) =
          (d', m\<lparr>actors := (actors m)(h \<mapsto> a\<lparr>rx := rx a @ map (\<lambda>q. ClientFrame (next_conn_id n) (sync_frame Y doc q)) ms\<rparr>)\<rparr>) \<and>
          establisheds d' = establisheds d)) \<and>
    (\<forall>(s :: ('d, 'v, 'a, 'j, 'w) document) ack. \<exists>s'.
       handle_command Y (load_server Y st) (AddConnection (load_conn doc sid ch meta (next_conn_id n)) ack) s = Some (False, s') \<and>
       map_of (connections s') (next_conn_id n) = Some (load_conn doc sid ch meta (next_conn_id n)) \<and> ydoc s' = ydoc s) \<and>
    (\<forall>ms (s :: ('d, 'v, 'a, 'j, 'w) document) k. set ms \<subseteq> set (load_messages Y us) \<and>
       map_of (connections s) (next_conn_id n) = Some k \<and> \<not> conn_read_only k \<longrightarrow>
       (\<exists>s'. run_batch Y (load_server Y st) (map (\<lambda>q. ClientFrame (next_conn_id n) (sync_frame Y doc q)) ms) s = Some (False, s') \<and>
          connections s' = connections s \<and> ydoc s' = merged Y (concat (map sync_content ms)) (ydoc s)))"
proof -
  note codec = yjs.wire_laws [OF assms(1)]
  have fits: "\<forall>m \<in> set ms. sync_fits m" if "set ms \<subseteq> set (load_messages Y us)" for ms
    using that assms(4) by (auto simp: load_messages_def subset_iff)
  obtain c where c: "frame_begin Y (load_server Y st) (auth_frame (wire Y) doc) (client_new sid ch meta t, n) =
      (c, (socket_send c (Frame (into_bytes (out_authenticated (wire Y) False (out_new (wire Y) doc)))) n)\<lparr>next_conn_id := next_conn_id n + 1\<rparr>,
       Some (load_conn doc sid ch meta (next_conn_id n)))" "out_tx c = ch" "establisheds c = []" "pending c = []"
    using auth_accepted [OF codec assms(2,3)] by blast
  show ?thesis
  proof (rule exI [of _ c], intro conjI allI impI)
    show "\<exists>c'. accepted doc (next_conn_id n) c (Some h, m) = (c', m) \<and>
        map_of (establisheds c') doc = Some \<lparr>est_doc = h, est_conn_id = next_conn_id n\<rparr>"
      for h and m :: "('d, 'v, 'a, 'j, 'w) net"
      using c(3,4) by (simp add: accepted_def)
  qed (use c in \<open>auto simp: load_frames_def intro!: established_frames [OF codec assms(2)] load_conn_registered
      sync_batch [OF assms(1,2) fits]\<close>)
qed

definition plain_storage :: "(string \<rightharpoonup> bytes) storage" where
  "plain_storage = memory_storage (\<lambda>m. m) (\<lambda>m _. m)"

definition load_start :: "(string \<rightharpoonup> bytes) \<Rightarrow> (bytes, bytes, u64 list, string, string \<rightharpoonup> bytes) net" where
  "load_start m = server_start (load_server opset plain_storage) 0 m"

lemma plain_load: "ydoc (spawn opset (load_server opset plain_storage) ''doc-0'' cs t reg [''doc-0'' \<mapsto> [3]]) = [3]"
  by (simp add: spawn_def database_extension_def default_extension_def hook_ok_def database_load_def plain_storage_def
      memory_storage_def memory_fetch_def opset_def news_def)

theorem load_client_served_witness:
  "\<exists>c n' (s :: (bytes, bytes, u64 list, string, string \<rightharpoonup> bytes) document) s'. frame_begin opset (load_server opset plain_storage) (auth_frame (wire opset) ''doc-0'')
       (client_new ''ws-1'' 0 default_request_meta 0, load_start [''doc-0'' \<mapsto> [3]]) =
       (c, n', Some (load_conn ''doc-0'' ''ws-1'' 0 default_request_meta 1)) \<and>
     handle_command opset (load_server opset plain_storage) (AddConnection (load_conn ''doc-0'' ''ws-1'' 0 default_request_meta 1) 0)
       (spawn opset (load_server opset plain_storage) ''doc-0'' (n_chans (load_start [''doc-0'' \<mapsto> [3]])) 0 Map.empty [''doc-0'' \<mapsto> [3]]) = Some (False, s) \<and>
     run_batch opset (load_server opset plain_storage)
       (map (\<lambda>q. ClientFrame 1 (sync_frame opset ''doc-0'' q)) (load_messages opset [[7], [8]])) s = Some (False, s') \<and>
     ydoc s' = [3, 7, 8]"
proof -
  let ?n = "load_start [''doc-0'' \<mapsto> [3]]" and ?S = "load_server opset plain_storage :: (bytes, string, string \<rightharpoonup> bytes) server"
  let ?s0 = "spawn opset ?S ''doc-0'' (n_chans (load_start [''doc-0'' \<mapsto> [3]])) 0 Map.empty [''doc-0'' \<mapsto> [3]] :: (bytes, bytes, u64 list, string, string \<rightharpoonup> bytes) document"
  have *: "merged opset (concat (map sync_content (load_messages opset [[7], [8]]))) [3] = [3, 7, 8]" "next_conn_id ?n = 1"
    "hd (load_frames opset ''doc-0'' [[7], [8]]) = auth_frame (wire opset) ''doc-0''"
    by (simp_all add: load_messages_def load_frames_def merged_def opset_def news_def load_start_def server_start_def)
  have "length ''doc-0'' < max_len" "nul \<notin> set ''doc-0''" "\<forall>u \<in> set [[7], [8]]. length (u :: bytes) < max_len" by (simp_all add: nul_def)
  note main = load_client_served [OF ops.yjs_axioms this, of plain_storage "''ws-1''" 0 default_request_meta 0 ?n, unfolded *(2,3)]
  show ?thesis
  proof (rule exE [OF main], elim conjE, goal_cases)
    case (1 c)
    obtain s where s: "handle_command opset ?S (AddConnection (load_conn ''doc-0'' ''ws-1'' 0 default_request_meta 1) 0) ?s0 = Some (False, s)"
      "map_of (connections s) 1 = Some (load_conn ''doc-0'' ''ws-1'' 0 default_request_meta 1)" "ydoc s = [3]"
      using 1(5) [THEN spec, of ?s0, THEN spec, of 0] unfolding plain_load by blast
    have "\<not> conn_read_only (load_conn ''doc-0'' ''ws-1'' 0 default_request_meta 1)" by (simp add: load_conn_def)
    then obtain s' where "run_batch opset ?S (map (\<lambda>q. ClientFrame 1 (sync_frame opset ''doc-0'' q)) (load_messages opset [[7], [8]])) s = Some (False, s')"
      "ydoc s' = [3, 7, 8]"
      using 1(6) [THEN spec, of "load_messages opset [[7], [8]]", THEN spec, of s] s(2,3) *(1) by auto
    with 1(1) s(1) show ?thesis by blast
  qed
qed

end
