(* ===== verification/Spec2Isabelle.thy ===== *)
theory Spec2Isabelle
  imports Document_Life Webhook Replication System_Sync System_Durable System_Race Load_Test
begin

text \<open>
  A verification library for \<open>hocuspocus-rs\<close>, a Rust server for collaborative editing of Yjs documents
  over WebSockets. The code is in \<open>src/crates/hocuspocus/src\<close>; file names below are relative to it.

  \<^bold>\<open>The program and its parts.\<close> A client opens a socket (\<open>server.rs\<close>, \<open>handle_socket\<close>), authenticates for one
  or more routing keys (\<open>ClientConnection::authenticate\<close>) and from then on exchanges frames
  (\<open>protocol.rs\<close>) with the actor of each document. A document actor (\<open>document.rs\<close>) owns the document, its
  awareness states and its connections; it takes commands from a mailbox in batches, merges the edits of
  a batch into one broadcast, stores the document after a debounce, and unloads itself when the last
  connection leaves. Extensions (\<open>extension.rs\<close>) hook into all of this: persistence, logging, throttling,
  webhooks, and the replication between nodes over Redis (\<open>extensions/\<close>).

  \<^bold>\<open>Modelling.\<close> Structs are records, enums datatypes, and every function or handler one definition of the
  same name; a hook changes a state \<open>'w\<close> that stands for everything extensions read and write. Errors
  are values of \<open>hook_error\<close> or of sum types; a panic is \<open>None\<close>. Code between two await points is
  atomic. Bytes, opcodes and ids are words of their width; times and sizes are natural numbers.

  \<^item> \<open>Hp_Prelude\<close>: bytes, strings, little-endian integers, searching in strings.
  \<^item> \<open>Wire\<close>: \<open>protocol.rs\<close> over a codec for variable-length integers, strings and buffers, which is a
    parameter (locale \<open>wire_codec\<close>); \<open>Lib0\<close> is an instance of it. Every frame the server builds parses
    back to its address, type and payload.
  \<^item> \<open>Basics\<close>: \<open>error.rs\<close>, \<open>config.rs\<close>, \<open>context.rs\<close>, \<open>origin.rs\<close>.
  \<^item> \<open>Extension\<close>: \<open>extension.rs\<close> (an extension is a record of hooks), how hooks run one after another, and the
    builder of \<open>server.rs\<close>.
  \<^item> \<open>Throttle\<close>: \<open>extensions/throttle.rs\<close> and the bound on admitted connections in a window.
  \<^item> \<open>Yrs\<close>: the \<open>yrs\<close> library as a record of functions; locale \<open>yjs\<close> states the laws the server relies on.
    \<open>Opset\<close> is an executable instance, used by the witnesses only.
  \<^item> \<open>Document\<close>: the operations and the event loop of \<open>document.rs\<close>, in the order of the file.
    \<open>Document_Inv\<close>: the step relation of the actor with everything around it, and its bookkeeping
    invariant. \<open>Document_Sync\<close>: what clients that read their queues hold. \<open>Document_Props\<close>: the
    actor's properties of one operation or batch. \<open>Document_Routes\<close>: what a turn of an actor leaves alone.
    \<open>Document_Life\<close>: what holds along the life of a document, from its first unsaved change to the store, and from
    an awareness update to the end of the connection that sent it (locale \<open>command_effects\<close>).
  \<^item> \<open>Storage\<close>: \<open>extensions/database.rs\<close>, \<open>sqlite.rs\<close> and \<open>logger.rs\<close>, with backends as locales
    (\<open>store_backend\<close>, \<open>state_map\<close>, \<open>sqlite_table\<close>). \<open>Durability\<close>: actor and storage together.
  \<^item> \<open>Http\<close>: the parsing of requests in \<open>server.rs\<close> (\<open>ws_handler\<close>, \<open>form_urlencoded_parse\<close>,
    \<open>percent_decode\<close>) on bytes, including UTF-8 repair and the panics of slicing.
  \<^item> \<open>Server\<close>: the rest of \<open>server.rs\<close>: registry, client connections, socket loop, writer, \<open>listen\<close>; the
    shared state is the record \<open>net\<close>. Handlers are given from beginning to end, with a parameter for
    what happens while they wait; \<open>ServerShared::document\<close> is also given step by step (\<open>lookup_turn\<close>).
    \<open>Server_Props\<close>: properties of the connection layer.
  \<^item> \<open>Registry\<close>: the lookup protocol of \<open>ServerShared::document\<close> on its own, as an abstract specification.
  \<^item> \<open>Redis\<close>: \<open>extensions/redis.rs\<close>; \<open>Replication\<close>: messages between two nodes from end to end;
    \<open>Webhook\<close>: \<open>extensions/webhook.rs\<close>, and all bundled extensions together.
  \<^item> \<open>System\<close>: the running server as a small-step relation \<open>server_step\<close>. Socket handlers and programmatic
    edits are cut at their await points (\<open>frame_begin\<close>, \<open>call_turn\<close>, \<open>accepted\<close>); a task that waits for a
    lock, a load or an acknowledgement is an entry of the table \<open>calls\<close>, and sockets, lookups, actors,
    writers, the subscriber, pending upgrades and the tasks of extensions interleave in every way. The locales
    \<open>net_effects\<close>, \<open>call_effects\<close>, \<open>server_effects\<close> and (in \<open>System_Inv\<close>) \<open>task_effects\<close> state which
    primitive effects a relation has to keep so that every run keeps it; each result below is one
    interpretation of them. \<open>System_Demo\<close>: the cut handlers are the handlers of \<open>Server\<close>; a run for the
    witnesses; the overrun of the connection limit. \<open>System_Inv\<close>: the tables of the server stay consistent.
    \<open>System_Sim\<close>: each actor in it behaves like the actor of \<open>Document_Inv\<close>. \<open>System_Registry\<close>: it
    implements the protocol of \<open>Registry\<close>, and no lookup is stuck. \<open>System_Race\<close>: a run in which one document gets
    two actors. \<open>System_Sync\<close> and \<open>System_Durable\<close>: convergence and durability
    in the running server.
  \<^item> \<open>Load_Test\<close>: the servers of \<open>examples/\<close> and the session of a client of \<open>examples/loadtest.rs\<close>.

  \<^bold>\<open>What is shown.\<close> Convergence, in every run of the whole server: a client that is up to date stays so, whatever
  is interleaved, once it has read its queue; the sync handshake brings it up to date if its queue has room for the answer;
  edits and state requests reach the nodes that have the document registered and are not echoed, and an answer that comes
  before the registration is lost. Durability: in the running server a clean idle document
  is what a new load would give, also with all bundled extensions together, if no document has two running actors and
  nothing outside the server changes the saved states; unsaved changes are stored within \<open>max_debounce\<close> of the first of
  them; a reload restores the document, an exit loses edits only if storing failed in the same turn. One actor per document, which everybody has, as long as
  actors do not end, and the run of the server that breaks this when they do; a lookup that waits for a lock waits for a caller that can
  go on. Safety of access: read-only and unauthenticated clients change nothing, rejected clients and updates
  are turned away, and a client's presence ends with its connection. Bounds: waiting queues, outbound channels, broadcasts per batch, admitted connections
  (in a window shortened by how far clock readings enter the throttle out of order). Refinement and well-formedness of the whole server, and that frames only reach the document they
  are addressed to. Error behaviour, among it the cases in which the code does not do what its comments
  intend (two actors for one document, a state request answered before the document is registered, the connection limit overrun by a burst, edits dropped with a
  failed store, a saved state overwritten after a failed load, evicted clients that are not told, a
  panic on some query strings).

  \<^bold>\<open>Assumptions.\<close> \<open>yrs\<close> (locale \<open>yjs\<close>): updates only add to a document and do so monotonically, a failed
  or empty transaction changes nothing, a diff against the state vector of a base brings everyone who holds the
  base up to date, an encoded state loads back, messages survive their encoding if they are shorter than \<open>2\<^sup>3\<^sup>2\<close>
  bytes (the length prefix the codec reads). Storage backends return what was stored. Redis delivers what is published.
  The relation \<open>E\<close> of the step relation limits what other tasks do to the hook state; the durability
  results ask that they leave the saved state of this document alone. The parameter \<open>wait\<close> of the connection
  handlers of \<open>Server\<close> is what the rest of the system does while a handler awaits an acknowledgement; in
  \<open>System\<close> it is the steps of the other tasks.

  \<^bold>\<open>Bounds.\<close> Nothing is cut off by fuel: all loops are structural recursions over the data they consume
  (a batch has at most 512 commands, registration is tried twice, as in the code).

  \<^bold>\<open>Not modelled.\<close> The axum router and the tokio runtime, TLS and HTTP below the request's headers and query,
  log output, \<open>lib.rs\<close> and \<open>extensions/mod.rs\<close> (module lists), what the load test measures and prints,
  benchmarks and tests. In \<open>System\<close> the turn of an actor with its hooks, the load of a document, and the
  \<open>on_connect\<close> and \<open>on_authenticate\<close> hooks of one request are one step each; hook futures are not interleaved, and
  a writer task does not empty a queue in the middle of a broadcast. Of the load test only the branch that starts
  the server in its own process is modelled, not the one for an external server (\<open>HP_ADDR\<close>).
  The clients of the convergence results take in every frame of their queue, whatever its address; that a broadcast is
  addressed to each of its receivers is shown in \<open>Document_Props\<close>.
\<close>

end
